(* ===== verification/Prelude.thy ===== *)
theory Prelude
  imports "HOL-Library.Word" "HOL-Library.Monad_Syntax" "HOL-Library.Signed_Division"
    "HOL-Library.Multiset"
begin

text \<open>Shared vocabulary: machine words, the flat byte memory and its little-endian 16 and 32-bit accesses,
  address ranges, byte blocks, the first-match search over a list and stable insertion into an ordered list.\<close>

unbundle bit_operations_syntax

type_synonym u8 = "8 word"
type_synonym u16 = "16 word"
type_synonym u32 = "32 word"
type_synonym mem = "u32 \<Rightarrow> u8"

named_theorems mem_simps

lemma unat_of_nat32 [simp]: "i < 2 ^ 32 \<Longrightarrow> unat (of_nat i :: u32) = i"
  by (simp add: unat_of_nat take_bit_nat_eq_self)

lemma unat_diff_eq_0 [simp]: "unat (a - b :: u32) = 0 \<longleftrightarrow> a = b"
  by (simp add: unat_eq_zero)

lemma unat_minus_1 [simp]: "unat (- 1 :: u32) = 4294967295"
  by (simp add: unsigned_minus_1_eq_mask mask_eq_exp_minus_1)

lemma unat_diff_step: "a \<noteq> p \<Longrightarrow> unat (a - (p + 1)) = unat (a - p :: u32) - 1"
proof -
  assume "a \<noteq> p"
  then have "0 < unat (a - p)" by (metis gr0I unat_diff_eq_0)
  then have "1 \<le> a - p" by (simp only: word_le_nat_alt unat_1 One_nat_def Suc_le_eq)
  then have "unat (a - p - 1) = unat (a - p) - 1" by (simp add: unat_sub)
  then show ?thesis by (simp add: algebra_simps)
qed

lemma unat_add_of_nat: "unat w + k < 2 ^ 32 \<Longrightarrow> unat (w + of_nat k :: u32) = unat w + k"
  by (simp add: unat_word_ariths take_bit_nat_eq_self)

lemma ucast_8_32_inj [simp]: "(ucast (x :: u8) :: u32) = ucast y \<longleftrightarrow> x = y"
proof
  have "unat z < 2 ^ LENGTH(8)" for z :: u8 by (rule unsigned_less)
  then have *: "unat (ucast z :: u32) = unat z" for z :: u8
    by (simp add: unsigned_ucast_eq take_bit_nat_eq_self order_less_trans [of "unat z" 256])
  assume "(ucast x :: u32) = ucast y"
  then have "unat x = unat y" by (metis *)
  then show "x = y" by (simp add: word_unat_eq_iff)
qed simp

lemma unat_lt32: "unat (v :: u32) < 2 ^ 32"
  using unsigned_less [of v] by simp

lemma xor_right_cancel [simp]: "x XOR c = y XOR c \<longleftrightarrow> x = (y :: 'a::len word)"
  by (metis xor.assoc xor.right_neutral xor_self_eq)

lemma xor_left_cancel [simp]: "c XOR x = c XOR y \<longleftrightarrow> x = (y :: 'a::len word)"
  by (metis xor.commute xor_right_cancel)

lemma sint_cases: "sint (w :: u32) = (if unat w < 2147483648 then int (unat w) else int (unat w) - 4294967296)"
proof -
  define n where "n = unat w"
  have n: "n < 4294967296" using unat_lt32 [of w] by (simp add: n_def)
  have "w = word_of_int (int n)" by (simp add: n_def)
  then have "sint w = (int n + 2147483648) mod 4294967296 - 2147483648"
    using int_word_sint [of "int n", where ?'a = 32] by (simp add: add.commute)
  moreover have "(int n + 2147483648) mod 4294967296
      = (if n < 2147483648 then int n + 2147483648 else int n - 2147483648)"
  proof (cases "n < 2147483648")
    case True
    then show ?thesis by (simp add: mod_pos_pos_trivial)
  next
    case False
    have "int n + 2147483648 = (int n - 2147483648) + 4294967296" by linarith
    then have "(int n + 2147483648) mod 4294967296 = ((int n - 2147483648) + 4294967296) mod 4294967296"
      by metis
    also have "\<dots> = (int n - 2147483648) mod 4294967296" by (rule mod_add_self2)
    also have "\<dots> = int n - 2147483648" using n False by (intro mod_pos_pos_trivial) linarith+
    finally show ?thesis using False by simp
  qed
  ultimately show ?thesis by (simp add: n_def split: if_splits)
qed

lemma unat_add_le: "unat (a + b :: u32) \<le> unat a + unat b"
  by (simp add: unat_word_ariths mod_less_eq_dividend)

lemma unat_neg32: "v \<noteq> 0 \<Longrightarrow> unat (- v) = 4294967296 - unat (v :: u32)"
  using unat_sub_if' [of 0 v] by (auto simp: unat_eq_zero dest: unat_eq_zero [THEN iffD1])

lemma sint_small: "unat w < 2147483648 \<Longrightarrow> sint (w :: u32) = int (unat w)"
  by (simp only: sint_cases if_True)

lemma sint_le_unat: "sint (w :: u32) \<le> int (unat w)"
  by (simp only: sint_cases split: if_split) simp

definition rng :: "u32 \<Rightarrow> nat \<Rightarrow> u32 set" where
  "rng p n = {a. unat (a - p) < n}"

lemma rng_iff: "a \<in> rng p n \<longleftrightarrow> unat (a - p) < n"
  by (simp add: rng_def)

lemma rng_0 [simp]: "rng p 0 = {}"
  by (simp add: rng_def)

lemma rng_self [simp]: "p \<in> rng p n \<longleftrightarrow> 0 < n"
  by (simp add: rng_def)

lemma rng_plus: "i < 2 ^ 32 \<Longrightarrow> p + of_nat i \<in> rng p n \<longleftrightarrow> i < n"
  by (simp add: rng_def)

lemma rng_mono: "n \<le> k \<Longrightarrow> rng p n \<subseteq> rng p k"
  by (auto simp: rng_def)

lemma rng_linear:
  assumes "unat p + n \<le> 2 ^ 32"
  shows "a \<in> rng p n \<longleftrightarrow> unat p \<le> unat a \<and> unat a < unat p + n"
proof (cases "p \<le> a")
  case True
  then show ?thesis using assms
    by (auto simp: rng_def unat_sub word_le_nat_alt)
next
  case False
  have "unat (a - p) = 2 ^ 32 + unat a - unat p"
    using False by (simp add: unat_sub_if' word_le_nat_alt)
  then show ?thesis using assms False
    by (auto simp: rng_def word_le_nat_alt)
qed

lemma rng_disjoint_linear:
  assumes "unat p + n \<le> unat q" "unat q + k \<le> 2 ^ 32"
  shows "rng p n \<inter> rng q k = {}"
  using assms by (auto simp: rng_linear)

lemma rng_image: "n \<le> 2 ^ 32 \<Longrightarrow> rng p n = (\<lambda>i. p + of_nat i) ` {..<n}"
proof
  assume n: "n \<le> 2 ^ 32"
  show "rng p n \<subseteq> (\<lambda>i. p + of_nat i) ` {..<n}"
  proof
    fix a assume "a \<in> rng p n"
    then have "unat (a - p) < n" "a = p + of_nat (unat (a - p))" by (simp_all add: rng_def)
    then show "a \<in> (\<lambda>i. p + of_nat i) ` {..<n}" by blast
  qed
  show "(\<lambda>i. p + of_nat i) ` {..<n} \<subseteq> rng p n" using n by (auto simp: rng_plus)
qed

lemma rng_split: "a + b \<le> 2 ^ 32 \<Longrightarrow> rng p (a + b) = rng p a \<union> rng (p + of_nat a) b"
proof -
  assume n: "a + b \<le> 2 ^ 32"
  have "{..<a + b} = {..<a} \<union> (\<lambda>i. a + i) ` {..<b}"
    by (simp add: lessThan_atLeast0 add.commute image_add_atLeastLessThan ivl_disj_un_two(3))
  then show ?thesis using n by (simp add: rng_image image_Un image_image add.assoc)
qed

lemma rng_Suc: "n < 2 ^ 32 \<Longrightarrow> rng p (Suc n) = insert p (rng (p + 1) n)"
  using rng_split [of 1 n p] rng_image [of 1 p] by (auto simp: lessThan_Suc)

definition bytes :: "mem \<Rightarrow> u32 \<Rightarrow> nat \<Rightarrow> u8 list" where
  "bytes m p n = map (\<lambda>i. m (p + of_nat i)) [0..<n]"

lemma length_bytes [simp]: "length (bytes m p n) = n"
  by (simp add: bytes_def)

lemma nth_bytes [simp]: "i < n \<Longrightarrow> bytes m p n ! i = m (p + of_nat i)"
  by (simp add: bytes_def)

lemma bytes_Suc: "bytes m p (Suc n) = m p # bytes m (p + 1) n"
  by (rule nth_equalityI) (auto simp: nth_Cons algebra_simps split: nat.split)

definition wr_bytes :: "mem \<Rightarrow> u32 \<Rightarrow> u8 list \<Rightarrow> mem" where
  "wr_bytes m p bs = (\<lambda>a. if unat (a - p) < length bs then bs ! unat (a - p) else m a)"

lemma wr_bytes_Nil [simp]: "wr_bytes m p [] = m"
  by (simp add: wr_bytes_def)

lemma wr_bytes_outside [mem_simps]: "a \<notin> rng p (length bs) \<Longrightarrow> wr_bytes m p bs a = m a"
  by (simp add: wr_bytes_def rng_def)

lemma wr_bytes_at: "i < length bs \<Longrightarrow> i < 2 ^ 32 \<Longrightarrow> wr_bytes m p bs (p + of_nat i) = bs ! i"
  by (simp add: wr_bytes_def)

lemma bytes_wr_bytes: "length bs \<le> 2 ^ 32 \<Longrightarrow> bytes (wr_bytes m p bs) p (length bs) = bs"
  by (rule nth_equalityI) (auto simp: wr_bytes_at)

lemma bytes_cong: "(\<And>a. a \<in> rng p n \<Longrightarrow> m a = m' a) \<Longrightarrow> n \<le> 2 ^ 32 \<Longrightarrow> bytes m p n = bytes m' p n"
  by (rule nth_equalityI) (auto simp: rng_plus)

fun wr_seq :: "mem \<Rightarrow> u32 \<Rightarrow> u8 list \<Rightarrow> mem" where
  "wr_seq m p [] = m"
| "wr_seq m p (b # bs) = wr_seq (m(p := b)) (p + 1) bs"

lemma wr_bytes_Cons:
  assumes "length bs < 2 ^ 32"
  shows "wr_bytes (m(p := b)) (p + 1) bs = wr_bytes m p (b # bs)"
proof (rule ext)
  fix a
  show "wr_bytes (m(p := b)) (p + 1) bs a = wr_bytes m p (b # bs) a"
  proof (cases "a = p")
    case True
    have "unat (p - (p + 1)) = 2 ^ 32 - 1" by simp
    then show ?thesis using True assms by (auto simp: wr_bytes_def)
  next
    case False
    then have "unat (a - (p + 1)) = unat (a - p) - 1" "unat (a - p) \<noteq> 0"
      by (simp_all add: unat_diff_step)
    then show ?thesis using False by (auto simp: wr_bytes_def nth_Cons split: nat.splits)
  qed
qed

lemma unat_diff_eq_of_nat: "n < 2 ^ 32 \<Longrightarrow> unat (a - p :: u32) = n \<longleftrightarrow> a = p + of_nat n"
  by (metis add.commute diff_add_cancel add_diff_cancel_left' unat_of_nat32 of_nat_unat ucast_id)

lemma wr_bytes_fun_upd:
  "a \<notin> rng p (length bs) \<Longrightarrow> (wr_bytes m p bs)(a := b) = wr_bytes (m(a := b)) p bs"
  by (auto simp: wr_bytes_def rng_def fun_eq_iff)

lemma wr_bytes_prepend:
  assumes "length bs < 2 ^ 32"
  shows "(wr_bytes m (p + 1) bs)(p := b) = wr_bytes m p (b # bs)"
proof -
  have "unat (p - (p + 1)) = 2 ^ 32 - 1" by simp
  then have "p \<notin> rng (p + 1) (length bs)" using assms by (simp add: rng_def)
  then show ?thesis using assms by (simp add: wr_bytes_fun_upd wr_bytes_Cons)
qed

lemma wr_bytes_snoc:
  assumes "length bs < 2 ^ 32"
  shows "wr_bytes (m(p + of_nat (length bs) := b)) p bs = wr_bytes m p (bs @ [b])"
proof (rule ext)
  fix a
  have "unat (a - p) = length bs \<longleftrightarrow> a = p + of_nat (length bs)"
    using assms by (metis add.commute diff_add_cancel add_diff_cancel_left' unat_of_nat32 of_nat_unat ucast_id)
  then show "wr_bytes (m(p + of_nat (length bs) := b)) p bs a = wr_bytes m p (bs @ [b]) a"
    by (auto simp: wr_bytes_def nth_append less_Suc_eq)
qed

lemma wr_seq_wr_bytes: "length bs \<le> 2 ^ 32 \<Longrightarrow> wr_seq m p bs = wr_bytes m p bs"
proof (induction bs arbitrary: m p)
  case Nil
  then show ?case by simp
next
  case (Cons b bs)
  then have "wr_seq (m(p := b)) (p + 1) bs = wr_bytes (m(p := b)) (p + 1) bs" by simp
  then show ?case using Cons.prems by (simp add: wr_bytes_Cons)
qed

lemma wr_seq_append: "wr_seq m p (xs @ ys) = wr_seq (wr_seq m p xs) (p + of_nat (length xs)) ys"
  by (induction xs arbitrary: m p) (simp_all add: algebra_simps)

lemma wr_bytes_append:
  "length xs + length ys \<le> 2 ^ 32 \<Longrightarrow>
   wr_bytes m p (xs @ ys) = wr_bytes (wr_bytes m p xs) (p + of_nat (length xs)) ys"
  using wr_seq_append [of m p xs ys] by (simp add: wr_seq_wr_bytes)

lemma wr_bytes_put:
  "length bs < 2 ^ 32 \<Longrightarrow> (wr_bytes m p bs)(p + of_nat (length bs) := b) = wr_bytes m p (bs @ [b])"
  by (subst wr_bytes_fun_upd) (simp_all add: rng_plus wr_bytes_snoc)

lemma bytes_split: "bytes m p (a + b) = bytes m p a @ bytes m (p + of_nat a) b"
proof (rule nth_equalityI)
  fix i assume "i < length (bytes m p (a + b))"
  then have i: "i < a + b" by simp
  show "bytes m p (a + b) ! i = (bytes m p a @ bytes m (p + of_nat a) b) ! i"
  proof (cases "i < a")
    case False
    then obtain k where "i = a + k" using le_Suc_ex not_less by blast
    then show ?thesis using i by (simp add: nth_append add.assoc)
  qed (use i in \<open>simp add: nth_append\<close>)
qed simp

lemma rng_sub: "j \<le> n \<Longrightarrow> n \<le> 2 ^ 32 \<Longrightarrow> rng (p + of_nat j) (n - j) \<subseteq> rng p n"
  using rng_split [of j "n - j" p] by auto

lemma bytes_wr_take: "n \<le> length xs \<Longrightarrow> length xs \<le> 2 ^ 32 \<Longrightarrow> bytes (wr_bytes m p xs) p n = take n xs"
  by (rule nth_equalityI) (auto simp: wr_bytes_at)

definition ld16 :: "mem \<Rightarrow> u32 \<Rightarrow> u16" where
  "ld16 m p = ucast (m p) OR push_bit 8 (ucast (m (p + 1)))"

definition ld32 :: "mem \<Rightarrow> u32 \<Rightarrow> u32" where
  "ld32 m p = ucast (m p) OR push_bit 8 (ucast (m (p + 1)))
     OR push_bit 16 (ucast (m (p + 2))) OR push_bit 24 (ucast (m (p + 3)))"

definition st32 :: "mem \<Rightarrow> u32 \<Rightarrow> u32 \<Rightarrow> mem" where
  "st32 m p v = m(p := ucast v, p + 1 := ucast (drop_bit 8 v),
     p + 2 := ucast (drop_bit 16 v), p + 3 := ucast (drop_bit 24 v))"

lemma rng4_cases: "a \<in> rng p 4 \<Longrightarrow> a = p \<or> a = p + 1 \<or> a = p + 2 \<or> a = p + 3"
proof -
  assume "a \<in> rng p 4"
  then have "unat (a - p) < 4" by (simp add: rng_def)
  then have "unat (a - p) = 0 \<or> unat (a - p) = 1 \<or> unat (a - p) = 2 \<or> unat (a - p) = 3" by arith
  then have "a - p = 0 \<or> a - p = 1 \<or> a - p = 2 \<or> a - p = 3"
    by (simp add: word_unat_eq_iff)
  then show ?thesis by (auto simp: algebra_simps)
qed

lemma rng4_mem [simp]: "p + 1 \<in> rng p 4" "p + 2 \<in> rng p 4" "p + 3 \<in> rng p 4"
  by (simp_all add: rng_def)

lemma ld32_st32_same [mem_simps, simp]: "ld32 (st32 m p v) p = v"
proof (rule bit_word_eqI)
  fix n assume "n < LENGTH(32)"
  then show "bit (ld32 (st32 m p v) p) n = bit v n"
    unfolding ld32_def st32_def
    by (simp add: bit_simps) (cases "n < 8"; cases "n < 16"; cases "n < 24"; simp add: less_diff_conv2; arith?)
qed

lemma st32_outside [mem_simps]: "a \<notin> rng p 4 \<Longrightarrow> st32 m p v a = m a"
  by (auto simp: st32_def)

lemma ld32_cong: "(\<And>a. a \<in> rng p 4 \<Longrightarrow> m a = m' a) \<Longrightarrow> ld32 m p = ld32 m' p"
  by (simp add: ld32_def)

lemma ld32_st32_other [mem_simps]:
  "rng p 4 \<inter> rng q 4 = {} \<Longrightarrow> ld32 (st32 m p v) q = ld32 m q"
  by (rule ld32_cong) (auto intro: st32_outside)

lemma rng_disjoint_words: "rng p 4 \<inter> rng (p + 4) 4 = {}"
proof -
  have "4 \<le> a - (p + 4)" if "a \<in> rng p 4" for a :: u32
    using rng4_cases [OF that] by (elim disjE) simp_all
  then have "4 \<le> unat (a - (p + 4))" if "a \<in> rng p 4" for a :: u32
    using that word_le_nat_alt [of 4 "a - (p + 4)"] by simp
  then show ?thesis by (force simp: rng_iff)
qed

lemma rng_48: "rng p 4 \<subseteq> rng p 8" "rng (p + 4) 4 \<subseteq> rng p 8"
  using rng_mono [of 4 8 p] rng_split [of 4 4 p] by auto

lemma st32_twice [simp]: "st32 (st32 m p v) p w = st32 m p w"
  by (simp add: st32_def fun_eq_iff)


text \<open>Two memories that differ at most inside a region.\<close>

definition agrees_off :: "u32 set \<Rightarrow> mem \<Rightarrow> mem \<Rightarrow> bool" where
  "agrees_off R m m' \<longleftrightarrow> (\<forall>a. a \<notin> R \<longrightarrow> m a = m' a)"

lemma agrees_off_refl [simp]: "agrees_off R m m"
  by (simp add: agrees_off_def)

lemma agrees_off_trans: "agrees_off R m m' \<Longrightarrow> agrees_off R m' m'' \<Longrightarrow> agrees_off R m m''"
  by (simp add: agrees_off_def)

lemma agrees_off_mono: "agrees_off R m m' \<Longrightarrow> R \<subseteq> S \<Longrightarrow> agrees_off S m m'"
  by (auto simp: agrees_off_def)

lemma agrees_off_bytes:
  assumes "agrees_off R m m'" "rng p n \<inter> R = {}" "n \<le> 2 ^ 32"
  shows "bytes m' p n = bytes m p n"
  using assms(1,2) by (intro bytes_cong [OF _ assms(3)]) (auto simp: agrees_off_def)

lemma agrees_off_wr: "length bs \<le> n \<Longrightarrow> agrees_off (rng p n) m (wr_bytes m p bs)"
  by (auto simp: agrees_off_def wr_bytes_def rng_def)

lemma agrees_off_st32: "agrees_off R m m' \<Longrightarrow> rng p 4 \<subseteq> R \<Longrightarrow> agrees_off R m (st32 m' p v)"
  unfolding agrees_off_def by (metis st32_outside subsetD)

lemma wr_bytes_same: "n \<le> 2 ^ 32 \<Longrightarrow> wr_bytes m p (bytes m p n) = m"
  by (auto simp: wr_bytes_def fun_eq_iff)

fun first_idx :: "('a \<Rightarrow> bool) \<Rightarrow> 'a list \<Rightarrow> nat option" where
  "first_idx P [] = None"
| "first_idx P (x # xs) = (if P x then Some 0 else map_option Suc (first_idx P xs))"

lemma first_idx_None_iff: "first_idx P xs = None \<longleftrightarrow> (\<forall>x\<in>set xs. \<not> P x)"
  by (induction xs) auto

lemma first_idx_cong: "(\<And>x. x \<in> set xs \<Longrightarrow> P x = Q x) \<Longrightarrow> first_idx P xs = first_idx Q xs"
  by (induction xs) auto

lemma first_idx_hit: "first_idx P xs = Some i \<Longrightarrow> i < length xs \<and> P (xs ! i)"
  by (induction xs arbitrary: i) (auto split: if_splits)

lemma find_unique:
  assumes "x \<in> set xs" "P x" "\<And>y. y \<in> set xs \<Longrightarrow> P y \<Longrightarrow> y = x"
  shows "List.find P xs = Some x"
proof (cases "List.find P xs")
  case None
  then show ?thesis using assms(1,2) by (auto simp: find_None_iff)
next
  case (Some y)
  then have "y \<in> set xs \<and> P y" by (auto simp: find_Some_iff)
  then show ?thesis using Some assms(3) by simp
qed

lemma find_map_list: "List.find P (map f xs) = map_option f (List.find (P \<circ> f) xs)"
  by (induction xs) auto

lemma find_cong_set: "(\<And>x. x \<in> set xs \<Longrightarrow> P x = Q x) \<Longrightarrow> List.find P xs = List.find Q xs"
  by (induction xs) auto

lemma first_idx_Some_iff:
  "first_idx P xs = Some i \<longleftrightarrow> i < length xs \<and> P (xs ! i) \<and> (\<forall>j<i. \<not> P (xs ! j))"
proof (induction xs arbitrary: i)
  case Nil
  then show ?case by simp
next
  case (Cons x xs)
  show ?case
    by (cases i) (auto simp: Cons.IH nth_Cons split: nat.splits)
qed

lemma first_idx_append:
  "first_idx P (xs @ ys) = (case first_idx P xs of Some i \<Rightarrow> Some i
     | None \<Rightarrow> map_option (\<lambda>i. length xs + i) (first_idx P ys))"
proof (induction xs)
  case Nil
  then show ?case by (cases "first_idx P ys") auto
next
  case (Cons x xs)
  then show ?case by (cases "first_idx P ys") (auto split: option.splits)
qed

definition insert_before :: "('a \<Rightarrow> bool) \<Rightarrow> 'a \<Rightarrow> 'a list \<Rightarrow> 'a list" where
  "insert_before P x xs = (case first_idx P xs of Some i \<Rightarrow> take i xs @ x # drop i xs | None \<Rightarrow> xs @ [x])"

lemma insert_before_mset: "mset (insert_before P x xs) = add_mset x (mset xs)"
proof (cases "first_idx P xs")
  case (Some i)
  have "mset (take i xs) + mset (drop i xs) = mset xs" by (metis append_take_drop_id mset_append)
  then show ?thesis using Some by (simp add: insert_before_def)
qed (simp add: insert_before_def)

lemma insert_before_set [simp]: "set (insert_before P x xs) = insert x (set xs)"
  using insert_before_mset [of P x xs] by (metis set_mset_add_mset_insert set_mset_mset)

lemma insert_before_length [simp]: "length (insert_before P x xs) = Suc (length xs)"
  using insert_before_mset [of P x xs] by (metis size_add_mset size_mset)

locale ordered_insert =
  fixes ins :: "'a \<Rightarrow> 'a list \<Rightarrow> 'a list" and before :: "'a \<Rightarrow> 'a \<Rightarrow> bool"
    and key :: "'a \<Rightarrow> nat" and dom_ok :: "'a \<Rightarrow> bool"
  assumes ins_before: "ins x xs = insert_before (before x) x xs"
    and before_key: "dom_ok x \<Longrightarrow> dom_ok y \<Longrightarrow> before x y \<Longrightarrow> key x \<le> key y"
    and not_before_key: "dom_ok x \<Longrightarrow> dom_ok y \<Longrightarrow> \<not> before x y \<Longrightarrow> key y \<le> key x"
begin

lemma ins_sorted:
  assumes "dom_ok x" "\<forall>y\<in>set xs. dom_ok y" "sorted (map key xs)"
  shows "sorted (map key (ins x xs))"
proof (cases "first_idx (before x) xs")
  case None
  then have "\<forall>y\<in>set xs. key y \<le> key x" using assms by (auto simp: first_idx_None_iff not_before_key)
  with None assms show ?thesis by (auto simp: ins_before insert_before_def sorted_append)
next
  case (Some i)
  then have i: "i < length xs" "before x (xs ! i)" "\<forall>j<i. \<not> before x (xs ! j)"
    by (auto simp: first_idx_Some_iff)
  have lo: "\<forall>y\<in>set (take i xs). key y \<le> key x"
  proof
    fix y assume "y \<in> set (take i xs)"
    then obtain j where "j < i" "y = xs ! j" by (auto simp: in_set_conv_nth)
    then show "key y \<le> key x" using i assms(1,2) by (simp add: not_before_key)
  qed
  have at: "key x \<le> key (xs ! i)" using i assms(1,2) by (simp add: before_key)
  have "sorted (map key (drop i xs))"
    by (metis assms(3) append_take_drop_id map_append sorted_append)
  moreover have "drop i xs = xs ! i # drop (Suc i) xs" using i by (simp add: Cons_nth_drop_Suc)
  ultimately have "\<forall>y\<in>set (drop i xs). key (xs ! i) \<le> key y" by auto
  then have hi: "\<forall>y\<in>set (drop i xs). key x \<le> key y" using at by force
  have "sorted (map key (take i xs))" "sorted (map key (drop i xs))"
    by (metis assms(3) append_take_drop_id map_append sorted_append)+
  moreover have "ins x xs = take i xs @ x # drop i xs"
    using Some by (simp add: ins_before insert_before_def)
  ultimately show ?thesis using lo hi by (fastforce simp: sorted_append)
qed

lemma ins_mset: "mset (ins x xs) = add_mset x (mset xs)"
  by (simp add: ins_before insert_before_mset)

lemma fold_ins_mset: "mset (foldl (\<lambda>acc x. ins x acc) xs ys) = mset xs + mset ys"
  by (induction ys arbitrary: xs) (simp_all add: ins_mset)

lemma fold_ins:
  assumes "\<forall>x\<in>set ys. dom_ok x" "\<forall>y\<in>set xs. dom_ok y" "sorted (map key xs)"
  shows "sorted (map key (foldl (\<lambda>acc x. ins x acc) xs ys))
     \<and> mset (foldl (\<lambda>acc x. ins x acc) xs ys) = mset xs + mset ys"
  using assms
proof (induction ys arbitrary: xs)
  case Nil
  then show ?case by simp
next
  case (Cons y ys)
  have "set (ins y xs) = insert y (set xs)" by (metis ins_mset set_mset_add_mset_insert set_mset_mset)
  then have "sorted (map key (foldl (\<lambda>acc x. ins x acc) (ins y xs) ys))
     \<and> mset (foldl (\<lambda>acc x. ins x acc) (ins y xs) ys) = mset (ins y xs) + mset ys"
    using Cons.prems ins_sorted [of y xs] by (intro Cons.IH) auto
  then show ?case by (simp add: ins_mset)
qed

end

lemma bind_SomeE: "Option.bind a g = Some y \<Longrightarrow> (\<And>x. a = Some x \<Longrightarrow> g x = Some y \<Longrightarrow> R) \<Longrightarrow> R"
  by (cases a) auto

lemma find_first_idx: "List.find P xs = map_option ((!) xs) (first_idx P xs)"
  by (induction xs) (auto simp: option.map_comp comp_def)

lemma find_append: "List.find P (xs @ ys) = (case List.find P xs of Some x \<Rightarrow> Some x | None \<Rightarrow> List.find P ys)"
  by (induction xs) auto

locale first_match =
  fixes search :: "'k \<Rightarrow> 'a list \<Rightarrow> nat option option" and hit :: "'k \<Rightarrow> 'a \<Rightarrow> bool"
  assumes search_first: "search k xs = Some (first_idx (hit k) xs)"
begin

lemma search_total: "\<exists>r. search k xs = Some r"
  by (simp add: search_first)

lemma search_hit:
  "search k xs = Some (Some i) \<Longrightarrow> i < length xs \<and> hit k (xs ! i) \<and> (\<forall>j<i. \<not> hit k (xs ! j))"
  by (simp add: search_first first_idx_Some_iff)

lemma search_miss: "search k xs = Some None \<longleftrightarrow> (\<forall>x\<in>set xs. \<not> hit k x)"
  by (simp add: search_first first_idx_None_iff)

lemma search_elem: "search k xs = Some r \<Longrightarrow> List.find (hit k) xs = map_option ((!) xs) r"
  by (auto simp: search_first find_first_idx)

lemma search_unique:
  assumes "i < length xs" "hit k (xs ! i)" "\<And>j. j < length xs \<Longrightarrow> hit k (xs ! j) \<Longrightarrow> j = i"
  shows "search k xs = Some (Some i)"
proof (cases "first_idx (hit k) xs")
  case None
  then show ?thesis using assms(1,2) by (auto simp: first_idx_None_iff)
next
  case (Some j)
  then have "j = i" using assms(3) by (simp add: first_idx_Some_iff)
  then show ?thesis using Some by (simp add: search_first)
qed

end


end
