(* ===== verification/Libc.thy ===== *)
theory Libc
  imports Prelude
begin

text \<open>The memory and string functions of \<open>src/libc.c\<close> (\<open>memcpy\<close>, \<open>memmove\<close>, \<open>memset\<close>, \<open>strcmp\<close>, \<open>strcpy\<close>,
  \<open>strlen\<close>, \<open>strnlen\<close>), byte by byte over the flat memory. A string argument is a pointer or a literal of the
  read-only data.\<close>

fun copy_fwd :: "mem \<Rightarrow> u32 \<Rightarrow> u32 \<Rightarrow> nat \<Rightarrow> mem" where
  "copy_fwd m d s 0 = m"
| "copy_fwd m d s (Suc n) = copy_fwd (m(d := m s)) (d + 1) (s + 1) n"

fun copy_bwd :: "mem \<Rightarrow> u32 \<Rightarrow> u32 \<Rightarrow> nat \<Rightarrow> mem" where
  "copy_bwd m d s 0 = m"
| "copy_bwd m d s (Suc n) = copy_bwd (m(d - 1 := m (s - 1))) (d - 1) (s - 1) n"

definition uld_memcpy :: "mem \<Rightarrow> u32 \<Rightarrow> u32 \<Rightarrow> nat \<Rightarrow> mem" where
  "uld_memcpy m dest src n = copy_fwd m dest src n"

definition uld_memmove :: "mem \<Rightarrow> u32 \<Rightarrow> u32 \<Rightarrow> nat \<Rightarrow> mem" where
  "uld_memmove m dest src n =
     (if dest < src then copy_fwd m dest src n
      else if src < dest then copy_bwd m (dest + of_nat n) (src + of_nat n) n
      else m)"

fun uld_memset :: "mem \<Rightarrow> u32 \<Rightarrow> u8 \<Rightarrow> nat \<Rightarrow> mem" where
  "uld_memset m s c 0 = m"
| "uld_memset m s c (Suc n) = uld_memset (m(s := c)) (s + 1) c n"

datatype cstr = Lit "u8 list" | Ptr u32

definition cs_byte :: "mem \<Rightarrow> cstr \<Rightarrow> nat \<Rightarrow> u8" where
  "cs_byte m s i = (case s of Lit bs \<Rightarrow> if i < length bs then bs ! i else 0
                            | Ptr p \<Rightarrow> m (p + of_nat i))"

partial_function (option) strcmp_from :: "mem \<Rightarrow> cstr \<Rightarrow> cstr \<Rightarrow> nat \<Rightarrow> int option" where
  "strcmp_from m s1 s2 i =
     (if cs_byte m s1 i \<noteq> 0 \<and> cs_byte m s1 i = cs_byte m s2 i
      then strcmp_from m s1 s2 (Suc i)
      else Some (uint (cs_byte m s1 i) - uint (cs_byte m s2 i)))"

definition uld_strcmp :: "mem \<Rightarrow> cstr \<Rightarrow> cstr \<Rightarrow> int option" where
  "uld_strcmp m s1 s2 = strcmp_from m s1 s2 0"

partial_function (option) uld_strcpy :: "mem \<Rightarrow> u32 \<Rightarrow> u32 \<Rightarrow> mem option" where
  "uld_strcpy m d src =
     (if m src \<noteq> 0 then uld_strcpy (m(d := m src)) (d + 1) (src + 1)
      else Some (m(d := m src)))"

partial_function (option) strlen_from :: "mem \<Rightarrow> u32 \<Rightarrow> nat \<Rightarrow> nat option" where
  "strlen_from m s n = (if m s \<noteq> 0 then strlen_from m (s + 1) (Suc n) else Some n)"

definition uld_strlen :: "mem \<Rightarrow> u32 \<Rightarrow> nat option" where
  "uld_strlen m s = strlen_from m s 0"

fun uld_strnlen :: "mem \<Rightarrow> u32 \<Rightarrow> nat \<Rightarrow> nat" where
  "uld_strnlen m s 0 = 0"
| "uld_strnlen m s (Suc maxlen) =
     (if m s \<noteq> 0 then Suc (uld_strnlen m (s + 1) maxlen) else 0)"

definition moved :: "mem \<Rightarrow> u32 \<Rightarrow> u32 \<Rightarrow> nat \<Rightarrow> mem" where
  "moved m d s n = (\<lambda>a. if unat (a - d) < n then m (s + (a - d)) else m a)"

lemma moved_wr_bytes: "wr_bytes m d (bytes m s n) = moved m d s n"
  by (auto simp: wr_bytes_def moved_def)

lemma copy_fwd_moved:
  assumes "d < s" "unat s + n \<le> 2 ^ 32"
  shows "copy_fwd m d s n = moved m d s n"
  using assms
proof (induction n arbitrary: m d s)
  case 0
  then show ?case by (simp add: moved_def)
next
  case (Suc n)
  show ?case
  proof (cases n)
    case 0
    then show ?thesis by (auto simp: moved_def fun_eq_iff less_Suc0)
  next
    case (Suc k)
    have s1: "unat (s + 1) = unat s + 1" "unat (d + 1) = unat d + 1"
      using Suc.prems Suc by (auto simp: unat_word_ariths word_less_nat_alt)
    have IH: "copy_fwd (m(d := m s)) (d + 1) (s + 1) n = moved (m(d := m s)) (d + 1) (s + 1) n"
      using Suc.prems s1 by (intro Suc.IH) (auto simp: word_less_nat_alt)
    have "moved (m(d := m s)) (d + 1) (s + 1) n a = moved m d s (Suc n) a" for a
    proof (cases "a = d")
      case True
      then show ?thesis
        using Suc.prems by (auto simp: moved_def)
    next
      case False
      then have "unat (a - d) \<noteq> 0" by simp
      then have e: "unat (a - (d + 1)) = unat (a - d) - 1"
        using False by (simp only: unat_diff_step not_False_eq_True)
      have "s + (a - d) \<noteq> d" if "unat (a - d) < Suc n"
      proof -
        have "unat (s + (a - d)) = unat s + unat (a - d)"
          using that Suc.prems by (simp add: unat_word_ariths)
        then have "unat (s + (a - d)) \<noteq> unat d"
          using Suc.prems by (simp add: word_less_nat_alt)
        then show ?thesis by metis
      qed
      moreover have "s + 1 + (a - (d + 1)) = s + (a - d)" by simp
      ultimately show ?thesis
        using e \<open>unat (a - d) \<noteq> 0\<close> False by (auto simp: moved_def)
    qed
    with IH show ?thesis by auto
  qed
qed


lemma copy_bwd_moved:
  assumes "s < d" "unat d + n \<le> 2 ^ 32"
  shows "copy_bwd m (d + of_nat n) (s + of_nat n) n = moved m d s n"
  using assms
proof (induction n arbitrary: m)
  case 0
  then show ?case by (simp add: moved_def)
next
  case (Suc n)
  let ?e = "d + of_nat n" and ?t = "s + of_nat n"
  have n: "n < 2 ^ 32" using Suc.prems by simp
  have ne: "s + (a - d) \<noteq> ?e" if "unat (a - d) < n" for a
  proof
    assume eq: "s + (a - d) = ?e"
    have "unat (s + (a - d)) = unat s + unat (a - d)" "unat ?e = unat d + n"
      using that Suc.prems n by (simp_all add: unat_word_ariths word_less_nat_alt)
    with arg_cong [OF eq, of unat] have "unat s + unat (a - d) = unat d + n" by metis
    with that Suc.prems show False by (simp add: word_less_nat_alt)
  qed
  have "copy_bwd m (d + of_nat (Suc n)) (s + of_nat (Suc n)) (Suc n)
        = copy_bwd (m(?e := m ?t)) ?e ?t n"
    by (simp add: algebra_simps)
  also have "\<dots> = moved (m(?e := m ?t)) d s n"
    using Suc.prems by (intro Suc.IH) auto
  also have "\<dots> = moved m d s (Suc n)"
  proof (rule ext)
    fix a
    show "moved (m(?e := m ?t)) d s n a = moved m d s (Suc n) a"
  proof (cases "a = ?e")
    case True
    then show ?thesis using n by (simp add: moved_def)
  next
    case False
    then have "unat (a - d) \<noteq> n"
      using n by (metis add_diff_cancel_left' diff_add_cancel of_nat_unat ucast_id add.commute)
    then show ?thesis using False ne [of a] by (auto simp: moved_def)
  qed
  qed
  finally show ?case .
qed

lemma uld_memmove_moved:
  assumes "unat dest + n \<le> 2 ^ 32" "unat src + n \<le> 2 ^ 32"
  shows "uld_memmove m dest src n = moved m dest src n"
proof -
  have "moved m dest dest n = m" by (auto simp: moved_def)
  then show ?thesis
    using assms copy_fwd_moved copy_bwd_moved
    by (auto simp: uld_memmove_def not_less dest: antisym)
qed

lemma rng_step: "rng (x + 1) n \<subseteq> rng x (Suc n)"
proof
  fix a assume "a \<in> rng (x + 1) n"
  then show "a \<in> rng x (Suc n)"
    by (cases "a = x") (auto simp: rng_def unat_diff_step)
qed

lemma copy_fwd_disjoint:
  assumes "rng d n \<inter> rng s n = {}" "n \<le> 2 ^ 32"
  shows "copy_fwd m d s n = moved m d s n"
  using assms
proof (induction n arbitrary: m d s)
  case 0
  then show ?case by (simp add: moved_def)
next
  case (Suc n)
  note sub = rng_step
  have IH: "copy_fwd (m(d := m s)) (d + 1) (s + 1) n = moved (m(d := m s)) (d + 1) (s + 1) n"
    using Suc.prems sub [of d n] sub [of s n] by (intro Suc.IH) auto
  have "moved (m(d := m s)) (d + 1) (s + 1) n a = moved m d s (Suc n) a" for a
  proof (cases "a = d")
    case True
    have "unat (d - (d + 1)) = 2 ^ 32 - 1" by simp
    then show ?thesis using True Suc.prems by (auto simp: moved_def)
  next
    case False
    then have "unat (a - d) \<noteq> 0" by simp
    then have e: "unat (a - (d + 1)) = unat (a - d) - 1"
      using False by (simp only: unat_diff_step not_False_eq_True)
    have "s + (a - d) \<noteq> d" if "unat (a - d) < Suc n"
    proof -
      have "s + (a - d) \<in> rng s (Suc n)" using that by (simp add: rng_def)
      moreover have "d \<in> rng d (Suc n)" by simp
      ultimately show ?thesis using Suc.prems(1) by (metis disjoint_iff)
    qed
    moreover have "s + 1 + (a - (d + 1)) = s + (a - d)" by simp
    ultimately show ?thesis
      using e \<open>unat (a - d) \<noteq> 0\<close> False by (auto simp: moved_def)
  qed
  with IH show ?case by auto
qed

lemma memcpy_disjoint:
  "n \<le> 2 ^ 32 \<Longrightarrow> rng d n \<inter> rng s n = {} \<Longrightarrow> uld_memcpy m d s n = wr_bytes m d (bytes m s n)"
  by (simp add: uld_memcpy_def copy_fwd_disjoint moved_wr_bytes)

lemma uld_memset_wr_seq: "uld_memset m s c n = wr_seq m s (replicate n c)"
  by (induction n arbitrary: m s) auto

lemma uld_memset_wr_bytes: "n \<le> 2 ^ 32 \<Longrightarrow> uld_memset m s c n = wr_bytes m s (replicate n c)"
  by (simp add: uld_memset_wr_seq wr_seq_wr_bytes)

lemma agrees_off_memset: "agrees_off R m m' \<Longrightarrow> rng p n \<subseteq> R \<Longrightarrow> n \<le> 2 ^ 32 \<Longrightarrow> agrees_off R m (uld_memset m' p c n)"
  unfolding agrees_off_def by (metis uld_memset_wr_bytes wr_bytes_outside length_replicate subsetD)

text \<open>NUL-terminated strings.\<close>

definition cs_is :: "mem \<Rightarrow> cstr \<Rightarrow> u8 list \<Rightarrow> bool" where
  "cs_is m s bs \<longleftrightarrow> 0 \<notin> set bs \<and> (\<forall>i<length bs. cs_byte m s i = bs ! i) \<and> cs_byte m s (length bs) = 0"

lemma cs_is_Lit [simp]: "cs_is m (Lit bs) bs \<longleftrightarrow> 0 \<notin> set bs"
  by (auto simp: cs_is_def cs_byte_def)

lemma cs_byte_Ptr [simp]: "cs_byte m (Ptr p) i = m (p + of_nat i)"
  by (simp add: cs_byte_def)

lemma cs_is_unique:
  assumes "cs_is m s xs" "cs_is m s ys"
  shows "xs = ys"
proof -
  have *: "\<not> length x < length y" if "cs_is m s x" "cs_is m s y" for x y
    using that by (auto simp: cs_is_def) (metis nth_mem)
  then have "length xs = length ys"
    using assms by (meson linorder_neqE_nat)
  then show ?thesis
    using assms by (intro nth_equalityI) (auto simp: cs_is_def)
qed

text \<open>The value \<open>strcmp\<close> computes, on the contents of the two strings.\<close>

fun strcmp_bytes :: "u8 list \<Rightarrow> u8 list \<Rightarrow> int" where
  "strcmp_bytes [] [] = 0"
| "strcmp_bytes [] (y # ys) = - uint y"
| "strcmp_bytes (x # xs) [] = uint x"
| "strcmp_bytes (x # xs) (y # ys) = (if x = y then strcmp_bytes xs ys else uint x - uint y)"

lemma strcmp_bytes_eq_0:
  "0 \<notin> set xs \<Longrightarrow> 0 \<notin> set ys \<Longrightarrow> strcmp_bytes xs ys = 0 \<longleftrightarrow> xs = ys"
  by (induction xs ys rule: strcmp_bytes.induct) (auto simp: uint_0_iff simp flip: word_uint_eq_iff)

lemma strcmp_from_drop:
  assumes "cs_is m s xs" "cs_is m t ys" "i \<le> length xs" "i \<le> length ys"
  shows "strcmp_from m s t i = Some (strcmp_bytes (drop i xs) (drop i ys))"
  using assms
proof (induction "length xs - i" arbitrary: i)
  case 0
  then have i: "i = length xs" by simp
  show ?case
  proof (cases "i < length ys")
    case True
    then have "drop i ys = ys ! i # drop (Suc i) ys" by (simp add: Cons_nth_drop_Suc)
    then show ?thesis using 0 i True
      by (subst strcmp_from.simps) (auto simp: cs_is_def)
  next
    case False
    then show ?thesis using 0 i by (subst strcmp_from.simps) (auto simp: cs_is_def)
  qed
next
  case (Suc n)
  then have i: "i < length xs" by simp
  have dx: "drop i xs = xs ! i # drop (Suc i) xs" using i by (simp add: Cons_nth_drop_Suc)
  have nz: "xs ! i \<noteq> 0" using i Suc.prems by (metis cs_is_def nth_mem)
  show ?case
  proof (cases "i < length ys")
    case True
    then have dy: "drop i ys = ys ! i # drop (Suc i) ys" by (simp add: Cons_nth_drop_Suc)
    have IH: "strcmp_from m s t (Suc i) = Some (strcmp_bytes (drop (Suc i) xs) (drop (Suc i) ys))"
      using Suc True by (intro Suc.hyps) auto
    show ?thesis using Suc.prems i True nz dx dy IH
      by (subst strcmp_from.simps) (auto simp: cs_is_def)
  next
    case False
    then show ?thesis using Suc.prems i nz dx
      by (subst strcmp_from.simps) (auto simp: cs_is_def)
  qed
qed

lemma uld_strcmp_bytes:
  "cs_is m s xs \<Longrightarrow> cs_is m t ys \<Longrightarrow> uld_strcmp m s t = Some (strcmp_bytes xs ys)"
  unfolding uld_strcmp_def using strcmp_from_drop [of m s xs t ys 0] by simp

lemma uld_strcmp_eq:
  "cs_is m s xs \<Longrightarrow> cs_is m t ys \<Longrightarrow> \<exists>r. uld_strcmp m s t = Some r \<and> (r = 0 \<longleftrightarrow> xs = ys)"
  by (simp add: uld_strcmp_bytes strcmp_bytes_eq_0 cs_is_def)

text \<open>One terminated argument is enough for the loop to end.\<close>

lemma strcmp_from_ends1:
  assumes "cs_byte m s k = 0" "i \<le> k"
  shows "\<exists>r. strcmp_from m s t i = Some r"
  using assms
proof (induction "k - i" arbitrary: i)
  case 0
  then show ?case by (subst strcmp_from.simps) auto
next
  case (Suc n)
  then have "\<exists>r. strcmp_from m s t (Suc i) = Some r" by (intro Suc.hyps) auto
  then show ?case by (subst strcmp_from.simps) auto
qed

lemma strcmp_from_ends2:
  assumes "cs_byte m t k = 0" "i \<le> k"
  shows "\<exists>r. strcmp_from m s t i = Some r"
  using assms
proof (induction "k - i" arbitrary: i)
  case 0
  then show ?case by (subst strcmp_from.simps) auto
next
  case (Suc n)
  then have "\<exists>r. strcmp_from m s t (Suc i) = Some r" by (intro Suc.hyps) auto
  then show ?case by (subst strcmp_from.simps) auto
qed

lemma uld_strcmp_Lit1: "\<exists>r. uld_strcmp m (Lit bs) t = Some r"
  unfolding uld_strcmp_def by (rule strcmp_from_ends1 [of _ _ "length bs"]) (auto simp: cs_byte_def)

lemma uld_strcmp_Lit2: "\<exists>r. uld_strcmp m s (Lit bs) = Some r"
  unfolding uld_strcmp_def by (rule strcmp_from_ends2 [of _ _ "length bs"]) (auto simp: cs_byte_def)

lemma strlen_from_eq:
  assumes "cs_is m (Ptr s) bs"
  shows "strlen_from m s n = Some (n + length bs)"
  using assms
proof (induction bs arbitrary: s n)
  case Nil
  then show ?case by (subst strlen_from.simps) (simp add: cs_is_def)
next
  case (Cons b bs)
  have "m s = b" using Cons.prems by (auto simp: cs_is_def dest: spec [of _ 0])
  moreover have "cs_is m (Ptr (s + 1)) bs"
    using Cons.prems by (fastforce simp: cs_is_def algebra_simps)
  ultimately show ?case
    using Cons by (subst strlen_from.simps) (auto simp: cs_is_def)
qed

lemma uld_strlen_eq: "cs_is m (Ptr s) bs \<Longrightarrow> uld_strlen m s = Some (length bs)"
  by (simp add: uld_strlen_def strlen_from_eq)

lemma uld_strnlen_eq:
  "uld_strnlen m s n = length (takeWhile (\<lambda>b. b \<noteq> 0) (bytes m s n))"
  by (induction m s n rule: uld_strnlen.induct) (auto simp: bytes_Suc, simp add: bytes_def)


lemma cs_is_bytes: "cs_is m (Ptr s) bs \<Longrightarrow> bytes m s (Suc (length bs)) = bs @ [0]"
  by (rule nth_equalityI) (auto simp: cs_is_def nth_append less_Suc_eq)

lemma cs_is_Ptr_Cons:
  "cs_is m (Ptr s) (b # bs) \<longleftrightarrow> b \<noteq> 0 \<and> m s = b \<and> cs_is m (Ptr (s + 1)) bs"
proof
  assume *: "cs_is m (Ptr s) (b # bs)"
  then have "m (s + of_nat (Suc i)) = bs ! i" if "i < length bs" for i
    using that by (auto simp: cs_is_def simp del: of_nat_Suc)
  with * show "b \<noteq> 0 \<and> m s = b \<and> cs_is m (Ptr (s + 1)) bs"
    by (auto simp: cs_is_def algebra_simps dest: spec [of _ 0])
next
  assume "b \<noteq> 0 \<and> m s = b \<and> cs_is m (Ptr (s + 1)) bs"
  then show "cs_is m (Ptr s) (b # bs)"
    by (auto simp: cs_is_def nth_Cons algebra_simps split: nat.split)
qed

lemma cs_is_cong:
  assumes "cs_is m (Ptr s) bs" "\<And>a. a \<in> rng s (Suc (length bs)) \<Longrightarrow> m' a = m a" "length bs < 2 ^ 32"
  shows "cs_is m' (Ptr s) bs"
  using assms by (auto simp: cs_is_def rng_plus)

lemma uld_strcpy_copy_fwd:
  assumes "cs_is m (Ptr s) bs" "rng d (Suc (length bs)) \<inter> rng s (Suc (length bs)) = {}"
    and "length bs < 2 ^ 32"
  shows "uld_strcpy m d s = Some (copy_fwd m d s (Suc (length bs)))"
  using assms
proof (induction bs arbitrary: m d s)
  case Nil
  then show ?case by (subst uld_strcpy.simps) (simp add: cs_is_def)
next
  case (Cons b bs)
  have d: "d \<notin> rng s (Suc (Suc (length bs)))" using Cons.prems(2)
    by (metis disjoint_iff length_Cons rng_self zero_less_Suc)
  have "cs_is (m(d := m s)) (Ptr (s + 1)) bs"
  proof (rule cs_is_cong)
    show "cs_is m (Ptr (s + 1)) bs" using Cons.prems by (simp add: cs_is_Ptr_Cons)
    show "\<And>a. a \<in> rng (s + 1) (Suc (length bs)) \<Longrightarrow> (m(d := m s)) a = m a"
      using d rng_step [of s "Suc (length bs)"] by auto
  qed (use Cons.prems in simp)
  moreover have "rng (d + 1) (Suc (length bs)) \<inter> rng (s + 1) (Suc (length bs)) = {}"
    using Cons.prems(2) rng_step [of s "Suc (length bs)"] rng_step [of d "Suc (length bs)"] by auto
  ultimately have "uld_strcpy (m(d := m s)) (d + 1) (s + 1)
      = Some (copy_fwd (m(d := m s)) (d + 1) (s + 1) (Suc (length bs)))"
    by (rule Cons.IH) (use Cons.prems in simp)
  then show ?case using Cons.prems
    by (subst uld_strcpy.simps) (simp add: cs_is_Ptr_Cons)
qed

lemma uld_strcpy_eq:
  assumes "cs_is m (Ptr s) bs" "rng d (Suc (length bs)) \<inter> rng s (Suc (length bs)) = {}"
    and "length bs < 2 ^ 32"
  shows "uld_strcpy m d s = Some (wr_bytes m d (bs @ [0]))"
proof -
  have "copy_fwd m d s (Suc (length bs)) = moved m d s (Suc (length bs))"
    using assms by (intro copy_fwd_disjoint) auto
  also have "\<dots> = wr_bytes m d (bytes m s (Suc (length bs)))" by (simp add: moved_wr_bytes)
  finally show ?thesis using assms by (simp add: uld_strcpy_copy_fwd cs_is_bytes)
qed

section \<open>Properties\<close>

text \<open>C25 \<open>memmove\<close> copies the block as it was before the call, whichever way the two
  blocks overlap, and changes no byte outside the destination.\<close>

theorem memmove_correct:
  assumes "unat dest + n \<le> 2 ^ 32" "unat src + n \<le> 2 ^ 32"
  shows "bytes (uld_memmove m dest src n) dest n = bytes m src n
    \<and> (\<forall>a. a \<notin> rng dest n \<longrightarrow> uld_memmove m dest src n a = m a)"
proof -
  have "uld_memmove m dest src n = wr_bytes m dest (bytes m src n)"
    using assms by (simp add: uld_memmove_moved moved_wr_bytes)
  then show ?thesis using assms bytes_wr_bytes [of "bytes m src n" m dest]
    by (simp add: wr_bytes_outside)
qed

text \<open>The two blocks of the witness overlap in both directions of copying.\<close>

theorem memmove_correct_witness:
  "bytes (uld_memmove (\<lambda>a. ucast a) 0x102 0x100 4) 0x102 4 = [0, 1, 2, 3]
   \<and> bytes (uld_memmove (\<lambda>a. ucast a) 0x100 0x102 4) 0x100 4 = [2, 3, 4, 5]"
  using memmove_correct [of "0x102" 4 "0x100" "\<lambda>a. ucast a"] memmove_correct [of "0x100" 4 "0x102" "\<lambda>a. ucast a"]
  by (simp add: bytes_def upt_rec)

text \<open>\<open>strcpy\<close> returns and leaves the source string, terminator included, at the
  destination, and changes nothing else, when the two regions are disjoint.\<close>

lemma strcpy_correct:
  assumes "cs_is m (Ptr s) bs" "rng d (Suc (length bs)) \<inter> rng s (Suc (length bs)) = {}"
    and "length bs < 2 ^ 32"
  shows "\<exists>m'. uld_strcpy m d s = Some m' \<and> cs_is m' (Ptr d) bs
    \<and> (\<forall>a. a \<notin> rng d (Suc (length bs)) \<longrightarrow> m' a = m a)"
proof (intro exI conjI)
  show "uld_strcpy m d s = Some (wr_bytes m d (bs @ [0]))" by (rule uld_strcpy_eq [OF assms])
  show "cs_is (wr_bytes m d (bs @ [0])) (Ptr d) bs"
    using assms(1,3) by (auto simp: cs_is_def wr_bytes_at nth_append)
  show "\<forall>a. a \<notin> rng d (Suc (length bs)) \<longrightarrow> wr_bytes m d (bs @ [0]) a = m a"
    by (simp add: wr_bytes_outside)
qed

end
