(* ===== verification/Util.thy ===== *)
theory Util
  imports Libc
begin

text \<open>\<open>src/util.c\<close> and the ALIGN macro of \<open>include/uld_def.h\<close>: CRC-32, number printing, membership in a list of
  strings, alignment.\<close>

definition align_up :: "u32 \<Rightarrow> nat \<Rightarrow> u32" where
  "align_up v bits = (v + (push_bit bits 1 - 1)) AND NOT (push_bit bits 1 - 1)"

definition UTIL_CRC32_POLY :: u32 where "UTIL_CRC32_POLY = 0xEDB88320"
definition UTIL_CRC32_INIT :: u32 where "UTIL_CRC32_INIT = 0"

definition crc32_bit :: "u32 \<Rightarrow> u32" where
  "crc32_bit crc = (if crc AND 1 \<noteq> 0 then drop_bit 1 crc XOR UTIL_CRC32_POLY else drop_bit 1 crc)"

fun crc32_bits :: "nat \<Rightarrow> u32 \<Rightarrow> u32" where
  "crc32_bits 0 crc = crc"
| "crc32_bits (Suc i) crc = crc32_bits i (crc32_bit crc)"

fun crc32_loop :: "mem \<Rightarrow> u32 \<Rightarrow> nat \<Rightarrow> u32 \<Rightarrow> u32" where
  "crc32_loop m p 0 crc = crc"
| "crc32_loop m p (Suc n) crc = crc32_loop m (p + 1) n (crc32_bits 8 (crc XOR ucast (m p)))"

definition crc32 :: "mem \<Rightarrow> u32 \<Rightarrow> nat \<Rightarrow> u32 \<Rightarrow> u32" where
  "crc32 m buf n crc = NOT (crc32_loop m buf n (crc XOR NOT 0))"

lemma crc32_loop_append:
  "crc32_loop m p (a + b) c = crc32_loop m (p + of_nat a) b (crc32_loop m p a c)"
  by (induction m p a c rule: crc32_loop.induct) (auto simp: algebra_simps)

lemma crc32_append: "crc32 m p (a + b) c = crc32 m (p + of_nat a) b (crc32 m p a c)"
  by (simp add: crc32_def crc32_loop_append xor.commute)

lemma crc32_bit_inj: "crc32_bit x = crc32_bit y \<Longrightarrow> x = y"
proof -
  assume eq: "crc32_bit x = crc32_bit y"
  have top: "bit (crc32_bit z) 31 = odd z" for z
    by (auto simp: crc32_bit_def UTIL_CRC32_POLY_def bit_simps and_one_eq odd_iff_mod_2_eq_one
        dest: bit_imp_le_length)
  then have par: "odd x = odd y" using eq by metis
  then have "drop_bit 1 x = drop_bit 1 y"
    using eq by (auto simp: crc32_bit_def and_one_eq odd_iff_mod_2_eq_one split: if_splits)
  then have "bit x (Suc n) = bit y (Suc n)" for n
    by (metis bit_drop_bit_eq add.commute comp_apply plus_1_eq_Suc)
  with par have "bit x n = bit y n" for n
    by (cases n) (auto simp: bit_0)
  then show "x = y" by (simp add: bit_eq_iff)
qed


lemma crc32_bits_inj: "crc32_bits n x = crc32_bits n y \<Longrightarrow> x = y"
  by (induction n arbitrary: x y) (auto dest: crc32_bit_inj)

lemma crc32_loop_inj: "crc32_loop m p n x = crc32_loop m p n y \<Longrightarrow> x = y"
proof (induction n arbitrary: p x y)
  case 0
  then show ?case by simp
next
  case (Suc n)
  then have "crc32_loop m (p + 1) n (crc32_bits 8 (x XOR ucast (m p)))
      = crc32_loop m (p + 1) n (crc32_bits 8 (y XOR ucast (m p)))"
    by (simp only: crc32_loop.simps)
  then have "crc32_bits 8 (x XOR ucast (m p)) = crc32_bits 8 (y XOR ucast (m p))"
    by (rule Suc.IH)
  then have "x XOR ucast (m p) = y XOR ucast (m p)" by (rule crc32_bits_inj)
  then show ?case by simp
qed

lemma crc32_loop_cong:
  "(\<And>a. a \<in> rng p n \<Longrightarrow> m a = m' a) \<Longrightarrow> crc32_loop m p n c = crc32_loop m' p n c"
proof (induction n arbitrary: p c)
  case 0
  then show ?case by simp
next
  case (Suc n)
  then have "m p = m' p" by simp
  then show ?case using Suc rng_step [of p n] by auto
qed

lemma crc32_loop_detects:
  assumes diff: "m a \<noteq> m' a" and same: "\<And>b. b \<in> rng p n \<Longrightarrow> b \<noteq> a \<Longrightarrow> m b = m' b"
    and a: "a \<in> rng p n" and n: "n \<le> 2 ^ 32"
  shows "crc32_loop m p n c \<noteq> crc32_loop m' p n c"
proof -
  define k where "k = unat (a - p)"
  have k: "k < n" using a by (simp add: k_def rng_def)
  have ak: "a = p + of_nat k" by (simp add: k_def)
  have split: "crc32_loop f p n c = crc32_loop f (a + 1) (n - Suc k)
      (crc32_bits 8 (crc32_loop f p k c XOR ucast (f a)))" for f
  proof -
    obtain j where j: "n = k + Suc j" using k by (metis less_imp_Suc_add add_Suc_right)
    show ?thesis using crc32_loop_append [of f p k "Suc j" c] by (simp add: j ak)
  qed
  have pre: "crc32_loop m p k c = crc32_loop m' p k c"
  proof (rule crc32_loop_cong)
    fix b assume b: "b \<in> rng p k"
    then show "m b = m' b" using k by (intro same) (auto simp: rng_def k_def)
  qed
  have post: "crc32_loop m (a + 1) (n - Suc k) x = crc32_loop m' (a + 1) (n - Suc k) x" for x
  proof (rule crc32_loop_cong)
    fix b assume b: "b \<in> rng (a + 1) (n - Suc k)"
    have ne: "b \<noteq> a" using b n by (auto simp: rng_def)
    have "unat (b - p) = unat (b - (a + 1)) + Suc k"
    proof -
      have "b - p = (b - (a + 1)) + of_nat (Suc k)" by (simp add: ak)
      moreover have "unat (b - (a + 1)) + Suc k < 2 ^ 32" using b k n by (simp add: rng_def)
      ultimately show ?thesis by (metis unat_add_of_nat)
    qed
    then show "m b = m' b" using b k ne by (intro same) (auto simp: rng_def)
  qed
  show ?thesis
  proof
    assume "crc32_loop m p n c = crc32_loop m' p n c"
    then have "crc32_loop m p k c XOR ucast (m a) = crc32_loop m p k c XOR ucast (m' a)"
      using split [of m] split [of m'] pre post by (auto dest!: crc32_loop_inj crc32_bits_inj)
    then have "ucast (m a) = (ucast (m' a) :: u32)" by simp
    then show False using diff by simp
  qed
qed


definition hexchar :: "u32 \<Rightarrow> u8" where
  "hexchar t = (map of_char ''0123456789abcdef'' :: u8 list) ! unat t"

fun utohex_loop :: "nat \<Rightarrow> mem \<Rightarrow> u32 \<Rightarrow> u32 \<Rightarrow> int \<Rightarrow> mem \<times> u32 \<times> int" where
  "utohex_loop 0 m s v r = (m, s, r)"
| "utohex_loop (Suc c) m s v r =
     (let t = drop_bit 28 v
      in if t \<noteq> 0 \<or> r \<noteq> 0
         then utohex_loop c (m(s := hexchar t)) (s + 1) (push_bit 4 v) (r + 1)
         else utohex_loop c m s (push_bit 4 v) r)"

definition utohex :: "mem \<Rightarrow> u32 \<Rightarrow> u32 \<Rightarrow> int \<times> mem" where
  "utohex m s v =
     (if s = 0 then (- 1, m)
      else let (m', s', r) = utohex_loop 8 m s v 0 in (r, m'(s' := 0)))"

fun utohex_pad_loop :: "nat \<Rightarrow> int \<Rightarrow> mem \<Rightarrow> u32 \<Rightarrow> u32 \<Rightarrow> int \<Rightarrow> mem \<times> u32 \<times> int" where
  "utohex_pad_loop 0 l m s v r = (m, s, r)"
| "utohex_pad_loop (Suc k) l m s v r =
     (let t = drop_bit 28 v; c = 8 - int k
      in if t \<noteq> 0 \<or> r \<noteq> 0 \<or> 8 - l - c < 0
         then utohex_pad_loop k l (m(s := hexchar t)) (s + 1) (push_bit 4 v) (r + 1)
         else utohex_pad_loop k l m s (push_bit 4 v) r)"

definition utohex_pad :: "mem \<Rightarrow> u32 \<Rightarrow> u32 \<Rightarrow> int \<Rightarrow> int \<times> mem" where
  "utohex_pad m s v l =
     (if s = 0 \<or> l < 0 \<or> l > 8 then (- 1, m)
      else let (m', s', r) = utohex_pad_loop 8 l m s v 0 in (r, m'(s' := 0)))"

fun nibbles :: "nat \<Rightarrow> u32 \<Rightarrow> u32 list" where
  "nibbles 0 v = []"
| "nibbles (Suc k) v = drop_bit 28 v # nibbles k (push_bit 4 v)"

fun strip_zeros :: "nat \<Rightarrow> u32 list \<Rightarrow> u32 list" where
  "strip_zeros l [] = []"
| "strip_zeros l (d # ds) = (if d \<noteq> 0 \<or> length ds < l then d # ds else strip_zeros l ds)"

lemma length_nibbles [simp]: "length (nibbles k v) = k"
  by (induction k v rule: nibbles.induct) auto

lemma utohex_loop_on:
  "0 < r \<Longrightarrow> utohex_loop k m s v r
     = (wr_seq m s (map hexchar (nibbles k v)), s + of_nat k, r + int k)"
  by (induction k m s v r rule: utohex_loop.induct) (auto simp: Let_def)

lemma utohex_loop_eq:
  "utohex_loop k m s v 0 = (let ds = strip_zeros 0 (nibbles k v)
     in (wr_seq m s (map hexchar ds), s + of_nat (length ds), int (length ds)))"
proof (induction k arbitrary: v)
  case 0
  then show ?case by simp
next
  case (Suc k)
  show ?case
    by (cases "drop_bit 28 v = 0") (simp_all add: Suc utohex_loop_on Let_def)
qed

lemma utohex_pad_loop_on:
  "0 < r \<Longrightarrow> utohex_pad_loop k l m s v r
     = (wr_seq m s (map hexchar (nibbles k v)), s + of_nat k, r + int k)"
  by (induction k l m s v r rule: utohex_pad_loop.induct) (auto simp: Let_def)

lemma utohex_pad_loop_eq:
  "0 \<le> l \<Longrightarrow> utohex_pad_loop k l m s v 0 = (let ds = strip_zeros (nat l) (nibbles k v)
     in (wr_seq m s (map hexchar ds), s + of_nat (length ds), int (length ds)))"
proof (induction k arbitrary: v)
  case 0
  then show ?case by simp
next
  case (Suc k)
  have "k < nat l \<longleftrightarrow> 8 - l - (8 - int k) < 0" using Suc.prems by arith
  then show ?case using Suc
    by (cases "drop_bit 28 v \<noteq> 0 \<or> k < nat l") (simp_all add: utohex_pad_loop_on Let_def)
qed

definition hex_value :: "u32 list \<Rightarrow> nat" where
  "hex_value ds = foldl (\<lambda>a d. 16 * a + unat d) 0 ds"

lemma hex_value_strip: "hex_value (strip_zeros l ds) = hex_value ds"
  by (induction ds) (auto simp: hex_value_def)

lemma hex_value_foldl_nibbles:
  "k \<le> 8 \<Longrightarrow> foldl (\<lambda>a d. 16 * a + unat d) a (nibbles k v) = a * 16 ^ k + unat v div 2 ^ (32 - 4 * k)"
proof (induction k arbitrary: a v)
  case 0
  have "unat v < 2 ^ 32" by (rule unat_lt32)
  then show ?case by simp
next
  case (Suc k)
  let ?e = "28 - 4 * k"
  have e: "32 - 4 * Suc k = ?e" "32 - 4 * k = ?e + 4" using Suc.prems by simp_all
  have sh: "unat (push_bit 4 v) = (unat v mod 2 ^ 28) * 16"
    using mult_mod_left [of "unat v" "2 ^ 28" 16]
    by (simp add: push_bit_eq_mult unat_word_ariths)
  have q: "(16 :: nat) ^ k * 2 ^ ?e = 2 ^ 28"
  proof -
    have "(16 :: nat) ^ k = 2 ^ (4 * k)" by (simp add: power_mult)
    then show ?thesis using Suc.prems by (simp flip: power_add)
  qed
  have "(unat v mod 2 ^ 28 * 16) div 2 ^ (?e + 4) = (unat v mod 2 ^ 28) div 2 ^ ?e"
    by (simp add: power_add)
  moreover have "unat v div 2 ^ ?e = (unat v div 2 ^ 28) * 16 ^ k + (unat v mod 2 ^ 28) div 2 ^ ?e"
  proof -
    have "unat v = (unat v div 2 ^ 28 * 16 ^ k) * 2 ^ ?e + unat v mod 2 ^ 28"
      using q by (metis div_mult_mod_eq mult.assoc)
    then show ?thesis by (metis div_mult_self3 add.commute power_not_zero zero_neq_numeral)
  qed
  moreover have "unat (drop_bit 28 v) = unat v div 2 ^ 28"
    by (rule trans [OF unat_drop_bit_eq drop_bit_eq_div])
  ultimately show ?case
    using Suc.prems Suc.IH [of "16 * a + unat (drop_bit 28 v)" "push_bit 4 v"]
    by (simp add: e sh algebra_simps)
qed

lemma hex_value_nibbles: "hex_value (nibbles 8 v) = unat v"
  by (simp add: hex_value_def hex_value_foldl_nibbles)


lemma strip_zeros_props:
  "length (strip_zeros l ds) \<le> length ds"
  "l \<le> length ds \<Longrightarrow> l \<le> length (strip_zeros l ds)"
  "length (strip_zeros l ds) \<le> l \<or> hd (strip_zeros l ds) \<noteq> 0"
proof -
  show "length (strip_zeros l ds) \<le> length ds" by (induction ds) auto
  show "l \<le> length ds \<Longrightarrow> l \<le> length (strip_zeros l ds)" by (induction ds) (auto simp: le_Suc_eq)
  show "length (strip_zeros l ds) \<le> l \<or> hd (strip_zeros l ds) \<noteq> 0" by (induction ds) auto
qed

lemma wr_bytes_snoc_end:
  "length bs < 2 ^ 32 \<Longrightarrow> e = p + of_nat (length bs) \<Longrightarrow> (wr_bytes m p bs)(e := b) = wr_bytes m p (bs @ [b])"
  by (auto simp: wr_bytes_def fun_eq_iff nth_append less_Suc_eq unat_diff_eq_of_nat)

lemma utohex_pad_eq:
  assumes "s \<noteq> 0" "0 \<le> l" "l \<le> 8"
  shows "utohex_pad m s v l = (let ds = strip_zeros (nat l) (nibbles 8 v)
     in (int (length ds), wr_bytes m s (map hexchar ds @ [0])))"
proof -
  have "length (strip_zeros (nat l) (nibbles 8 v)) \<le> 8"
    using strip_zeros_props(1) [of "nat l" "nibbles 8 v"] by simp
  then show ?thesis using assms
    by (simp add: utohex_pad_def utohex_pad_loop_eq Let_def wr_seq_wr_bytes wr_bytes_snoc_end)
qed

lemma utohex_eq:
  assumes "s \<noteq> 0"
  shows "utohex m s v = (let ds = strip_zeros 0 (nibbles 8 v)
     in (int (length ds), wr_bytes m s (map hexchar ds @ [0])))"
proof -
  have "length (strip_zeros 0 (nibbles 8 v)) \<le> 8"
    using strip_zeros_props(1) [of 0 "nibbles 8 v"] by simp
  then show ?thesis using assms
    by (simp add: utohex_def utohex_loop_eq Let_def wr_seq_wr_bytes wr_bytes_snoc_end)
qed

function uitoa_loop :: "mem \<Rightarrow> u32 \<Rightarrow> u32 \<Rightarrow> mem \<times> u32" where
  "uitoa_loop m p v =
     (let t = v div 10; m' = m(p := ucast (v - 10 * t + 48))
      in if t = 0 then (m', p - 1) else uitoa_loop m' (p - 1) t)"
  by pat_completeness auto
termination
  by (relation "measure (\<lambda>(m, p, v). unat v)")
     (auto simp: unat_div unat_eq_zero intro!: div_less_dividend gr0I)

definition uitoa :: "mem \<Rightarrow> u32 \<Rightarrow> u32 \<Rightarrow> bool \<Rightarrow> int \<times> mem" where
  "uitoa m s v is_signed =
     (if s = 0 then (- 1, m)
      else let m0 = m(s + 11 := 0);
               is_neg = (is_signed \<and> sint v < 0);
               v' = (if is_neg then (v XOR 0xffffffff) + 1 else v);
               (m1, p) = uitoa_loop m0 (s + 10) v';
               (m2, p') = (if is_neg then (m1(p := of_char CHR ''-''), p - 1) else (m1, p))
           in (sint (s + 10 - p'), m2))"

fun dec_digits :: "nat \<Rightarrow> nat list" where
  "dec_digits n = (if n < 10 then [n] else dec_digits (n div 10) @ [n mod 10])"

declare uitoa_loop.simps [simp del] dec_digits.simps [simp del]

definition dec_value :: "nat list \<Rightarrow> nat" where
  "dec_value ds = foldl (\<lambda>a d. 10 * a + d) 0 ds"

lemma dec_value_digits: "dec_value (dec_digits n) = n"
proof (induction n rule: dec_digits.induct)
  case (1 n)
  then show ?case
    by (subst dec_digits.simps) (auto simp: dec_value_def)
qed

lemma dec_digits_lt_10: "d \<in> set (dec_digits n) \<Longrightarrow> d < 10"
proof (induction n rule: dec_digits.induct)
  case (1 n)
  then show ?case by (subst (asm) (2) dec_digits.simps) (auto split: if_splits)
qed

lemma length_dec_digits: "n < 10 ^ k \<Longrightarrow> 0 < k \<Longrightarrow> length (dec_digits n) \<le> k"
proof (induction n arbitrary: k rule: dec_digits.induct)
  case (1 n)
  show ?case
  proof (cases "n < 10")
    case True
    then show ?thesis using "1.prems" by (subst dec_digits.simps) simp
  next
    case False
    then have "k \<noteq> 1" using "1.prems" by auto
    with "1.prems" obtain j where k: "k = Suc j" "0 < j" by (cases k) auto
    then have "n div 10 < 10 ^ j" using "1.prems" by (simp add: less_mult_imp_div_less mult.commute)
    with "1.IH" False k show ?thesis by (subst dec_digits.simps) auto
  qed
qed

definition dec_chars :: "nat \<Rightarrow> u8 list" where
  "dec_chars n = map (\<lambda>d. of_nat d + 48) (dec_digits n)"

lemma length_dec_chars [simp]: "length (dec_chars n) = length (dec_digits n)"
  by (simp add: dec_chars_def)

lemma length_dec_digits_u32: "length (dec_digits (unat (v :: u32))) \<le> 10"
  using unat_lt32 [of v] by (intro length_dec_digits) auto

lemma uitoa_digit: "ucast (v - 10 * (v div 10) + 48 :: u32) = (of_nat (unat v mod 10) + 48 :: u8)"
proof -
  define k where "k = unat v mod 10"
  have "v - 10 * (v div 10) = v mod 10" by (rule minus_mult_div_eq_mod)
  also have "\<dots> = of_nat k"
    by (simp add: k_def word_unat_eq_iff unat_mod take_bit_nat_eq_self unat_of_nat)
  finally have "v - 10 * (v div 10) = of_nat k" .
  moreover have "k < 10" by (simp add: k_def)
  then have "k = 0 \<or> k = 1 \<or> k = 2 \<or> k = 3 \<or> k = 4 \<or> k = 5 \<or> k = 6 \<or> k = 7 \<or> k = 8 \<or> k = 9"
    by arith
  ultimately show ?thesis unfolding k_def [symmetric] by (elim disjE) simp_all
qed

lemma uitoa_loop_step:
  "uitoa_loop m p v = (let m' = m(p := of_nat (unat v mod 10) + 48)
     in if v div 10 = 0 then (m', p - 1) else uitoa_loop m' (p - 1) (v div 10))"
  by (subst uitoa_loop.simps) (simp only: Let_def uitoa_digit)

lemma dec_chars_step:
  "dec_chars n = (if n < 10 then [of_nat n + 48] else dec_chars (n div 10) @ [of_nat (n mod 10) + 48])"
  by (simp add: dec_chars_def dec_digits.simps [of n])

lemma uitoa_loop_eq:
  "uitoa_loop m p v = (let bs = dec_chars (unat v)
     in (wr_bytes m (p + 1 - of_nat (length bs)) bs, p - of_nat (length bs)))"
proof (induction "unat v" arbitrary: m p v rule: less_induct)
  case less
  let ?b = "of_nat (unat v mod 10) + 48 :: u8"
  have one: "wr_bytes m' p [b] = m'(p := b)" for m' b
    by (simp add: wr_bytes_def fun_eq_iff)
  have d10: "unat (v div 10) = unat v div 10" by (simp add: unat_div)
  show ?case
  proof (cases "unat v < 10")
    case True
    then have "v div 10 = 0" by (simp add: word_unat_eq_iff d10)
    then show ?thesis using True one
      by (subst uitoa_loop_step) (simp add: dec_chars_step [of "unat v"] Let_def)
  next
    case False
    define bs where "bs = dec_chars (unat v div 10)"
    have nz: "v div 10 \<noteq> 0" using False d10 by (metis unsigned_0 div_eq_0_iff zero_neq_numeral)
    have L: "length bs < 2 ^ 32"
      using length_dec_digits_u32 [of "v div 10"] by (simp add: bs_def d10)
    have chars: "dec_chars (unat v) = bs @ [?b]"
      using False by (simp add: dec_chars_step [of "unat v"] bs_def)
    have IH: "uitoa_loop (m(p := ?b)) (p - 1) (v div 10)
        = (wr_bytes (m(p := ?b)) (p - of_nat (length bs)) bs, p - 1 - of_nat (length bs))"
      using less [of "v div 10" "m(p := ?b)" "p - 1"] False by (simp add: d10 bs_def Let_def)
    have "wr_bytes (m(p := ?b)) (p - of_nat (length bs)) bs = wr_bytes m (p - of_nat (length bs)) (bs @ [?b])"
      using wr_bytes_snoc [OF L, of m "p - of_nat (length bs)" ?b] by simp
    then show ?thesis using IH nz
      by (subst uitoa_loop_step) (simp add: chars Let_def algebra_simps)
  qed
qed

lemma word_neg_bits: "(v XOR 0xffffffff) + 1 = - (v :: u32)"
proof -
  have "(0xffffffff :: u32) = - 1" by simp
  moreover have "v XOR - 1 = NOT v" by (rule bit_word_eqI) (auto simp: bit_simps)
  ultimately have "v XOR 0xffffffff = NOT v" by metis
  then show ?thesis by (simp add: minus_eq_not_plus_1)
qed

definition uitoa_str :: "u32 \<Rightarrow> bool \<Rightarrow> u8 list" where
  "uitoa_str v is_signed =
     (if is_signed \<and> sint v < 0 then of_char CHR ''-'' # dec_chars (unat (- v)) else dec_chars (unat v))"

lemma length_uitoa_str: "length (uitoa_str v is_signed) \<le> 11"
  using length_dec_digits_u32 [of v] length_dec_digits_u32 [of "- v"]
  by (simp add: uitoa_str_def)

lemma uitoa_eq:
  assumes "s \<noteq> 0"
  shows "uitoa m s v is_signed = (let str = uitoa_str v is_signed
     in (int (length str), wr_bytes m (s + 11 - of_nat (length str)) (str @ [0])))"
proof -
  define neg where "neg = (is_signed \<and> sint v < 0)"
  define v' where "v' = (if neg then - v else v)"
  define bs where "bs = dec_chars (unat v')"
  have lbs: "length bs \<le> 10" by (simp add: bs_def length_dec_digits_u32)
  have low: "wr_bytes (m(s + 11 := 0)) q str = wr_bytes m q (str @ [0])"
    if "length str < 2 ^ 32" "q + of_nat (length str) = s + 11" for q str
    using wr_bytes_snoc [OF that(1), of m q 0] that(2) by simp
  have core: "uitoa_loop (m(s + 11 := 0)) (s + 10) v'
      = (wr_bytes m (s + 11 - of_nat (length bs)) (bs @ [0]), s + 10 - of_nat (length bs))"
    using lbs by (simp add: uitoa_loop_eq Let_def low algebra_simps flip: bs_def)
  have sl: "sint (of_nat k :: u32) = int k" if "k \<le> 11" for k
    using that by (simp add: signed_of_nat signed_take_bit_int_eq_self)
  show ?thesis
  proof (cases neg)
    case True
    then have v': "v' = (v XOR 0xffffffff) + 1" by (simp add: v'_def word_neg_bits)
    have str: "uitoa_str v is_signed = of_char CHR ''-'' # bs"
      using True by (simp add: uitoa_str_def bs_def v'_def neg_def)
    have "(wr_bytes m (s + 10 - of_nat (length bs) + 1) (bs @ [0]))(s + 10 - of_nat (length bs) := of_char CHR ''-'')
        = wr_bytes m (s + 10 - of_nat (length bs)) (of_char CHR ''-'' # bs @ [0])"
      using lbs by (intro wr_bytes_prepend) simp
    moreover have "s + 10 - of_nat (length bs) + 1 = s + 11 - of_nat (length bs)" by simp
    ultimately have "uitoa m s v is_signed = (sint (of_nat (length bs + 1) :: u32),
        wr_bytes m (s + 10 - of_nat (length bs)) (of_char CHR ''-'' # bs @ [0]))"
      using assms True core [unfolded v'] by (simp add: uitoa_def Let_def flip: neg_def)
    moreover have "s + 11 - of_nat (Suc (length bs)) = s + 10 - of_nat (length bs)" by simp
    ultimately show ?thesis using lbs sl [of "length bs + 1"]
      by (simp add: str Let_def algebra_simps)
  next
    case False
    have str: "uitoa_str v is_signed = bs"
      using False unfolding uitoa_str_def bs_def v'_def neg_def by (simp only: if_False)
    have "uitoa m s v is_signed = (sint (of_nat (length bs) :: u32),
        wr_bytes m (s + 11 - of_nat (length bs)) (bs @ [0]))"
      using assms False core by (simp add: uitoa_def Let_def v'_def flip: neg_def)
    then show ?thesis using lbs sl [of "length bs"] by (simp add: str Let_def)
  qed
qed

definition stprcpy :: "mem \<Rightarrow> u32 \<Rightarrow> u32 \<Rightarrow> (u32 \<times> mem) option" where
  "stprcpy m dest src = do {
     l \<leftarrow> uld_strlen m src;
     let dest' = dest - of_nat l;
     Some (dest', uld_memmove m dest' src (l + 1)) }"

fun get_str_idx_loop :: "mem \<Rightarrow> cstr list \<Rightarrow> int \<Rightarrow> cstr \<Rightarrow> int option" where
  "get_str_idx_loop m [] i s = Some (- 1)"
| "get_str_idx_loop m (x # l) i s = do {
     r \<leftarrow> uld_strcmp m x s;
     if r = 0 then Some i else get_str_idx_loop m l (i + 1) s }"

definition get_str_idx_in_list :: "mem \<Rightarrow> cstr list \<Rightarrow> cstr \<Rightarrow> int option" where
  "get_str_idx_in_list m l s = get_str_idx_loop m l 0 s"

definition str_in_list :: "mem \<Rightarrow> cstr list \<Rightarrow> cstr \<Rightarrow> bool option" where
  "str_in_list m l s = do { i \<leftarrow> get_str_idx_in_list m l s; Some (\<not> i < 0) }"

lemma get_str_idx_loop_eq:
  assumes "\<forall>x\<in>set xs. 0 \<notin> set x" "cs_is m s bs"
  shows "get_str_idx_loop m (map Lit xs) k s
     = Some (case first_idx (\<lambda>x. x = bs) xs of None \<Rightarrow> - 1 | Some i \<Rightarrow> k + int i)"
  using assms
proof (induction xs arbitrary: k)
  case Nil
  then show ?case by simp
next
  case (Cons x xs)
  then have "uld_strcmp m (Lit x) s = Some (strcmp_bytes x bs)"
    by (intro uld_strcmp_bytes) auto
  then show ?case using Cons
    by (auto simp: strcmp_bytes_eq_0 cs_is_def split: option.split)
qed

lemma str_in_list_eq:
  assumes "\<forall>x\<in>set xs. 0 \<notin> set x" "cs_is m s bs"
  shows "str_in_list m (map Lit xs) s = Some (bs \<in> set xs)"
proof (cases "first_idx (\<lambda>x. x = bs) xs")
  case None
  moreover from this have "bs \<notin> set xs" by (auto simp: first_idx_None_iff)
  ultimately show ?thesis using assms
    by (auto simp: str_in_list_def get_str_idx_in_list_def get_str_idx_loop_eq)
next
  case (Some i)
  moreover from this have "bs \<in> set xs" by (auto simp: first_idx_Some_iff)
  ultimately show ?thesis using assms
    by (auto simp: str_in_list_def get_str_idx_in_list_def get_str_idx_loop_eq)
qed

lemma get_str_idx_loop_total: "\<exists>r. get_str_idx_loop m (map Lit xs) k s = Some r"
proof (induction xs arbitrary: k)
  case Nil
  then show ?case by simp
next
  case (Cons x xs)
  obtain r where "uld_strcmp m (Lit x) s = Some r" using uld_strcmp_Lit1 by blast
  then show ?case using Cons by simp
qed

lemma str_in_list_total: "\<exists>b. str_in_list m (map Lit xs) s = Some b"
  using get_str_idx_loop_total [of m xs 0 s]
  by (auto simp: str_in_list_def get_str_idx_in_list_def)

text \<open>Alignment.\<close>

lemma align_up_3: "align_up v 3 = (v + 7) AND NOT 7" and align_up_2: "align_up v 2 = (v + 3) AND NOT 3"
  by (simp_all add: align_up_def push_bit_eq_mult)

lemma unat_pow2: "b < 32 \<Longrightarrow> unat (2 ^ b :: u32) = 2 ^ b"
proof -
  assume "b < 32"
  then have "(2 :: nat) ^ b < 2 ^ 32" by (intro power_strict_increasing) auto
  then show ?thesis using unat_of_nat32 [of "2 ^ b"] by simp
qed

lemma unat_and_not_mask:
  assumes "b < 32"
  shows "unat (w AND NOT (mask b) :: u32) = unat w div 2 ^ b * 2 ^ b"
proof -
  have "w AND NOT (mask b) = push_bit b (drop_bit b w)"
    by (rule bit_word_eqI) (auto simp: bit_simps)
  moreover have "unat (push_bit b (drop_bit b w)) = unat w div 2 ^ b * 2 ^ b"
  proof -
    have "unat w div 2 ^ b * 2 ^ b < 2 ^ 32"
      using unat_lt32 [of w] by (metis div_times_less_eq_dividend le_less_trans)
    moreover have "unat w div 2 ^ b < 2 ^ 32"
      using unat_lt32 [of w] by (metis div_le_dividend le_less_trans)
    ultimately show ?thesis using assms
      by (simp add: push_bit_eq_mult drop_bit_eq_div unat_word_ariths unat_div unat_pow2)
  qed
  ultimately show ?thesis by simp
qed

lemma unat_align_up:
  assumes "unat v + 2 ^ b \<le> 2 ^ 32" "b < 32"
  shows "unat (align_up v b) = (unat v + (2 ^ b - 1)) div 2 ^ b * 2 ^ b"
proof -
  have m: "push_bit b 1 - 1 = (mask b :: u32)" by (simp add: mask_eq_exp_minus_1 push_bit_eq_mult)
  have "(1 :: nat) \<le> 2 ^ b" by simp
  then have "unat v + (2 ^ b - 1) < 2 ^ 32" using assms(1) by linarith
  moreover have "(mask b :: u32) = of_nat (2 ^ b - 1)"
    by (simp add: mask_eq_exp_minus_1 of_nat_diff)
  ultimately have "unat (v + mask b) = unat v + (2 ^ b - 1)"
    by (simp only: unat_add_of_nat)
  then show ?thesis by (simp only: align_up_def m unat_and_not_mask [OF assms(2)])
qed

lemma align_up_bounds:
  assumes "unat v + 2 ^ b \<le> 2 ^ 32" "b < 32"
  shows "unat v \<le> unat (align_up v b)" "unat (align_up v b) < unat v + 2 ^ b"
    "2 ^ b dvd unat (align_up v b)"
proof -
  let ?k = "(2 :: nat) ^ b"
  let ?x = "unat v + (?k - 1)"
  have "?x = ?x div ?k * ?k + ?x mod ?k" by (rule div_mult_mod_eq [symmetric])
  moreover have "?x mod ?k < ?k" by simp
  ultimately show "unat v \<le> unat (align_up v b)" "unat (align_up v b) < unat v + 2 ^ b"
    unfolding unat_align_up [OF assms] by linarith+
  show "2 ^ b dvd unat (align_up v b)" by (simp add: unat_align_up [OF assms])
qed

lemma align_up_room: "\<exists>k\<le>3. align_up v 2 = v + of_nat k"
proof -
  let ?w = "v + 3"
  define r j where "r = align_up v 2" and "j = unat ?w mod 4"
  have j: "j \<le> 3" by (simp add: j_def)
  have "(mask 2 :: u32) = 3" by (simp add: mask_eq_exp_minus_1)
  then have "unat r = unat ?w div 4 * 4"
    using unat_and_not_mask [of 2 ?w] by (simp add: r_def align_up_2)
  then have "unat ?w = unat r + j" by (simp add: j_def)
  then have "?w = of_nat (unat r + j)" by (metis word_unat_eq_iff unat_lt32 unat_of_nat32)
  then have "v = r + of_nat j - 3" by (simp add: algebra_simps)
  moreover have "(of_nat (3 - j) :: u32) = 3 - of_nat j" using j by (simp add: of_nat_diff)
  ultimately have "r = v + of_nat (3 - j)" by simp
  then show ?thesis by (intro exI [of _ "3 - j"]) (simp add: r_def)
qed

section \<open>Properties\<close>

text \<open>The checksum of a buffer is the checksum of its tail started from the checksum
  of its head: a file may be checked in pieces.\<close>

theorem crc32_chunks: "crc32 m p (a + b) c = crc32 m (p + of_nat a) b (crc32 m p a c)"
  by (rule crc32_append)

text \<open>C31 Two buffers of the same length that differ in exactly one byte have
  different checksums.\<close>

theorem crc32_detects_byte:
  assumes "m a \<noteq> m' a" "\<forall>b\<in>rng p n. b \<noteq> a \<longrightarrow> m b = m' b" "a \<in> rng p n" "n \<le> 2 ^ 32"
  shows "crc32 m p n c \<noteq> crc32 m' p n c"
  using crc32_loop_detects [of m a m' p n] assms by (simp add: crc32_def)

theorem crc32_detects_byte_witness:
  "crc32 (\<lambda>a. 0) 0x8000 16 UTIL_CRC32_INIT \<noteq> crc32 ((\<lambda>a. 0)(0x8003 := 1)) 0x8000 16 UTIL_CRC32_INIT"
  proof -
  have "(\<lambda>a. 0 :: u8) 0x8003 \<noteq> ((\<lambda>a. 0)(0x8003 := 1)) 0x8003" by simp
  moreover have "0x8003 \<in> rng 0x8000 16" by (simp add: rng_def)
  ultimately show ?thesis by (intro crc32_detects_byte [of _ "0x8003"]) auto
qed

text \<open>C33 \<open>utohex_pad\<close> writes a terminated string of hexadecimal digits, at least
  \<open>l\<close> and at most 8 of them, no leading zero beyond the padding, and reading the digits back gives the
  number; it touches no byte outside the string.\<close>

theorem utohex_pad_roundtrip:
  assumes "s \<noteq> 0" "0 \<le> l" "l \<le> 8"
  shows "\<exists>ds m'. utohex_pad m s v l = (int (length ds), m')
    \<and> bytes m' s (length ds + 1) = map hexchar ds @ [0]
    \<and> hex_value ds = unat v \<and> l \<le> int (length ds) \<and> length ds \<le> 8
    \<and> (int (length ds) \<le> l \<or> hd ds \<noteq> 0)
    \<and> (\<forall>a. a \<notin> rng s (length ds + 1) \<longrightarrow> m' a = m a)"
proof -
  define ds where "ds = strip_zeros (nat l) (nibbles 8 v)"
  have len: "length ds \<le> 8" "nat l \<le> length ds" "length ds \<le> nat l \<or> hd ds \<noteq> 0"
    using strip_zeros_props [of "nat l" "nibbles 8 v"] assms by (simp_all add: ds_def)
  have "hex_value ds = unat v" by (simp add: ds_def hex_value_strip hex_value_nibbles)
  moreover have "utohex_pad m s v l = (int (length ds), wr_bytes m s (map hexchar ds @ [0]))"
    using assms by (simp add: utohex_pad_eq ds_def Let_def)
  moreover have "bytes (wr_bytes m s (map hexchar ds @ [0])) s (length ds + 1) = map hexchar ds @ [0]"
    using bytes_wr_bytes [of "map hexchar ds @ [0]" m s] len(1) by simp
  ultimately show ?thesis using len assms
    by (intro exI [of _ ds] exI [of _ "wr_bytes m s (map hexchar ds @ [0])"])
       (auto simp: wr_bytes_outside le_nat_iff nat_le_iff)
qed

theorem utohex_pad_roundtrip_witness:
  "\<exists>ds. fst (utohex_pad (\<lambda>_. 0) 0x100 0xab 4) = int (length ds) \<and> hex_value ds = 171 \<and> 4 \<le> length ds"
proof -
  obtain ds m' where "utohex_pad (\<lambda>_. 0) 0x100 0xab 4 = (int (length ds), m')" "hex_value ds = unat (0xab :: u32)"
    "4 \<le> int (length ds)"
    using utohex_pad_roundtrip [of "0x100" 4 "\<lambda>_. 0" "0xab"] by force
  then show ?thesis by (intro exI [of _ ds]) simp
qed

text \<open>C32 \<open>uitoa\<close> right-justifies the decimal digits of the number, with a minus
  sign when it is signed and negative, against the terminator at \<open>s + 11\<close>: the string never leaves the
  12-byte buffer and its digits have the number's absolute value.\<close>

theorem uitoa_roundtrip:
  assumes "s \<noteq> 0"
  shows "\<exists>str ds m'. uitoa m s v is_signed = (int (length str), m')
    \<and> bytes m' (s + 11 - of_nat (length str)) (length str + 1) = str @ [0]
    \<and> str = (if is_signed \<and> sint v < 0 then [of_char CHR ''-''] else []) @ map (\<lambda>d. of_nat d + 48) ds
    \<and> (\<forall>d\<in>set ds. d < 10)
    \<and> int (dec_value ds) = (if is_signed then abs (sint v) else uint v)
    \<and> length str \<le> 11
    \<and> (\<forall>a. a \<notin> rng s 12 \<longrightarrow> m' a = m a)"
proof -
  define neg where "neg = (is_signed \<and> sint v < 0)"
  define w where "w = (if neg then - v else v)"
  define ds where "ds = dec_digits (unat w)"
  define str where "str = uitoa_str v is_signed"
  define p where "p = s + 11 - of_nat (length str)"
  have str: "str = (if neg then [of_char CHR ''-''] else []) @ map (\<lambda>d. of_nat d + 48) ds"
    by (simp add: str_def uitoa_str_def ds_def w_def neg_def dec_chars_def)
  have len: "length str \<le> 11" by (simp add: str_def length_uitoa_str)
  have val: "int (unat w) = (if is_signed then abs (sint v) else uint v)"
  proof (cases neg)
    case True
    then have n: "sint v = int (unat v) - 4294967296" "2147483648 \<le> unat v"
      using sint_cases [of v] by (auto simp: neg_def split: if_splits)
    have "v \<noteq> 0" using n(2) by auto
    then have "unat w = 4294967296 - unat v" using True by (simp add: w_def unat_neg32)
    then have "int (unat w) = - sint v" using n unat_lt32 [of v, simplified] by linarith
    moreover have "is_signed" "sint v < 0" using True by (simp_all add: neg_def)
    ultimately show ?thesis by simp
  next
    case False
    then have w: "w = v" "\<not> is_signed \<or> 0 \<le> sint v" by (auto simp: w_def neg_def)
    moreover have "sint v = int (unat v)" if "0 \<le> sint v"
      using that sint_cases [of v] unat_lt32 [of v] by (simp split: if_split_asm)
    ultimately show ?thesis by auto
  qed
  have "a \<notin> rng p (length (str @ [0]))" if a: "a \<notin> rng s 12" for a
  proof -
    have "rng p (length (str @ [0])) \<subseteq> rng s 12"
    proof
      fix b assume "b \<in> rng p (length (str @ [0]))"
      then have b: "unat (b - p) \<le> length str" by (simp add: rng_def)
      have "b - s = of_nat (11 - length str) + (b - p)"
        using len by (simp add: p_def of_nat_diff algebra_simps)
      then have "unat (b - s) \<le> unat (of_nat (11 - length str) :: u32) + unat (b - p)"
        by (simp only: unat_add_le)
      also have "unat (of_nat (11 - length str) :: u32) = 11 - length str"
        by (rule unat_of_nat32) simp
      finally show "b \<in> rng s 12" using b len by (simp add: rng_def)
    qed
    then show ?thesis using a by blast
  qed
  then have out: "\<forall>a. a \<notin> rng s 12 \<longrightarrow> wr_bytes m p (str @ [0]) a = m a"
    by (metis wr_bytes_outside)
  have "uitoa m s v is_signed = (int (length str), wr_bytes m p (str @ [0]))"
    using assms by (simp add: uitoa_eq Let_def str_def p_def)
  moreover have "bytes (wr_bytes m p (str @ [0])) p (length str + 1) = str @ [0]"
    using bytes_wr_bytes [of "str @ [0]" m p] len by simp
  moreover have "\<forall>d\<in>set ds. d < 10" by (simp add: ds_def dec_digits_lt_10)
  moreover have "dec_value ds = unat w" by (simp add: ds_def dec_value_digits)
  ultimately show ?thesis using str len val out unfolding neg_def p_def
    by (intro exI [of _ str] exI [of _ ds] exI [of _ "wr_bytes m p (str @ [0])"] conjI)
       (simp_all only: p_def)
qed

theorem uitoa_roundtrip_witness:
  "\<exists>str ds. fst (uitoa (\<lambda>_. 0) 0x100 0xffffffd6 True) = int (length str) \<and> str = (45 :: u8) # map (\<lambda>d. of_nat d + 48) ds
    \<and> dec_value ds = 42"
proof -
  have neg: "sint (0xffffffd6 :: u32) = - 42" by (simp add: sint_cases)
  obtain str ds m' where "uitoa (\<lambda>_. 0) 0x100 0xffffffd6 True = (int (length str), m')"
    "(str :: u8 list) = (if True \<and> sint (0xffffffd6 :: u32) < 0 then [of_char CHR ''-''] else []) @ map (\<lambda>d. of_nat d + 48) ds"
    "int (dec_value ds) = (if True then abs (sint (0xffffffd6 :: u32)) else uint (0xffffffd6 :: u32))"
    using uitoa_roundtrip [of "0x100" "\<lambda>_. 0" "0xffffffd6" True] by force
  then show ?thesis unfolding neg by (intro exI [of _ str] exI [of _ ds]) simp
qed

end
