(* ===== verification/Elf.thy ===== *)
theory Elf
  imports Util
begin

text \<open>The ELF structures of \<open>include/elf.h\<close>, read from memory, its loop macros and the queries of \<open>src/elf.c\<close>.\<close>

definition ET_EXEC :: u16 where "ET_EXEC = 2"
definition SHT_PROGBITS :: u32 where "SHT_PROGBITS = 1"
definition SHT_STRTAB :: u32 where "SHT_STRTAB = 3"
definition SHT_RELA :: u32 where "SHT_RELA = 4"
definition SHT_HASH :: u32 where "SHT_HASH = 5"
definition SHT_DYNAMIC :: u32 where "SHT_DYNAMIC = 6"
definition SHT_NOBITS :: u32 where "SHT_NOBITS = 8"
definition SHT_REL :: u32 where "SHT_REL = 9"
definition SHT_DYNSYM :: u32 where "SHT_DYNSYM = 11"
definition SHT_INIT_ARRAY :: u32 where "SHT_INIT_ARRAY = 14"
definition SHT_FINI_ARRAY :: u32 where "SHT_FINI_ARRAY = 15"
definition SHT_PREINIT_ARRAY :: u32 where "SHT_PREINIT_ARRAY = 16"
definition SHF_ALLOC :: u32 where "SHF_ALLOC = 2"
definition PT_LOAD :: u32 where "PT_LOAD = 1"
definition ELF_SEC_HAS_NO_SEGMENT :: int where "ELF_SEC_HAS_NO_SEGMENT = - 1"

lemmas elf_consts = ET_EXEC_def SHT_PROGBITS_def SHT_STRTAB_def SHT_RELA_def SHT_HASH_def
  SHT_DYNAMIC_def SHT_NOBITS_def SHT_REL_def SHT_DYNSYM_def SHT_INIT_ARRAY_def
  SHT_FINI_ARRAY_def SHT_PREINIT_ARRAY_def SHF_ALLOC_def PT_LOAD_def ELF_SEC_HAS_NO_SEGMENT_def

record elf32_ehdr =
  e_type :: u16
  e_machine :: u16
  e_version :: u32
  e_entry :: u32
  e_phoff :: u32
  e_shoff :: u32
  e_flags :: u32
  e_ehsize :: u16
  e_phentsize :: u16
  e_phnum :: u16
  e_shentsize :: u16
  e_shnum :: u16
  e_shstrndx :: u16

definition ehdr_at :: "mem \<Rightarrow> u32 \<Rightarrow> elf32_ehdr" where
  "ehdr_at m p = \<lparr>e_type = ld16 m (p + 16), e_machine = ld16 m (p + 18),
     e_version = ld32 m (p + 20), e_entry = ld32 m (p + 24), e_phoff = ld32 m (p + 28),
     e_shoff = ld32 m (p + 32), e_flags = ld32 m (p + 36), e_ehsize = ld16 m (p + 40),
     e_phentsize = ld16 m (p + 42), e_phnum = ld16 m (p + 44), e_shentsize = ld16 m (p + 46),
     e_shnum = ld16 m (p + 48), e_shstrndx = ld16 m (p + 50)\<rparr>"

record elf32_shdr =
  sh_name :: u32
  sh_type :: u32
  sh_flags :: u32
  sh_addr :: u32
  sh_offset :: u32
  sh_size :: u32
  sh_link :: u32
  sh_info :: u32
  sh_addralign :: u32
  sh_entsize :: u32

definition shdr_at :: "mem \<Rightarrow> u32 \<Rightarrow> elf32_shdr" where
  "shdr_at m p = \<lparr>sh_name = ld32 m p, sh_type = ld32 m (p + 4), sh_flags = ld32 m (p + 8),
     sh_addr = ld32 m (p + 12), sh_offset = ld32 m (p + 16), sh_size = ld32 m (p + 20),
     sh_link = ld32 m (p + 24), sh_info = ld32 m (p + 28), sh_addralign = ld32 m (p + 32),
     sh_entsize = ld32 m (p + 36)\<rparr>"

record elf32_phdr =
  p_type :: u32
  p_offset :: u32
  p_vaddr :: u32
  p_paddr :: u32
  p_filesz :: u32
  p_memsz :: u32
  p_flags :: u32
  p_align :: u32

definition phdr_at :: "mem \<Rightarrow> u32 \<Rightarrow> elf32_phdr" where
  "phdr_at m p = \<lparr>p_type = ld32 m p, p_offset = ld32 m (p + 4), p_vaddr = ld32 m (p + 8),
     p_paddr = ld32 m (p + 12), p_filesz = ld32 m (p + 16), p_memsz = ld32 m (p + 20),
     p_flags = ld32 m (p + 24), p_align = ld32 m (p + 28)\<rparr>"

definition img_base :: "u32 \<Rightarrow> u32 \<Rightarrow> u32" where
  "img_base ehdr base = (if base \<noteq> 0 then base else ehdr)"

definition elf32_get_segment_by_index :: "mem \<Rightarrow> u32 \<Rightarrow> u32 \<Rightarrow> int \<Rightarrow> u32" where
  "elf32_get_segment_by_index m ehdr base index =
     (let eh = ehdr_at m ehdr
      in if ehdr = 0 \<or> index \<ge> uint (e_phnum eh) \<or> index < 0 then 0
         else let p = (if base \<noteq> 0 then base else ehdr)
              in p + (e_phoff eh + ucast (e_phentsize eh) * word_of_int index))"

definition elf32_get_section_by_index :: "mem \<Rightarrow> u32 \<Rightarrow> u32 \<Rightarrow> int \<Rightarrow> u32" where
  "elf32_get_section_by_index m ehdr base index =
     (let eh = ehdr_at m ehdr
      in if ehdr = 0 \<or> index \<ge> uint (e_shnum eh) \<or> index < 0 then 0
         else let p = (if base \<noteq> 0 then base else ehdr)
              in p + (e_shoff eh + ucast (e_shentsize eh) * word_of_int index))"

fun elf32_iter :: "u32 \<Rightarrow> u32 \<Rightarrow> nat \<Rightarrow> nat \<Rightarrow> (nat \<times> u32) list" where
  "elf32_iter pos ent idx 0 = []"
| "elf32_iter pos ent idx (Suc n) = (idx, pos) # elf32_iter (pos + ent) ent (Suc idx) n"

definition elf32_for_each_phdr_base :: "mem \<Rightarrow> u32 \<Rightarrow> u32 \<Rightarrow> (nat \<times> u32) list" where
  "elf32_for_each_phdr_base m ehdr base =
     elf32_iter (elf32_get_segment_by_index m ehdr base 0) (ucast (e_phentsize (ehdr_at m ehdr))) 0
       (unat (e_phnum (ehdr_at m ehdr)))"

definition elf32_for_each_phdr :: "mem \<Rightarrow> u32 \<Rightarrow> (nat \<times> u32) list" where
  "elf32_for_each_phdr m ehdr = elf32_for_each_phdr_base m ehdr 0"

definition elf32_for_each_shdr_base :: "mem \<Rightarrow> u32 \<Rightarrow> u32 \<Rightarrow> (nat \<times> u32) list" where
  "elf32_for_each_shdr_base m ehdr base =
     elf32_iter (elf32_get_section_by_index m ehdr base 1) (ucast (e_shentsize (ehdr_at m ehdr))) 1
       (unat (e_shnum (ehdr_at m ehdr)) - 1)"

definition elf32_for_each_shdr :: "mem \<Rightarrow> u32 \<Rightarrow> (nat \<times> u32) list" where
  "elf32_for_each_shdr m ehdr = elf32_for_each_shdr_base m ehdr 0"

definition elf32_get_section_by_vma :: "mem \<Rightarrow> u32 \<Rightarrow> u32 \<Rightarrow> u32 \<Rightarrow> u32" where
  "elf32_get_section_by_vma m ehdr base vma =
     (if ehdr = 0 then 0
      else case List.find (\<lambda>(idx, shdr). vma \<ge> sh_addr (shdr_at m shdr) \<and>
                  vma < sh_addr (shdr_at m shdr) + sh_size (shdr_at m shdr))
                (elf32_for_each_shdr_base m ehdr base)
           of Some (idx, shdr) \<Rightarrow> shdr | None \<Rightarrow> 0)"

definition elf32_get_shidx_by_section :: "mem \<Rightarrow> u32 \<Rightarrow> u32 \<Rightarrow> u32 \<Rightarrow> int" where
  "elf32_get_shidx_by_section m ehdr base shdr =
     (if ehdr = 0 \<or> shdr = 0 then - 1
      else let p = (if base \<noteq> 0 then base else ehdr)
           in sint (shdr - p - e_shoff (ehdr_at m ehdr)) sdiv uint (e_shentsize (ehdr_at m ehdr)))"

definition elf32_get_section_offset :: "mem \<Rightarrow> u32 \<Rightarrow> u32" where
  "elf32_get_section_offset m shdr = (if shdr \<noteq> 0 then sh_offset (shdr_at m shdr) else 0)"

definition elf32_get_section_flash_addr :: "mem \<Rightarrow> u32 \<Rightarrow> u32 \<Rightarrow> u32" where
  "elf32_get_section_flash_addr m shdr base =
     (if shdr \<noteq> 0 \<and> base \<noteq> 0 then base + sh_offset (shdr_at m shdr) else 0)"

definition elf32_seg_has_section :: "elf32_phdr \<Rightarrow> elf32_shdr \<Rightarrow> bool" where
  "elf32_seg_has_section ph sh \<longleftrightarrow>
     p_type ph = PT_LOAD \<and>
     \<not> (sh_addr sh < p_vaddr ph \<or> sh_addr sh + sh_size sh > p_vaddr ph + p_memsz ph) \<and>
     \<not> (sh_type sh \<noteq> SHT_NOBITS \<and> sh_offset sh < p_offset ph \<and>
         sh_offset sh + sh_size sh > p_offset ph + p_filesz ph)"

definition elf32_get_segment_by_section ::
    "mem \<Rightarrow> u32 \<Rightarrow> u32 \<Rightarrow> bool \<Rightarrow> bool \<Rightarrow> int \<times> (int \<times> u32) option" where
  "elf32_get_segment_by_section m ehdr shdr want_phidx want_phdr =
     (if ehdr = 0 \<or> shdr = 0 then (- 1, None)
      else if \<not> want_phidx \<and> \<not> want_phdr then (- 1, None)
      else let sh = shdr_at m shdr;
               found = (if sh_flags sh AND SHF_ALLOC \<noteq> 0
                        then List.find (\<lambda>(idx, pos). elf32_seg_has_section (phdr_at m pos) sh)
                               (elf32_for_each_phdr m ehdr)
                        else None)
           in case found of
                Some (idx, pos) \<Rightarrow> (0, Some (int idx, pos))
              | None \<Rightarrow> (1, Some (ELF_SEC_HAS_NO_SEGMENT, 0)))"

definition elf32_get_section_lma ::
    "mem \<Rightarrow> u32 \<Rightarrow> u32 \<Rightarrow> bool \<Rightarrow> int \<times> (u32 \<times> int) option" where
  "elf32_get_section_lma m ehdr shdr want_lma =
     (if ehdr = 0 \<or> shdr = 0 \<or> \<not> want_lma then (- 1, None)
      else case elf32_get_segment_by_section m ehdr shdr True True of
             (ret, None) \<Rightarrow> (- 1, None)
           | (ret, Some (idx, phdr)) \<Rightarrow>
               (let sh = shdr_at m shdr; ph = phdr_at m phdr
                in if ret = 0
                   then (ret, Some (if sh_type sh \<noteq> SHT_NOBITS
                                    then sh_offset sh - p_offset ph + p_paddr ph
                                    else sh_addr sh - p_vaddr ph + p_paddr ph, idx))
                   else if ret = 1 then (ret, Some (sh_addr sh, idx))
                   else (- 1, None)))"

definition elf32_adjust_lma :: "mem \<Rightarrow> u32 \<Rightarrow> u32 \<Rightarrow> u32" where
  "elf32_adjust_lma m shdr base =
     (if sh_type (shdr_at m shdr) \<noteq> SHT_NOBITS \<and> sh_flags (shdr_at m shdr) AND SHF_ALLOC \<noteq> 0
      then base + sh_offset (shdr_at m shdr) else 0)"

definition elf32_adjust_vma :: "mem \<Rightarrow> u32 \<Rightarrow> u32 \<Rightarrow> u32" where
  "elf32_adjust_vma m shdr base = base + sh_offset (shdr_at m shdr)"

definition elf32_get_section_adjusted_lma ::
    "mem \<Rightarrow> u32 \<Rightarrow> u32 \<Rightarrow> u32 \<Rightarrow> bool \<Rightarrow> int \<times> (u32 \<times> int) option" where
  "elf32_get_section_adjusted_lma m ehdr base shdr want_lma =
     (let p = (if base \<noteq> 0 then base else ehdr)
      in case elf32_get_section_lma m ehdr shdr want_lma of
           (ret, out) \<Rightarrow>
             if ret \<noteq> 0 then (ret, out)
             else (0, map_option (\<lambda>(lma, idx). (elf32_adjust_lma m shdr p, idx)) out))"

definition elf32_get_section_name_shstrtab_faddr :: "mem \<Rightarrow> u32 \<Rightarrow> u32 \<Rightarrow> u32" where
  "elf32_get_section_name_shstrtab_faddr m shdr shstrtab_faddr =
     (if shdr = 0 \<or> shstrtab_faddr = 0 then 0 else shstrtab_faddr + sh_name (shdr_at m shdr))"

definition elf32_get_section_name_shstrtab :: "mem \<Rightarrow> u32 \<Rightarrow> u32 \<Rightarrow> u32 \<Rightarrow> u32" where
  "elf32_get_section_name_shstrtab m base shdr shstrtab =
     (let shstrtab_faddr = elf32_get_section_flash_addr m shstrtab base
      in if shstrtab_faddr = 0 then 0
         else elf32_get_section_name_shstrtab_faddr m shdr shstrtab_faddr)"

definition elf32_get_section_name :: "mem \<Rightarrow> u32 \<Rightarrow> u32 \<Rightarrow> u32 \<Rightarrow> u32" where
  "elf32_get_section_name m ehdr base0 shdr =
     (if ehdr = 0 then 0
      else let base = (if base0 = 0 then ehdr else base0);
               shstrtab = elf32_get_section_by_index m ehdr base (uint (e_shstrndx (ehdr_at m ehdr)))
           in if shstrtab = 0 then 0
              else let shstrtab_faddr = elf32_get_section_flash_addr m shstrtab base
                   in if shstrtab_faddr = 0 then 0
                      else elf32_get_section_name_shstrtab_faddr m shdr shstrtab_faddr)"

definition elf32_get_section_name_by_index :: "mem \<Rightarrow> u32 \<Rightarrow> u32 \<Rightarrow> int \<Rightarrow> u32" where
  "elf32_get_section_name_by_index m ehdr base0 index =
     (if ehdr = 0 then 0
      else let base = (if base0 = 0 then ehdr else base0);
               shdr = elf32_get_section_by_index m ehdr base index;
               shstrtab = elf32_get_section_by_index m ehdr base (uint (e_shstrndx (ehdr_at m ehdr)))
           in if shdr = 0 \<or> shstrtab = 0 then 0
              else let shstrtab_faddr = elf32_get_section_flash_addr m shstrtab base
                   in if shstrtab_faddr = 0 then 0
                      else elf32_get_section_name_shstrtab_faddr m shdr shstrtab_faddr)"

fun elf32_by_name_loop :: "mem \<Rightarrow> (u32 \<Rightarrow> u32) \<Rightarrow> cstr \<Rightarrow> (nat \<times> u32) list \<Rightarrow> u32 option" where
  "elf32_by_name_loop m get_name name [] = Some 0"
| "elf32_by_name_loop m get_name name ((idx, pos) # rest) =
     (let s = get_name pos
      in if s = 0 then elf32_by_name_loop m get_name name rest
         else do { r \<leftarrow> uld_strcmp m (Ptr s) name;
                   if r = 0 then Some pos else elf32_by_name_loop m get_name name rest })"

definition elf32_get_section_by_name_shstrtab_faddr ::
    "mem \<Rightarrow> u32 \<Rightarrow> u32 \<Rightarrow> cstr \<Rightarrow> u32 \<Rightarrow> u32 option" where
  "elf32_get_section_by_name_shstrtab_faddr m ehdr base name shstrtab_faddr =
     (if name = Ptr 0 then Some 0
      else elf32_by_name_loop m (\<lambda>pos. elf32_get_section_name_shstrtab_faddr m pos shstrtab_faddr)
             name (elf32_for_each_shdr_base m ehdr base))"

definition elf32_get_section_by_name_shstrtab ::
    "mem \<Rightarrow> u32 \<Rightarrow> u32 \<Rightarrow> cstr \<Rightarrow> u32 \<Rightarrow> u32 option" where
  "elf32_get_section_by_name_shstrtab m ehdr base name shstrtab =
     (if name = Ptr 0 then Some 0
      else elf32_by_name_loop m (\<lambda>pos. elf32_get_section_name_shstrtab m ehdr pos shstrtab)
             name (elf32_for_each_shdr_base m ehdr base))"

definition elf32_get_section_by_name :: "mem \<Rightarrow> u32 \<Rightarrow> u32 \<Rightarrow> cstr \<Rightarrow> u32 option" where
  "elf32_get_section_by_name m ehdr base name =
     (if name = Ptr 0 then Some 0
      else elf32_by_name_loop m (\<lambda>pos. elf32_get_section_name m ehdr 0 pos)
             name (elf32_for_each_shdr_base m ehdr base))"

definition elf32_get_adjusted_entry :: "mem \<Rightarrow> u32 \<Rightarrow> u32 \<Rightarrow> u32" where
  "elf32_get_adjusted_entry m ehdr base0 =
     (if ehdr = 0 then 0
      else let base = (if base0 = 0 then ehdr else base0);
               entry = e_entry (ehdr_at m ehdr);
               shdr = elf32_get_section_by_vma m ehdr base entry
           in if shdr \<noteq> 0 then elf32_adjust_vma m shdr base + entry - sh_addr (shdr_at m shdr) else 0)"

subsection \<open>The loop macros enumerate the table by index\<close>

lemma length_elf32_iter [simp]: "length (elf32_iter pos ent idx n) = n"
  by (induction pos ent idx n rule: elf32_iter.induct) auto

lemma nth_elf32_iter:
  "k < n \<Longrightarrow> elf32_iter pos ent idx n ! k = (idx + k, pos + ent * of_nat k)"
  by (induction pos ent idx n arbitrary: k rule: elf32_iter.induct)
     (auto simp: nth_Cons algebra_simps split: nat.split)

lemma not_uint_le: "k < unat w \<Longrightarrow> \<not> uint (w :: 'a::len word) \<le> int k"
  by (metis linorder_not_le of_nat_less_iff uint_nat)

lemma elf32_get_section_by_index_eq:
  "ehdr \<noteq> 0 \<Longrightarrow> k < unat (e_shnum (ehdr_at m ehdr)) \<Longrightarrow>
   elf32_get_section_by_index m ehdr base (int k)
     = img_base ehdr base + (e_shoff (ehdr_at m ehdr) + ucast (e_shentsize (ehdr_at m ehdr)) * of_nat k)"
  by (simp add: elf32_get_section_by_index_def Let_def img_base_def not_uint_le)

lemma elf32_get_segment_by_index_eq:
  "ehdr \<noteq> 0 \<Longrightarrow> k < unat (e_phnum (ehdr_at m ehdr)) \<Longrightarrow>
   elf32_get_segment_by_index m ehdr base (int k)
     = img_base ehdr base + (e_phoff (ehdr_at m ehdr) + ucast (e_phentsize (ehdr_at m ehdr)) * of_nat k)"
  by (simp add: elf32_get_segment_by_index_def Let_def img_base_def not_uint_le)

lemma elf32_for_each_shdr_nth:
  assumes "ehdr \<noteq> 0" "k + 1 < unat (e_shnum (ehdr_at m ehdr))"
  shows "elf32_for_each_shdr_base m ehdr base ! k
     = (k + 1, elf32_get_section_by_index m ehdr base (int (k + 1)))"
proof -
  have "elf32_get_section_by_index m ehdr base (int (k + 1)) =
      elf32_get_section_by_index m ehdr base (int 1) + ucast (e_shentsize (ehdr_at m ehdr)) * of_nat k"
    using assms elf32_get_section_by_index_eq [of ehdr "k + 1" m base]
      elf32_get_section_by_index_eq [of ehdr 1 m base] by (simp add: distrib_left)
  moreover have "k < unat (e_shnum (ehdr_at m ehdr)) - 1" using assms(2) by simp
  ultimately show ?thesis
    by (simp add: elf32_for_each_shdr_base_def nth_elf32_iter)
qed

lemma elf32_for_each_phdr_nth:
  assumes "ehdr \<noteq> 0" "k < unat (e_phnum (ehdr_at m ehdr))"
  shows "elf32_for_each_phdr_base m ehdr base ! k
     = (k, elf32_get_segment_by_index m ehdr base (int k))"
proof -
  have "elf32_get_segment_by_index m ehdr base (int k) =
      elf32_get_segment_by_index m ehdr base (int 0) + ucast (e_phentsize (ehdr_at m ehdr)) * of_nat k"
    using assms elf32_get_segment_by_index_eq [of ehdr k m base]
      elf32_get_segment_by_index_eq [of ehdr 0 m base] by simp
  then show ?thesis using assms(2)
    by (simp add: elf32_for_each_phdr_base_def nth_elf32_iter)
qed

lemma elf32_for_each_shdr_base_eq:
  assumes "ehdr \<noteq> 0"
  shows "elf32_for_each_shdr_base m ehdr base
     = map (\<lambda>k. (k, elf32_get_section_by_index m ehdr base (int k))) [1..<unat (e_shnum (ehdr_at m ehdr))]"
proof (rule nth_equalityI)
  fix k assume "k < length (elf32_for_each_shdr_base m ehdr base)"
  then have "k + 1 < unat (e_shnum (ehdr_at m ehdr))" by (simp add: elf32_for_each_shdr_base_def)
  then show "elf32_for_each_shdr_base m ehdr base ! k
     = map (\<lambda>k. (k, elf32_get_section_by_index m ehdr base (int k))) [1..<unat (e_shnum (ehdr_at m ehdr))] ! k"
    using assms elf32_for_each_shdr_nth [of ehdr k m base] nth_upt [of "Suc 0" k "unat (e_shnum (ehdr_at m ehdr))"] by (simp del: upt_Suc)
qed (simp add: elf32_for_each_shdr_base_def)

lemma elf32_for_each_phdr_base_eq:
  assumes "ehdr \<noteq> 0"
  shows "elf32_for_each_phdr_base m ehdr base
     = map (\<lambda>k. (k, elf32_get_segment_by_index m ehdr base (int k))) [0..<unat (e_phnum (ehdr_at m ehdr))]"
proof (rule nth_equalityI)
  fix k assume "k < length (elf32_for_each_phdr_base m ehdr base)"
  then show "elf32_for_each_phdr_base m ehdr base ! k
     = map (\<lambda>k. (k, elf32_get_segment_by_index m ehdr base (int k))) [0..<unat (e_phnum (ehdr_at m ehdr))] ! k"
    using assms elf32_for_each_phdr_nth [of ehdr k m base] by (simp add: elf32_for_each_phdr_base_def)
qed (simp add: elf32_for_each_phdr_base_def)

lemma sint_ent_mult:
  fixes e :: u16
  assumes "uint e * int k < 2 ^ 31"
  shows "sint (ucast e * of_nat k :: u32) = uint e * int k"
proof -
  have "ucast e * of_nat k = (word_of_int (uint e * int k) :: u32)" by simp
  moreover have "sint (word_of_int (uint e * int k) :: u32) = uint e * int k"
  proof -
    have "0 \<le> uint e * int k" by simp
    moreover have "- (2 ^ 31) \<le> (0 :: int)" by simp
    ultimately have "- (2 ^ 31) \<le> uint e * int k" by (rule order_trans [rotated])
    then show ?thesis
      using assms signed_take_bit_int_eq_self [of 31 "uint e * int k"]
      by (simp only: signed_of_int) simp
  qed
  ultimately show ?thesis by metis
qed

lemma sdiv_mult_self: "0 < (e :: int) \<Longrightarrow> 0 \<le> i \<Longrightarrow> (e * i) sdiv e = i"
  by (cases "i = 0") (simp_all add: signed_divide_int_def sgn_mult abs_mult)

lemma elf32_shidx_of_index:
  assumes k: "k < unat (e_shnum (ehdr_at m ehdr))" and e: "ehdr \<noteq> 0"
    and ent: "0 < uint (e_shentsize (ehdr_at m ehdr))"
    and small: "uint (e_shentsize (ehdr_at m ehdr)) * int k < 2 ^ 31"
    and nz: "elf32_get_section_by_index m ehdr base (int k) \<noteq> 0"
  shows "elf32_get_shidx_by_section m ehdr base (elf32_get_section_by_index m ehdr base (int k)) = int k"
  using e nz ent sint_ent_mult [OF small] sdiv_mult_self [of "uint (e_shentsize (ehdr_at m ehdr))" "int k"]
  unfolding elf32_get_section_by_index_eq [OF e k]
  by (simp add: elf32_get_shidx_by_section_def Let_def img_base_def)

lemma elf32_by_name_loop_total: "\<exists>p. elf32_by_name_loop m f (Lit bs) l = Some p"
proof (induction l)
  case Nil
  then show ?case by simp
next
  case (Cons a l)
  obtain idx pos where a: "a = (idx, pos)" by fastforce
  obtain r where "uld_strcmp m (Ptr (f pos)) (Lit bs) = Some r" using uld_strcmp_Lit2 by blast
  then show ?case using Cons by (auto simp: a Let_def)
qed

lemma by_name_shstrtab_faddr_total:
  "\<exists>p. elf32_get_section_by_name_shstrtab_faddr m ehdr base (Lit bs) str = Some p"
  by (simp add: elf32_get_section_by_name_shstrtab_faddr_def elf32_by_name_loop_total)

lemma by_name_total: "\<exists>p. elf32_get_section_by_name m ehdr base (Lit bs) = Some p"
  by (simp add: elf32_get_section_by_name_def elf32_by_name_loop_total)

lemma find_map_upt:
  "(case List.find P (map f [a..<b]) of Some x \<Rightarrow> \<exists>k. a \<le> k \<and> k < b \<and> x = f k \<and> P (f k) \<and> (\<forall>j. a \<le> j \<and> j < k \<longrightarrow> \<not> P (f j))
     | None \<Rightarrow> \<forall>k. a \<le> k \<and> k < b \<longrightarrow> \<not> P (f k))"
proof (cases "List.find P (map f [a..<b])")
  case None
  then have "\<forall>k. a \<le> k \<and> k < b \<longrightarrow> \<not> P (f k)" by (auto simp: find_None_iff)
  then show ?thesis using None by (simp only: option.case)
next
  case (Some x)
  then obtain i where "i < b - a" "P (f (a + i))" "x = f (a + i)" "\<forall>j<i. \<not> P (f (a + j))"
    by (auto simp: find_Some_iff nth_upt)
  then have "a \<le> a + i \<and> a + i < b \<and> x = f (a + i) \<and> P (f (a + i))
      \<and> (\<forall>j. a \<le> j \<and> j < a + i \<longrightarrow> \<not> P (f j))"
    by (auto simp: le_iff_add)
  then show ?thesis using Some by (auto simp only: option.case)
qed

section \<open>Properties\<close>

text \<open>C36 The section loop visits the headers 1, 2, ... up to the last one, in this
  order, each at the address the lookup by index returns for it; the lookup rejects every other index.\<close>

theorem section_loop_indices:
  assumes "ehdr \<noteq> 0"
  shows "elf32_for_each_shdr_base m ehdr base
      = map (\<lambda>k. (k, elf32_get_section_by_index m ehdr base (int k))) [1..<unat (e_shnum (ehdr_at m ehdr))]
    \<and> (\<forall>i. i < 0 \<or> uint (e_shnum (ehdr_at m ehdr)) \<le> i \<longrightarrow> elf32_get_section_by_index m ehdr base i = 0)"
  using assms by (auto simp: elf32_for_each_shdr_base_eq elf32_get_section_by_index_def Let_def)

theorem section_loop_indices_witness:
  "elf32_for_each_shdr_base ((\<lambda>_. 0)(0x130 := 3, 0x12e := 40, 0x120 := 52)) 0x100 0 = [(1, 0x15c), (2, 0x184)]"
  using section_loop_indices [of "0x100" "(\<lambda>_. 0)(0x130 := 3, 0x12e := 40, 0x120 := 52)" 0]
  by (simp add: elf32_get_section_by_index_def ehdr_at_def ld16_def ld32_def Let_def upt_rec)

text \<open>The index computed back from the address of a section header is the index it
  was looked up with.\<close>

theorem shidx_roundtrip:
  assumes "k < unat (e_shnum (ehdr_at m ehdr))" "ehdr \<noteq> 0"
    and "0 < uint (e_shentsize (ehdr_at m ehdr))" "uint (e_shentsize (ehdr_at m ehdr)) * int k < 2 ^ 31"
    and "elf32_get_section_by_index m ehdr base (int k) \<noteq> 0"
  shows "elf32_get_shidx_by_section m ehdr base (elf32_get_section_by_index m ehdr base (int k)) = int k"
  using assms by (rule elf32_shidx_of_index)

theorem shidx_roundtrip_witness:
  "elf32_get_shidx_by_section ((\<lambda>_. 0)(0x130 := 3, 0x12e := 40, 0x120 := 52)) 0x100 0 0x184 = 2"
proof -
  let ?m = "(\<lambda>_. 0 :: u8)(0x130 := 3, 0x12e := 40, 0x120 := 52) :: mem"
  have "e_shnum (ehdr_at ?m 0x100) = 3" "e_shentsize (ehdr_at ?m 0x100) = 40" "e_shoff (ehdr_at ?m 0x100) = 52"
    by (simp_all add: ehdr_at_def ld16_def ld32_def)
  moreover from this have "elf32_get_section_by_index ?m 0x100 0 (int 2) = 0x184"
    by (simp add: elf32_get_section_by_index_def Let_def)
  ultimately show ?thesis using shidx_roundtrip [of 2 ?m "0x100" 0] by simp
qed

lemma seg_has_section_nat:
  assumes "unat (sh_addr sh) + unat (sh_size sh) < 2 ^ 32" "unat (sh_offset sh) + unat (sh_size sh) < 2 ^ 32"
    and "unat (p_vaddr ph) + unat (p_memsz ph) < 2 ^ 32" "unat (p_offset ph) + unat (p_filesz ph) < 2 ^ 32"
  shows "elf32_seg_has_section ph sh \<longleftrightarrow> p_type ph = 1 \<and> unat (p_vaddr ph) \<le> unat (sh_addr sh)
      \<and> unat (sh_addr sh) + unat (sh_size sh) \<le> unat (p_vaddr ph) + unat (p_memsz ph)
      \<and> (sh_type sh = 8 \<or> unat (p_offset ph) \<le> unat (sh_offset sh)
          \<or> unat (sh_offset sh) + unat (sh_size sh) \<le> unat (p_offset ph) + unat (p_filesz ph))"
proof -
  have w: "unat (x + y) = unat x + unat y" if "unat x + unat y < 2 ^ 32" for x y :: u32
    using that by (simp add: unat_word_ariths)
  show ?thesis
    unfolding elf32_seg_has_section_def elf_consts word_less_nat_alt w [OF assms(1)] w [OF assms(2)] w [OF assms(3)]
      w [OF assms(4)]
    by (auto simp: not_less)
qed

text \<open>C24 The segment found for an allocated section is the first program header that is
  loadable, whose addresses include those of the section and, when the section has bits, whose part of the file is not
  exceeded by the section on both sides; result 1 means that no program header is like that or that the section is not
  allocated. No other result is possible for non-null arguments. The ranges are compared as natural numbers, for headers
  whose ends do not wrap. The test of the file range is the one the code makes: a section that begins before the part of
  the segment and ends within it, or begins within it and ends after, is accepted, although the comment there speaks of
  any section outside the range.\<close>

theorem segment_lookup_sound:
  fixes m :: mem
  assumes "ehdr \<noteq> 0" "shdr \<noteq> 0"
  defines "sh \<equiv> shdr_at m shdr"
    and "seg \<equiv> \<lambda>k. phdr_at m (elf32_get_segment_by_index m ehdr 0 (int k))"
    and "n \<equiv> unat (e_phnum (ehdr_at m ehdr))"
  assumes "unat (sh_addr sh) + unat (sh_size sh) < 2 ^ 32" "unat (sh_offset sh) + unat (sh_size sh) < 2 ^ 32"
    and "\<forall>k<n. unat (p_vaddr (seg k)) + unat (p_memsz (seg k)) < 2 ^ 32
           \<and> unat (p_offset (seg k)) + unat (p_filesz (seg k)) < 2 ^ 32"
  defines "holds \<equiv> \<lambda>k. p_type (seg k) = 1
      \<and> unat (p_vaddr (seg k)) \<le> unat (sh_addr sh)
      \<and> unat (sh_addr sh) + unat (sh_size sh) \<le> unat (p_vaddr (seg k)) + unat (p_memsz (seg k))
      \<and> (sh_type sh = 8 \<or> unat (p_offset (seg k)) \<le> unat (sh_offset sh)
          \<or> unat (sh_offset sh) + unat (sh_size sh) \<le> unat (p_offset (seg k)) + unat (p_filesz (seg k)))"
  shows "case elf32_get_segment_by_section m ehdr shdr True True of
      (r, None) \<Rightarrow> False
    | (r, Some (idx, p)) \<Rightarrow>
        (r = 0 \<and> (\<exists>k<n. idx = int k \<and> p = elf32_get_segment_by_index m ehdr 0 (int k)
            \<and> sh_flags sh AND 2 \<noteq> 0 \<and> holds k \<and> (\<forall>j<k. \<not> holds j)))
      \<or> (r = 1 \<and> idx = ELF_SEC_HAS_NO_SEGMENT \<and> p = 0
          \<and> (sh_flags sh AND 2 \<noteq> 0 \<longrightarrow> (\<forall>k<n. \<not> holds k)))"
proof -
  let ?P = "\<lambda>(idx :: nat, pos). elf32_seg_has_section (phdr_at m pos) sh"
  have l: "elf32_for_each_phdr m ehdr
      = map (\<lambda>k. (k, elf32_get_segment_by_index m ehdr 0 (int k))) [0..<n]"
    using assms(1) by (simp add: elf32_for_each_phdr_def elf32_for_each_phdr_base_eq n_def)
  have has: "elf32_seg_has_section (seg k) sh \<longleftrightarrow> holds k" if "k < n" for k
    using seg_has_section_nat [of sh "seg k"] assms(6-8) that by (simp add: holds_def)
  note f = find_map_upt [where P = ?P and f = "\<lambda>k. (k, elf32_get_segment_by_index m ehdr 0 (int k))" and a = 0 and b = n]
  show ?thesis
  proof (cases "sh_flags sh AND 2 = 0")
    case True
    then show ?thesis using assms(1,2)
      by (simp add: elf32_get_segment_by_section_def Let_def sh_def elf_consts)
  next
    case False
    then show ?thesis using assms(1,2) f has
      by (auto simp: elf32_get_segment_by_section_def Let_def l seg_def sh_def elf_consts split: option.split)
  qed
qed

definition segs_mem :: mem where
  "segs_mem = (\<lambda>_. 0)(0x11c := 0x40, 0x12a := 32, 0x12c := 2, 0x140 := 1, 0x154 := 11, 0x160 := 1, 0x174 := 12,
      0x204 := 1, 0x208 := 2, 0x20c := 4, 0x214 := 8)"

lemma segs_mem_ehdr:
  "e_phnum (ehdr_at segs_mem 0x100) = 2" "e_phentsize (ehdr_at segs_mem 0x100) = 32" "e_phoff (ehdr_at segs_mem 0x100) = 64"
  by (simp_all add: ehdr_at_def ld16_def ld32_def) (simp_all add: segs_mem_def)

lemma segs_mem_hdrs:
  "phdr_at segs_mem 0x140 = \<lparr>p_type = 1, p_offset = 0, p_vaddr = 0, p_paddr = 0, p_filesz = 0, p_memsz = 11,
      p_flags = 0, p_align = 0\<rparr>"
  "phdr_at segs_mem 0x160 = \<lparr>p_type = 1, p_offset = 0, p_vaddr = 0, p_paddr = 0, p_filesz = 0, p_memsz = 12,
      p_flags = 0, p_align = 0\<rparr>"
  "shdr_at segs_mem 0x200 = \<lparr>sh_name = 0, sh_type = 1, sh_flags = 2, sh_addr = 4, sh_offset = 0, sh_size = 8,
      sh_link = 0, sh_info = 0, sh_addralign = 0, sh_entsize = 0\<rparr>"
  by (simp_all add: phdr_at_def shdr_at_def ld32_def) (simp_all add: segs_mem_def)

lemma segs_mem_index:
  "elf32_get_segment_by_index segs_mem 0x100 0 0 = 0x140" "elf32_get_segment_by_index segs_mem 0x100 0 1 = 0x160"
  by (simp_all add: elf32_get_segment_by_index_def Let_def segs_mem_ehdr)

lemma less_2_cases_all: "(\<forall>k<2. P k) \<longleftrightarrow> P 0 \<and> P (1 :: nat)"
  by (auto simp: less_2_cases_iff)

lemma less_2_cases_ex: "(\<exists>k<2. P k) \<longleftrightarrow> P 0 \<or> P (1 :: nat)"
  by (auto simp: less_2_cases_iff)

theorem segment_lookup_sound_witness:
  "elf32_get_segment_by_section segs_mem 0x100 0x200 True True = (0, Some (1, 0x160))"
  using segment_lookup_sound [of "0x100" "0x200" segs_mem]
  by (auto simp: segs_mem_ehdr segs_mem_hdrs segs_mem_index less_2_cases_all less_2_cases_ex split: prod.splits option.splits)

end
