(* ===== verification/Cpu.thy ===== *)
theory Cpu
  imports Libc
begin

text \<open>The machine state (memory, flash lock of \<open>src/cpu.c\<close>, number of software breakpoints met) and the flash
  operations.\<close>

record machine =
  mem :: mem
  flash_lock :: bool
  bkpts :: nat

definition swbkpt :: "machine \<Rightarrow> machine" where
  "swbkpt s = s\<lparr>bkpts := Suc (bkpts s)\<rparr>"

lemma swbkpt_sel [simp]:
  "mem (swbkpt s) = mem s" "flash_lock (swbkpt s) = flash_lock s" "bkpts (swbkpt s) = Suc (bkpts s)"
  by (simp_all add: swbkpt_def)

definition cpu_flash_is_locked :: "machine \<Rightarrow> bool" where
  "cpu_flash_is_locked s = flash_lock s"

definition cpu_flash_unlock :: "machine \<Rightarrow> machine" where
  "cpu_flash_unlock s = (if flash_lock s then s\<lparr>flash_lock := False\<rparr> else s)"

definition cpu_flash_lock :: "machine \<Rightarrow> machine" where
  "cpu_flash_lock s = (if \<not> flash_lock s then s\<lparr>flash_lock := True\<rparr> else s)"

definition cpu_flash_erase :: "machine \<Rightarrow> u32 \<Rightarrow> nat \<Rightarrow> int \<times> machine" where
  "cpu_flash_erase s p n =
     (if flash_lock s then (- 1, s) else (0, s\<lparr>mem := uld_memset (mem s) p 0 n\<rparr>))"

definition cpu_flash_write :: "machine \<Rightarrow> u32 \<Rightarrow> u32 \<Rightarrow> nat \<Rightarrow> int \<times> machine" where
  "cpu_flash_write s dest src n =
     (if flash_lock s then (- 1, s) else (0, s\<lparr>mem := uld_memmove (mem s) dest src n\<rparr>))"

definition bump :: "nat \<Rightarrow> machine \<Rightarrow> machine" where "bump k s = s\<lparr>bkpts := bkpts s + k\<rparr>"

lemma bump_simps [simp]: "mem (bump k s) = mem s" "flash_lock (bump k s) = flash_lock s"
  "bump 0 s = s" "bump j (bump k s) = bump (j + k) s" "swbkpt (bump k s) = bump (Suc k) s"
  by (simp_all add: bump_def swbkpt_def algebra_simps)

lemma swbkpt_bump: "swbkpt s = bump 1 s"
  by (simp add: bump_def swbkpt_def)

definition mach0 :: "mem \<Rightarrow> machine" where "mach0 m = \<lparr>mem = m, flash_lock = True, bkpts = 0\<rparr>"

lemma mem_mach0 [simp]: "mem (mach0 m) = m"
  by (simp add: mach0_def)

text \<open>Steps that write nothing and leave the lock alone.\<close>

definition quiet :: "machine \<Rightarrow> machine \<Rightarrow> bool" where
  "quiet s s' \<longleftrightarrow> mem s' = mem s \<and> flash_lock s' = flash_lock s"

lemma quiet_refl [simp]: "quiet s s" and quiet_swbkpt [simp]: "quiet s (swbkpt s)"
  and quiet_bump [simp]: "quiet s (bump k s)"
  by (simp_all add: quiet_def)

lemma quiet_trans: "quiet s s' \<Longrightarrow> quiet s' s'' \<Longrightarrow> quiet s s''"
  by (simp add: quiet_def)

end
