(* ===== verification/Sal.thy ===== *)
theory Sal
  imports Elf Cpu
begin

text \<open>\<open>src/uld_sal.c\<close> with the structures of \<open>include/uld_types.h\<close>: checksums of the file table, classification of
  sections, section lookups and address translation.\<close>

definition ULD_SECTION_FLAG_NONE :: u32 where "ULD_SECTION_FLAG_NONE = 0x00000000"
definition ULD_SECTION_FLAG_VALID :: u32 where "ULD_SECTION_FLAG_VALID = 0x00000001"
definition ULD_SECTION_FLAG_LAST :: u32 where "ULD_SECTION_FLAG_LAST = 0x00000002"
definition ULD_SECTION_FLAG_TYPE_MASK :: u32 where "ULD_SECTION_FLAG_TYPE_MASK = 0x00000ff0"
definition ULD_SECTION_FLAG_TYPE_FLASH :: u32 where "ULD_SECTION_FLAG_TYPE_FLASH = 0x00000010"
definition ULD_SECTION_FLAG_TYPE_MEM :: u32 where "ULD_SECTION_FLAG_TYPE_MEM = 0x00000020"
definition ULD_SECTION_FLAG_TYPE_DYNAMIC :: u32 where
  "ULD_SECTION_FLAG_TYPE_DYNAMIC = ULD_SECTION_FLAG_TYPE_FLASH"
definition ULD_SECTION_FLAG_TYPE_OTHER :: u32 where "ULD_SECTION_FLAG_TYPE_OTHER = 0x00000040"
definition ULD_SECTION_FLAG_TYPE_ALL :: u32 where
  "ULD_SECTION_FLAG_TYPE_ALL = ULD_SECTION_FLAG_TYPE_FLASH OR ULD_SECTION_FLAG_TYPE_MEM
     OR ULD_SECTION_FLAG_TYPE_DYNAMIC OR ULD_SECTION_FLAG_TYPE_OTHER"
definition ULD_SECTION_FLAG_STATUS_MEM_NEEDS_FIXUP :: u32 where
  "ULD_SECTION_FLAG_STATUS_MEM_NEEDS_FIXUP = 0x00001000"
definition ULD_SECTION_FLAG_STATUS_MEM_FIXUP_DONE :: u32 where
  "ULD_SECTION_FLAG_STATUS_MEM_FIXUP_DONE = 0x00002000"
definition ULD_SECTION_FLAG_STATUS_MEM_LOADED :: u32 where
  "ULD_SECTION_FLAG_STATUS_MEM_LOADED = 0x00004000"
definition ULD_SECTION_FLAG_STATUS_FLASH_NEEDS_FIXUP :: u32 where
  "ULD_SECTION_FLAG_STATUS_FLASH_NEEDS_FIXUP = 0x00010000"
definition ULD_SECTION_FLAG_STATUS_FLASH_FIXUP_DONE :: u32 where
  "ULD_SECTION_FLAG_STATUS_FLASH_FIXUP_DONE = 0x00020000"

lemmas sec_flag_defs = ULD_SECTION_FLAG_NONE_def ULD_SECTION_FLAG_VALID_def
  ULD_SECTION_FLAG_LAST_def ULD_SECTION_FLAG_TYPE_MASK_def ULD_SECTION_FLAG_TYPE_FLASH_def
  ULD_SECTION_FLAG_TYPE_MEM_def ULD_SECTION_FLAG_TYPE_DYNAMIC_def ULD_SECTION_FLAG_TYPE_OTHER_def
  ULD_SECTION_FLAG_TYPE_ALL_def ULD_SECTION_FLAG_STATUS_MEM_NEEDS_FIXUP_def
  ULD_SECTION_FLAG_STATUS_MEM_FIXUP_DONE_def ULD_SECTION_FLAG_STATUS_MEM_LOADED_def
  ULD_SECTION_FLAG_STATUS_FLASH_NEEDS_FIXUP_def ULD_SECTION_FLAG_STATUS_FLASH_FIXUP_DONE_def

record uld_section =
  sec_ehdr :: u32
  sec_phdr :: u32
  sec_shdr :: u32
  sec_name :: u32
  sec_lma :: u32
  sec_adjusted_lma :: u32
  sec_faddr :: u32
  sec_adjusted_vma :: u32
  sec_flags :: u32
  sec_phidx :: int
  sec_shidx :: int

record uld_fs_entry =
  fse_base :: u32
  fse_next :: u32
  fse_size :: u32
  fse_crc :: u32
  fse_flags :: u32
  fse_name :: u32

definition fse_at :: "mem \<Rightarrow> u32 \<Rightarrow> uld_fs_entry" where
  "fse_at m p = \<lparr>fse_base = ld32 m p, fse_next = ld32 m (p + 4), fse_size = ld32 m (p + 8),
     fse_crc = ld32 m (p + 12), fse_flags = ld32 m (p + 16), fse_name = p + 20\<rparr>"

record uld_pstore =
  boot_action :: u32
  files_base :: u32
  files_size :: u32
  fst_head :: u32
  fst_table_base :: u32
  fst_table_size :: u32
  fst_crc :: u32

definition pstore_at :: "mem \<Rightarrow> u32 \<Rightarrow> uld_pstore" where
  "pstore_at m p = \<lparr>boot_action = ld32 m p, files_base = ld32 m (p + 4),
     files_size = ld32 m (p + 8), fst_head = ld32 m (p + 12), fst_table_base = ld32 m (p + 16),
     fst_table_size = ld32 m (p + 20), fst_crc = ld32 m (p + 24)\<rparr>"

definition write_u32 :: "machine \<Rightarrow> u32 \<Rightarrow> u32 \<Rightarrow> int \<times> machine" where
  "write_u32 s p v =
     (if flash_lock s then (- 1, s) else (0, s\<lparr>mem := st32 (mem s) p v\<rparr>))"

definition uld_crc_calc_fst :: "mem \<Rightarrow> u32 \<Rightarrow> u32" where
  "uld_crc_calc_fst m pstore = crc32 m (fst_table_base (pstore_at m pstore))
     (unat (fst_table_size (pstore_at m pstore))) UTIL_CRC32_INIT"

definition uld_crc_verify_fst :: "mem \<Rightarrow> u32 \<Rightarrow> bool \<times> u32" where
  "uld_crc_verify_fst m pstore =
     (let c = uld_crc_calc_fst m pstore in (fst_crc (pstore_at m pstore) = c, c))"

definition uld_crc_update_fst :: "machine \<Rightarrow> u32 \<Rightarrow> int \<times> u32 \<times> machine" where
  "uld_crc_update_fst s pstore =
     (let c = uld_crc_calc_fst (mem s) pstore; (ret, s') = write_u32 s (pstore + 24) c
      in (ret, c, s'))"

definition uld_crc_calc_fse :: "mem \<Rightarrow> u32 \<Rightarrow> u32" where
  "uld_crc_calc_fse m fse =
     crc32 m (fse_base (fse_at m fse)) (unat (fse_size (fse_at m fse))) UTIL_CRC32_INIT"

definition uld_crc_verify_fse :: "mem \<Rightarrow> u32 \<Rightarrow> bool \<times> u32" where
  "uld_crc_verify_fse m fse = (let c = uld_crc_calc_fse m fse in (fse_crc (fse_at m fse) = c, c))"

definition uld_crc_update_fse :: "machine \<Rightarrow> u32 \<Rightarrow> int \<times> u32 \<times> machine" where
  "uld_crc_update_fse s fse =
     (let c = uld_crc_calc_fse (mem s) fse; (ret, s') = write_u32 s (fse + 12) c
      in (ret, c, s'))"

definition uld_section_mem_name_list :: "cstr list" where
  "uld_section_mem_name_list = [Lit (map of_char ''.got''), Lit (map of_char ''.got.plt''),
     Lit (map of_char ''.data''), Lit (map of_char ''.bss'')]"

definition uld_section_is_mem_sec_by_name :: "mem \<Rightarrow> cstr \<Rightarrow> bool option" where
  "uld_section_is_mem_sec_by_name m s = str_in_list m uld_section_mem_name_list s"

definition uld_section_is_mem_sec_fixup_by_name :: "mem \<Rightarrow> cstr \<Rightarrow> bool option" where
  "uld_section_is_mem_sec_fixup_by_name m s = str_in_list m (take 3 uld_section_mem_name_list) s"

definition uld_section_get_type :: "machine \<Rightarrow> u32 \<Rightarrow> u32 \<Rightarrow> (u32 \<times> machine) option" where
  "uld_section_get_type s shdr name =
     (let sh = shdr_at (mem s) shdr
      in if sh_flags sh AND SHF_ALLOC \<noteq> 0 then do {
           is_mem \<leftarrow> uld_section_is_mem_sec_by_name (mem s) (Ptr name);
           if is_mem then Some (ULD_SECTION_FLAG_TYPE_MEM, s)
           else if sh_type sh \<in> {SHT_PROGBITS, SHT_NOBITS, SHT_INIT_ARRAY, SHT_FINI_ARRAY,
                                  SHT_PREINIT_ARRAY}
             then Some (ULD_SECTION_FLAG_TYPE_FLASH, s)
           else if sh_type sh \<in> {SHT_STRTAB, SHT_RELA, SHT_HASH, SHT_DYNAMIC, SHT_REL, SHT_DYNSYM}
             then Some (ULD_SECTION_FLAG_TYPE_DYNAMIC, s)
           else Some (ULD_SECTION_FLAG_TYPE_OTHER, swbkpt s) }
         else Some (ULD_SECTION_FLAG_TYPE_OTHER, s))"

datatype find_key = VMA u32 | ADJUSTED_VMA u32 | LMA u32 | ADJUSTED_LMA u32 | NAME cstr | UNKNOWN

definition in_extent :: "mem \<Rightarrow> u32 \<Rightarrow> u32 \<Rightarrow> uld_section \<Rightarrow> bool" where
  "in_extent m ma base sec \<longleftrightarrow> ma \<ge> base \<and> ma < base + sh_size (shdr_at m (sec_shdr sec))"

fun find_hit :: "mem \<Rightarrow> find_key \<Rightarrow> uld_section \<Rightarrow> bool option" where
  "find_hit m (VMA ma) sec = Some (in_extent m ma (sh_addr (shdr_at m (sec_shdr sec))) sec)"
| "find_hit m (ADJUSTED_VMA ma) sec = Some (in_extent m ma (sec_adjusted_vma sec) sec)"
| "find_hit m (LMA ma) sec = Some (in_extent m ma (sec_lma sec) sec)"
| "find_hit m (ADJUSTED_LMA ma) sec = Some (in_extent m ma (sec_adjusted_lma sec) sec)"
| "find_hit m (NAME str) sec = do { r \<leftarrow> uld_strcmp m str (Ptr (sec_name sec)); Some (r = 0) }"
| "find_hit m UNKNOWN sec = Some False"

fun find_loop :: "mem \<Rightarrow> find_key \<Rightarrow> u32 \<Rightarrow> u32 \<Rightarrow> nat \<Rightarrow> uld_section list \<Rightarrow> nat option option" where
  "find_loop m key fmask fval i [] = Some None"
| "find_loop m key fmask fval i (sec # rest) =
     (if sec_flags sec AND fmask \<noteq> fval then find_loop m key fmask fval (Suc i) rest
      else do { hit \<leftarrow> find_hit m key sec;
                if hit then Some (Some i) else find_loop m key fmask fval (Suc i) rest })"

definition uld_section_find_in_list ::
    "mem \<Rightarrow> uld_section list \<Rightarrow> find_key \<Rightarrow> u32 \<Rightarrow> u32 \<Rightarrow> nat option option" where
  "uld_section_find_in_list m sec_list key fmask fval =
     (if sec_list = [] then Some None
      else if key = NAME (Ptr 0) \<or> key = UNKNOWN then Some None
      else find_loop m key fmask fval 0 sec_list)"

fun find_in_lists_loop ::
    "mem \<Rightarrow> find_key \<Rightarrow> u32 \<Rightarrow> u32 \<Rightarrow> nat \<Rightarrow> uld_section list list \<Rightarrow> (nat \<times> nat) option option" where
  "find_in_lists_loop m key fmask fval i [] = Some None"
| "find_in_lists_loop m key fmask fval i (l # rest) = do {
     sec \<leftarrow> uld_section_find_in_list m l key fmask fval;
     case sec of Some j \<Rightarrow> Some (Some (i, j))
               | None \<Rightarrow> find_in_lists_loop m key fmask fval (Suc i) rest }"

definition uld_section_find_in_lists ::
    "mem \<Rightarrow> uld_section list list \<Rightarrow> find_key \<Rightarrow> u32 \<Rightarrow> u32 \<Rightarrow> (nat \<times> nat) option option" where
  "uld_section_find_in_lists m sec_lists key fmask fval =
     find_in_lists_loop m key fmask fval 0 sec_lists"

definition uld_section_find_in_list_by_lma_flag ::
    "mem \<Rightarrow> uld_section list \<Rightarrow> u32 \<Rightarrow> u32 \<Rightarrow> u32 \<Rightarrow> nat option option" where
  "uld_section_find_in_list_by_lma_flag m sec_list lma fmask fval =
     uld_section_find_in_list m sec_list (LMA lma) fmask fval"

definition uld_section_find_in_list_by_lma ::
    "mem \<Rightarrow> uld_section list \<Rightarrow> u32 \<Rightarrow> nat option option" where
  "uld_section_find_in_list_by_lma m sec_list lma =
     uld_section_find_in_list m sec_list (LMA lma) ULD_SECTION_FLAG_NONE ULD_SECTION_FLAG_NONE"

definition uld_section_find_in_list_by_adj_lma_flag ::
    "mem \<Rightarrow> uld_section list \<Rightarrow> u32 \<Rightarrow> u32 \<Rightarrow> u32 \<Rightarrow> nat option option" where
  "uld_section_find_in_list_by_adj_lma_flag m sec_list adjusted_lma fmask fval =
     uld_section_find_in_list m sec_list (ADJUSTED_LMA adjusted_lma) fmask fval"

definition uld_section_find_in_list_by_adj_lma ::
    "mem \<Rightarrow> uld_section list \<Rightarrow> u32 \<Rightarrow> nat option option" where
  "uld_section_find_in_list_by_adj_lma m sec_list adjusted_lma =
     uld_section_find_in_list m sec_list (ADJUSTED_LMA adjusted_lma)
       ULD_SECTION_FLAG_NONE ULD_SECTION_FLAG_NONE"

definition uld_section_find_in_lists_by_lma ::
    "mem \<Rightarrow> uld_section list list \<Rightarrow> u32 \<Rightarrow> (nat \<times> nat) option option" where
  "uld_section_find_in_lists_by_lma m sec_lists lma =
     uld_section_find_in_lists m sec_lists (LMA lma) ULD_SECTION_FLAG_NONE ULD_SECTION_FLAG_NONE"

definition uld_section_find_in_list_by_name ::
    "mem \<Rightarrow> uld_section list \<Rightarrow> cstr \<Rightarrow> nat option option" where
  "uld_section_find_in_list_by_name m sec_list name =
     uld_section_find_in_list m sec_list (NAME name) ULD_SECTION_FLAG_NONE ULD_SECTION_FLAG_NONE"

definition uld_section_find_in_lists_by_name ::
    "mem \<Rightarrow> uld_section list list \<Rightarrow> cstr \<Rightarrow> (nat \<times> nat) option option" where
  "uld_section_find_in_lists_by_name m sec_lists name =
     uld_section_find_in_lists m sec_lists (NAME name) ULD_SECTION_FLAG_NONE ULD_SECTION_FLAG_NONE"

definition uld_section_lma_to_adjusted_ma :: "mem \<Rightarrow> uld_section \<Rightarrow> u32 \<Rightarrow> bool \<Rightarrow> u32" where
  "uld_section_lma_to_adjusted_ma m sec lma to_adj_lma =
     (let sh = shdr_at m (sec_shdr sec)
      in if lma = 0 then 0
         else if lma < sec_lma sec \<or> lma \<ge> sec_lma sec + sh_size sh then 0
         else if sh_type sh = SHT_NOBITS \<and>
                 (to_adj_lma \<or> sec_flags sec AND ULD_SECTION_FLAG_STATUS_MEM_LOADED = 0) then 0
         else lma - sec_lma sec
                + (if to_adj_lma then sec_adjusted_lma sec else sec_adjusted_vma sec))"

definition uld_section_lma_to_adjusted_lma :: "mem \<Rightarrow> uld_section \<Rightarrow> u32 \<Rightarrow> u32" where
  "uld_section_lma_to_adjusted_lma m sec lma = uld_section_lma_to_adjusted_ma m sec lma True"

definition uld_section_lma_to_adjusted_vma :: "mem \<Rightarrow> uld_section \<Rightarrow> u32 \<Rightarrow> u32" where
  "uld_section_lma_to_adjusted_vma m sec lma = uld_section_lma_to_adjusted_ma m sec lma False"

subsection \<open>Lookups\<close>

definition hit_here :: "mem \<Rightarrow> find_key \<Rightarrow> u32 \<Rightarrow> u32 \<Rightarrow> uld_section \<Rightarrow> bool" where
  "hit_here m key fmask fval sec \<longleftrightarrow> sec_flags sec AND fmask = fval \<and> find_hit m key sec = Some True"

lemma find_loop_eq:
  assumes "\<forall>sec\<in>set secs. sec_flags sec AND fmask = fval \<longrightarrow> find_hit m key sec \<noteq> None"
  shows "find_loop m key fmask fval i secs
     = Some (map_option ((+) i) (first_idx (hit_here m key fmask fval) secs))"
  using assms
proof (induction secs arbitrary: i)
  case Nil
  then show ?case by simp
next
  case (Cons sec secs)
  have e: "map_option ((+) (Suc i)) x = map_option ((+) i) (map_option Suc x)" for x
    by (cases x) auto
  show ?case
  proof (cases "sec_flags sec AND fmask = fval")
    case True
    with Cons.prems obtain h where "find_hit m key sec = Some h" by auto
    with True Cons show ?thesis by (cases h) (auto simp: hit_here_def e)
  next
    case False
    with Cons show ?thesis by (auto simp: hit_here_def e)
  qed
qed

lemma find_hit_addr_total:
  "key \<notin> range NAME \<Longrightarrow> find_hit m key sec \<noteq> None"
  by (cases key) auto

lemma find_hit_Lit_total: "find_hit m (NAME (Lit bs)) sec \<noteq> None"
  using uld_strcmp_Lit1 [of m bs "Ptr (sec_name sec)"] by auto

lemma in_extent_offset:
  "in_extent m lma base sec \<Longrightarrow> unat (lma - base) < unat (sh_size (shdr_at m (sec_shdr sec)))"
  unfolding in_extent_def by unat_arith

lemma find_in_list_by_lma_eq:
  "uld_section_find_in_list m secs (LMA lma) fmask fval
     = Some (first_idx (\<lambda>sec. sec_flags sec AND fmask = fval \<and> in_extent m lma (sec_lma sec) sec) secs)"
proof -
  have "hit_here m (LMA lma) fmask fval
     = (\<lambda>sec. sec_flags sec AND fmask = fval \<and> in_extent m lma (sec_lma sec) sec)"
    by (auto simp: hit_here_def fun_eq_iff)
  moreover have "map_option ((+) 0) x = x" for x :: "nat option" by (cases x) auto
  ultimately show ?thesis
    by (cases secs) (auto simp: uld_section_find_in_list_def find_loop_eq simp del: find_loop.simps)
qed

lemma find_in_list_eq:
  assumes "key \<noteq> UNKNOWN" "key \<noteq> NAME (Ptr 0)" "\<And>sec. find_hit m key sec \<noteq> None"
  shows "uld_section_find_in_list m secs key 0 0 = Some (first_idx (\<lambda>sec. find_hit m key sec = Some True) secs)"
proof -
  have "hit_here m key 0 0 = (\<lambda>sec. find_hit m key sec = Some True)"
    by (auto simp: hit_here_def fun_eq_iff)
  moreover have "map_option ((+) 0) x = x" for x :: "nat option" by (cases x) auto
  ultimately show ?thesis
    using assms by (cases secs) (auto simp: uld_section_find_in_list_def find_loop_eq simp del: find_loop.simps)
qed

interpretation lma_search: first_match "\<lambda>lma secs. uld_section_find_in_list_by_lma m secs lma"
    "\<lambda>lma sec. in_extent m lma (sec_lma sec) sec" for m
  by unfold_locales
    (simp add: uld_section_find_in_list_by_lma_def ULD_SECTION_FLAG_NONE_def find_in_list_eq)

interpretation adj_lma_search: first_match "\<lambda>lma secs. uld_section_find_in_list_by_adj_lma m secs lma"
    "\<lambda>lma sec. in_extent m lma (sec_adjusted_lma sec) sec" for m
  by unfold_locales
    (simp add: uld_section_find_in_list_by_adj_lma_def ULD_SECTION_FLAG_NONE_def find_in_list_eq)

interpretation name_search: first_match "\<lambda>bs secs. uld_section_find_in_list_by_name m secs (Lit bs)"
    "\<lambda>bs sec. uld_strcmp m (Lit bs) (Ptr (sec_name sec)) = Some 0" for m
proof
  fix bs secs
  have "find_hit m (NAME (Lit bs)) sec = Some True \<longleftrightarrow> uld_strcmp m (Lit bs) (Ptr (sec_name sec)) = Some 0" for sec
    by (cases "uld_strcmp m (Lit bs) (Ptr (sec_name sec))") auto
  then show "uld_section_find_in_list_by_name m secs (Lit bs)
      = Some (first_idx (\<lambda>sec. uld_strcmp m (Lit bs) (Ptr (sec_name sec)) = Some 0) secs)"
    using find_in_list_eq [of "NAME (Lit bs)" m secs] find_hit_Lit_total
    by (simp add: uld_section_find_in_list_by_name_def ULD_SECTION_FLAG_NONE_def del: find_hit.simps)
qed

lemma find_in_lists_elem:
  "\<exists>r. find_in_lists_loop m (LMA lma) 0 0 i ls = Some r
    \<and> (case r of None \<Rightarrow> List.find (\<lambda>sec. in_extent m lma (sec_lma sec) sec) (concat ls) = None
       | Some (k, j) \<Rightarrow> i \<le> k \<and> k - i < length ls
          \<and> List.find (\<lambda>sec. in_extent m lma (sec_lma sec) sec) (concat ls) = Some (ls ! (k - i) ! j))"
proof (induction ls arbitrary: i)
  case Nil
  then show ?case by simp
next
  case (Cons l ls)
  let ?P = "\<lambda>sec. in_extent m lma (sec_lma sec) sec"
  have f: "uld_section_find_in_list m l (LMA lma) 0 0 = Some (first_idx ?P l)"
    by (simp add: find_in_list_eq)
  show ?case
  proof (cases "first_idx ?P l")
    case (Some j)
    then have "List.find ?P l = Some (l ! j)" by (simp add: find_first_idx)
    then show ?thesis using f Some by (simp add: find_append)
  next
    case None
    obtain r where r: "find_in_lists_loop m (LMA lma) 0 0 (Suc i) ls = Some r"
      "case r of None \<Rightarrow> List.find ?P (concat ls) = None
       | Some (k, j) \<Rightarrow> Suc i \<le> k \<and> k - Suc i < length ls
          \<and> List.find ?P (concat ls) = Some (ls ! (k - Suc i) ! j)"
      using Cons.IH by blast
    have n: "List.find ?P l = None" using None by (simp add: find_first_idx)
    have "find_in_lists_loop m (LMA lma) 0 0 i (l # ls) = Some r" using None f r(1) by simp
    moreover have "case r of None \<Rightarrow> List.find ?P (concat (l # ls)) = None
       | Some (k, j) \<Rightarrow> i \<le> k \<and> k - i < length (l # ls)
          \<and> List.find ?P (concat (l # ls)) = Some ((l # ls) ! (k - i) ! j)"
      using n r(2) by (auto simp: find_append nth_Cons' split: option.splits)
    ultimately show ?thesis by blast
  qed
qed

lemma mem_name_list_Lit: "\<exists>b. uld_section_is_mem_sec_by_name m s = Some b"
proof -
  have "uld_section_mem_name_list = map Lit [map of_char ''.got'', map of_char ''.got.plt'',
     map of_char ''.data'', map of_char ''.bss'']"
    by (simp add: uld_section_mem_name_list_def)
  then show ?thesis by (metis str_in_list_total uld_section_is_mem_sec_by_name_def)
qed

lemma mem_fixup_list_Lit: "\<exists>b. uld_section_is_mem_sec_fixup_by_name m s = Some b"
proof -
  have "take 3 uld_section_mem_name_list = map Lit [map of_char ''.got'', map of_char ''.got.plt'',
     map of_char ''.data'']"
    by (simp add: uld_section_mem_name_list_def)
  then show ?thesis by (metis str_in_list_total uld_section_is_mem_sec_fixup_by_name_def)
qed

definition sec_type_of :: "mem \<Rightarrow> u32 \<Rightarrow> u32 \<Rightarrow> u32" where
  "sec_type_of m shdr name = fst (the (uld_section_get_type (mach0 m) shdr name))"

definition sec_type_bkpts :: "mem \<Rightarrow> u32 \<Rightarrow> u32 \<Rightarrow> nat" where
  "sec_type_bkpts m shdr name = bkpts (snd (the (uld_section_get_type (mach0 m) shdr name)))"

lemma get_type_eq:
  "uld_section_get_type s shdr name
     = Some (sec_type_of (mem s) shdr name, bump (sec_type_bkpts (mem s) shdr name) s)"
proof -
  obtain b where "uld_section_is_mem_sec_by_name (mem s) (Ptr name) = Some b"
    using mem_name_list_Lit by blast
  then show ?thesis
    by (simp add: sec_type_of_def sec_type_bkpts_def uld_section_get_type_def Let_def mach0_def)
       (simp add: bump_def swbkpt_def)
qed

lemma crc_calc_fse_write:
  assumes "rng (fse + 12) 4 \<inter> rng (fse_base (fse_at m fse)) (unat (fse_size (fse_at m fse))) = {}"
  shows "uld_crc_calc_fse (st32 m (fse + 12) v) fse = uld_crc_calc_fse m fse
    \<and> fse_crc (fse_at (st32 m (fse + 12) v) fse) = v"
proof -
  let ?m = "st32 m (fse + 12) v"
  have d: "rng (fse + 12) 4 \<inter> rng fse 4 = {}" "rng (fse + 12) 4 \<inter> rng (fse + 8) 4 = {}"
    by (auto dest!: rng4_cases)
  have b: "fse_base (fse_at ?m fse) = fse_base (fse_at m fse)" "fse_size (fse_at ?m fse) = fse_size (fse_at m fse)"
    using d by (simp_all add: fse_at_def ld32_st32_other)
  have "crc32_loop ?m (fse_base (fse_at m fse)) (unat (fse_size (fse_at m fse))) c
      = crc32_loop m (fse_base (fse_at m fse)) (unat (fse_size (fse_at m fse))) c" for c
    using assms by (intro crc32_loop_cong) (auto intro!: st32_outside)
  then show ?thesis by (simp add: uld_crc_calc_fse_def b crc32_def) (simp add: fse_at_def)
qed

section \<open>Properties\<close>

text \<open>C18 With the flash unlocked, updating the checksum of a file entry succeeds and
  the entry then verifies; afterwards a change of any single byte of the file makes the verification
  fail (the entry's own checksum field lies outside the file it describes).\<close>

theorem crc_update_verify:
  assumes "\<not> flash_lock s"
    and "rng (fse + 12) 4 \<inter> rng (fse_base (fse_at (mem s) fse)) (unat (fse_size (fse_at (mem s) fse))) = {}"
  shows "case uld_crc_update_fse s fse of (ret, crc, s') \<Rightarrow>
      ret = 0 \<and> uld_crc_verify_fse (mem s') fse = (True, crc)
      \<and> (\<forall>a v. a \<in> rng (fse_base (fse_at (mem s') fse)) (unat (fse_size (fse_at (mem s') fse)))
           \<longrightarrow> v \<noteq> mem s' a \<longrightarrow> fse_at ((mem s')(a := v)) fse = fse_at (mem s') fse
           \<longrightarrow> \<not> fst (uld_crc_verify_fse ((mem s')(a := v)) fse))"
proof -
  define m' where "m' = st32 (mem s) (fse + 12) (uld_crc_calc_fse (mem s) fse)"
  have u: "uld_crc_update_fse s fse = (0, uld_crc_calc_fse (mem s) fse, s\<lparr>mem := m'\<rparr>)"
    using assms(1) by (simp add: uld_crc_update_fse_def write_u32_def Let_def m'_def)
  have v: "uld_crc_calc_fse m' fse = uld_crc_calc_fse (mem s) fse"
    "fse_crc (fse_at m' fse) = uld_crc_calc_fse (mem s) fse"
    using crc_calc_fse_write [OF assms(2)] by (simp_all add: m'_def)
  have det: "uld_crc_calc_fse (m'(a := w)) fse \<noteq> uld_crc_calc_fse m' fse"
    if "a \<in> rng (fse_base (fse_at m' fse)) (unat (fse_size (fse_at m' fse)))" "w \<noteq> m' a"
      "fse_at (m'(a := w)) fse = fse_at m' fse" for a w
  proof -
    have "unat (fse_size (fse_at m' fse)) \<le> 2 ^ 32" by (rule less_imp_le [OF unat_lt32])
    then show ?thesis
      using crc32_loop_detects [of "m'(a := w)" a m'] that
      by (simp add: uld_crc_calc_fse_def crc32_def)
  qed
  show ?thesis using v det by (simp add: u uld_crc_verify_fse_def Let_def) (metis v(1))
qed

theorem crc_update_verify_witness:
  "case uld_crc_update_fse \<lparr>mem = (\<lambda>_. 0)(0x101 := 0x80, 0x108 := 4), flash_lock = False, bkpts = 0\<rparr> 0x100 of
     (ret, crc, s') \<Rightarrow> ret = 0 \<and> uld_crc_verify_fse (mem s') 0x100 = (True, crc)"
proof -
  let ?s = "\<lparr>mem = (\<lambda>_. 0 :: u8)(0x101 := 0x80, 0x108 := 4), flash_lock = False, bkpts = 0\<rparr>"
  have "fse_base (fse_at (mem ?s) 0x100) = 0x8000" "fse_size (fse_at (mem ?s) 0x100) = 4"
    by (simp_all add: fse_at_def ld32_def)
  moreover have "rng 0x10c 4 \<inter> rng 0x8000 4 = {}" using rng_disjoint_linear [of "0x10c" 4 "0x8000" 4] by simp
  ultimately show ?thesis using crc_update_verify [of ?s "0x100"] by (auto split: prod.split)
qed

text \<open>C34 Every section gets exactly one of the list types. Sections that are not allocated are
  of type OTHER. An allocated section is of type MEM exactly when its name is \<open>.got\<close>, \<open>.got.plt\<close>, \<open>.data\<close> or
  \<open>.bss\<close>; under any other name it is of type FLASH (which is also the type of dynamic sections) exactly when its ELF type
  is PROGBITS (1), NOBITS (8), INIT_ARRAY (14), FINI_ARRAY (15) or PREINIT_ARRAY (16), or one of the dynamic ones STRTAB (3),
  RELA (4), HASH (5), DYNAMIC (6), REL (9) and DYNSYM (11), and otherwise of type OTHER. A breakpoint is met in the last case
  only, and nothing else of the machine changes.\<close>

theorem section_type_total:
  "\<exists>ty s'. uld_section_get_type s shdr name = Some (ty, s')
     \<and> ty \<in> {ULD_SECTION_FLAG_TYPE_FLASH, ULD_SECTION_FLAG_TYPE_MEM, ULD_SECTION_FLAG_TYPE_OTHER}
     \<and> s' \<in> {s, swbkpt s}
     \<and> (sh_flags (shdr_at (mem s) shdr) AND 2 = 0 \<longrightarrow> ty = ULD_SECTION_FLAG_TYPE_OTHER \<and> s' = s)
     \<and> (\<forall>bs. cs_is (mem s) (Ptr name) bs \<longrightarrow> sh_flags (shdr_at (mem s) shdr) AND 2 \<noteq> 0 \<longrightarrow>
          (let by_name = bs \<in> {map of_char ''.got'', map of_char ''.got.plt'', map of_char ''.data'', map of_char ''.bss''};
               by_type = sh_type (shdr_at (mem s) shdr) \<in> {1, 8, 14, 15, 16} \<union> {3, 4, 5, 6, 9, 11}
           in (ty = ULD_SECTION_FLAG_TYPE_MEM \<longleftrightarrow> by_name) \<and> (ty = ULD_SECTION_FLAG_TYPE_FLASH \<longleftrightarrow> \<not> by_name \<and> by_type)
             \<and> s' = (if by_name \<or> by_type then s else swbkpt s)))"
proof -
  let ?l = "[map of_char ''.got'', map of_char ''.got.plt'', map of_char ''.data'', map of_char ''.bss''] :: u8 list list"
  have l: "uld_section_mem_name_list = map Lit ?l" by (simp add: uld_section_mem_name_list_def)
  obtain b where b: "uld_section_is_mem_sec_by_name (mem s) (Ptr name) = Some b"
    using mem_name_list_Lit by blast
  have z: "\<forall>x\<in>set ?l. 0 \<notin> set x" by simp
  have nm: "bs \<in> {map of_char ''.got'', map of_char ''.got.plt'', map of_char ''.data'', map of_char ''.bss''} \<longleftrightarrow> b"
    if "cs_is (mem s) (Ptr name) bs" for bs
    using str_in_list_eq [OF z that] b unfolding uld_section_is_mem_sec_by_name_def l by simp
  define t where "t = sh_type (shdr_at (mem s) shdr)"
  define r where "r = (if sh_flags (shdr_at (mem s) shdr) AND 2 = 0 then (ULD_SECTION_FLAG_TYPE_OTHER, s)
     else if b then (ULD_SECTION_FLAG_TYPE_MEM, s)
     else if t \<in> {1, 8, 14, 15, 16} \<union> {3, 4, 5, 6, 9, 11} then (ULD_SECTION_FLAG_TYPE_FLASH, s)
     else (ULD_SECTION_FLAG_TYPE_OTHER, swbkpt s))"
  have run: "uld_section_get_type s shdr name = Some r"
    using b by (auto simp: uld_section_get_type_def Let_def r_def t_def elf_consts ULD_SECTION_FLAG_TYPE_DYNAMIC_def)
  have ne: "ULD_SECTION_FLAG_TYPE_MEM \<noteq> ULD_SECTION_FLAG_TYPE_FLASH" "ULD_SECTION_FLAG_TYPE_OTHER \<noteq> ULD_SECTION_FLAG_TYPE_FLASH"
    "ULD_SECTION_FLAG_TYPE_OTHER \<noteq> ULD_SECTION_FLAG_TYPE_MEM"
    by (simp_all add: sec_flag_defs)
  show ?thesis
    unfolding run t_def [symmetric]
    by (intro exI [of _ "fst r"] exI [of _ "snd r"]) (use nm ne in \<open>simp add: r_def Let_def\<close>)
qed

definition named_mem :: mem where
  "named_mem = (\<lambda>_. 0)(0x304 := 1, 0x308 := 2, 0x344 := 11, 0x348 := 2, 0x384 := 7, 0x388 := 2,
     0x400 := 46, 0x401 := 98, 0x402 := 115, 0x403 := 115)"

lemma named_mem_shdr:
  "sh_type (shdr_at named_mem 0x300) = 1" "sh_flags (shdr_at named_mem 0x300) = 2"
  "sh_type (shdr_at named_mem 0x340) = 11" "sh_flags (shdr_at named_mem 0x340) = 2"
  "sh_type (shdr_at named_mem 0x380) = 7" "sh_flags (shdr_at named_mem 0x380) = 2"
  by (simp_all add: shdr_at_def ld32_def) (simp_all add: named_mem_def)

lemma named_mem_names:
  "cs_is named_mem (Ptr 0x400) (map of_char ''.bss'')" "cs_is named_mem (Ptr 0x402) (map of_char ''ss'')"
  by (simp_all add: cs_is_Ptr_Cons) (simp_all add: cs_is_def named_mem_def)

theorem section_type_total_witness:
  "uld_section_get_type (mach0 named_mem) 0x300 0x400 = Some (ULD_SECTION_FLAG_TYPE_MEM, mach0 named_mem)
   \<and> uld_section_get_type (mach0 named_mem) 0x340 0x402 = Some (ULD_SECTION_FLAG_TYPE_FLASH, mach0 named_mem)
   \<and> uld_section_get_type (mach0 named_mem) 0x380 0x402 = Some (ULD_SECTION_FLAG_TYPE_OTHER, swbkpt (mach0 named_mem))"
proof -
  have m: "mem (mach0 named_mem) = named_mem" by (simp add: mach0_def)
  obtain t1 s1 where 1: "uld_section_get_type (mach0 named_mem) 0x300 0x400 = Some (t1, s1)"
    "t1 = ULD_SECTION_FLAG_TYPE_MEM \<and> s1 = mach0 named_mem"
    using section_type_total [of "mach0 named_mem" "0x300" "0x400"] named_mem_names(1)
    unfolding m named_mem_shdr by (fastforce simp: Let_def)
  obtain t2 s2 where 2: "uld_section_get_type (mach0 named_mem) 0x340 0x402 = Some (t2, s2)"
    "t2 = ULD_SECTION_FLAG_TYPE_FLASH \<and> s2 = mach0 named_mem"
    using section_type_total [of "mach0 named_mem" "0x340" "0x402"] named_mem_names(2)
    unfolding m named_mem_shdr by (fastforce simp: Let_def)
  obtain t3 s3 where 3: "uld_section_get_type (mach0 named_mem) 0x380 0x402 = Some (t3, s3)"
    "t3 = ULD_SECTION_FLAG_TYPE_OTHER \<and> s3 = swbkpt (mach0 named_mem)"
    using section_type_total [of "mach0 named_mem" "0x380" "0x402"] named_mem_names(2)
    unfolding m named_mem_shdr by (fastforce simp: Let_def)
  show ?thesis using 1 2 3 by simp
qed

lemma in_extent_nat:
  assumes "unat base + unat (sh_size (shdr_at m (sec_shdr sec))) < 2 ^ 32"
  shows "in_extent m ma base sec \<longleftrightarrow> unat base \<le> unat ma \<and> unat ma < unat base + unat (sh_size (shdr_at m (sec_shdr sec)))"
  using assms by (simp add: in_extent_def word_le_nat_alt word_less_nat_alt unat_word_ariths)

text \<open>C35 A lookup by load address always returns, and returns the first section of the
  list whose flags match and whose range \<open>[lma, lma + size)\<close> holds the address, when no range wraps around the end of the
  address space.\<close>

theorem find_by_lma_first:
  fixes m :: mem and lma :: u32
  defines "holds \<equiv> \<lambda>sec. unat (sec_lma sec) \<le> unat lma
      \<and> unat lma < unat (sec_lma sec) + unat (sh_size (shdr_at m (sec_shdr sec)))"
  assumes "\<forall>sec\<in>set secs. unat (sec_lma sec) + unat (sh_size (shdr_at m (sec_shdr sec))) < 2 ^ 32"
  shows "\<exists>r. uld_section_find_in_list_by_lma_flag m secs lma fmask fval = Some r
     \<and> (case r of
          Some i \<Rightarrow> i < length secs \<and> sec_flags (secs ! i) AND fmask = fval \<and> holds (secs ! i)
            \<and> (\<forall>j<i. sec_flags (secs ! j) AND fmask = fval \<longrightarrow> \<not> holds (secs ! j))
        | None \<Rightarrow> \<forall>sec\<in>set secs. sec_flags sec AND fmask = fval \<longrightarrow> \<not> holds sec)"
proof -
  have e: "in_extent m lma (sec_lma sec) sec \<longleftrightarrow> holds sec" if "sec \<in> set secs" for sec
    using in_extent_nat assms(2) that by (simp add: holds_def)
  show ?thesis
    unfolding uld_section_find_in_list_by_lma_flag_def find_in_list_by_lma_eq
    using e by (auto simp: first_idx_None_iff first_idx_Some_iff split: option.split)
qed

definition sized_sec :: "u32 \<Rightarrow> uld_section" where
  "sized_sec lma = \<lparr>sec_ehdr = 0, sec_phdr = 0, sec_shdr = 0x200, sec_name = 0, sec_lma = lma, sec_adjusted_lma = 0,
     sec_faddr = 0, sec_adjusted_vma = 0, sec_flags = 0, sec_phidx = 0, sec_shidx = 0\<rparr>"

theorem find_by_lma_first_witness:
  "uld_section_find_in_list_by_lma_flag ((\<lambda>_. 0)(0x214 := 8)) (map sized_sec [0x1000, 0x1008, 0x1004]) 0x1008 0 0 = Some (Some 1)"
proof -
  let ?m = "(\<lambda>_. 0 :: u8)(0x214 := 8) :: mem" and ?l = "map sized_sec [0x1000, 0x1008, 0x1004]"
  have z: "sh_size (shdr_at ?m 0x200) = 8" by (simp add: shdr_at_def ld32_def)
  have f: "sec_shdr (sized_sec a) = 0x200" "sec_lma (sized_sec a) = a" "sec_flags (sized_sec a) = 0" for a
    by (simp_all add: sized_sec_def)
  have len: "length ?l = 3" by simp
  have ok: "\<forall>sec\<in>set ?l. unat (sec_lma sec) + unat (sh_size (shdr_at ?m (sec_shdr sec))) < 2 ^ 32"
    by (simp add: z f)
  obtain r where r: "uld_section_find_in_list_by_lma_flag ?m ?l 0x1008 0 0 = Some r"
    and c: "case r of
       Some i \<Rightarrow> i < length ?l \<and> sec_flags (?l ! i) AND 0 = 0 \<and> (unat (sec_lma (?l ! i)) \<le> unat (0x1008 :: u32)
         \<and> unat (0x1008 :: u32) < unat (sec_lma (?l ! i)) + unat (sh_size (shdr_at ?m (sec_shdr (?l ! i)))))
         \<and> (\<forall>j<i. sec_flags (?l ! j) AND 0 = 0 \<longrightarrow> \<not> (unat (sec_lma (?l ! j)) \<le> unat (0x1008 :: u32)
             \<and> unat (0x1008 :: u32) < unat (sec_lma (?l ! j)) + unat (sh_size (shdr_at ?m (sec_shdr (?l ! j))))))
     | None \<Rightarrow> \<forall>sec\<in>set ?l. sec_flags sec AND 0 = 0 \<longrightarrow> \<not> (unat (sec_lma sec) \<le> unat (0x1008 :: u32)
             \<and> unat (0x1008 :: u32) < unat (sec_lma sec) + unat (sh_size (shdr_at ?m (sec_shdr sec))))"
    using find_by_lma_first [OF ok, of "0x1008" 0 0] by (elim exE conjE) (rule that)
  obtain i where i: "r = Some i" using c by (cases r) (simp_all add: z f)
  note ci = c [unfolded i option.case]
  have "i < 3" using ci len by metis
  have below: "\<not> (unat (sec_lma (?l ! j)) \<le> unat (0x1008 :: u32)
      \<and> unat (0x1008 :: u32) < unat (sec_lma (?l ! j)) + unat (sh_size (shdr_at ?m (sec_shdr (?l ! j)))))" if "j < i" for j
    using ci that by simp
  have "i \<noteq> 2" using below [of 1] by (auto simp: z f)
  moreover have "i \<noteq> 0"
  proof
    assume "i = 0"
    then show False using ci by (simp add: z f)
  qed
  ultimately have "i = 1" using \<open>i < 3\<close> by linarith
  then show ?thesis using r i by simp
qed

end
