(* ===== verification/Fs.thy ===== *)
theory Fs
  imports Sal
begin

text \<open>\<open>src/uld_fs.c\<close>: the linked table of files and the search for free space in the file store.\<close>

partial_function (option) fs_count_loop :: "mem \<Rightarrow> u32 \<Rightarrow> int \<Rightarrow> int option" where
  "fs_count_loop m pos cnt =
     (if pos \<noteq> 0 then fs_count_loop m (fse_next (fse_at m pos)) (cnt + 1) else Some cnt)"

definition uld_fs_get_file_count :: "mem \<Rightarrow> u32 \<Rightarrow> int option" where
  "uld_fs_get_file_count m head = fs_count_loop m head 0"

partial_function (option) uld_fs_get_file_by_index :: "mem \<Rightarrow> u32 \<Rightarrow> int \<Rightarrow> u32 option" where
  "uld_fs_get_file_by_index m pos index =
     (if pos \<noteq> 0
      then if index = 0 then Some pos
           else uld_fs_get_file_by_index m (fse_next (fse_at m pos)) (index - 1)
      else Some 0)"

partial_function (option) uld_fs_get_file_by_name :: "mem \<Rightarrow> u32 \<Rightarrow> cstr \<Rightarrow> u32 option" where
  "uld_fs_get_file_by_name m pos name =
     (if pos \<noteq> 0
      then Option.bind (uld_strcmp m (Ptr (fse_name (fse_at m pos))) name)
             (\<lambda>r. if r = 0 then Some pos
                  else uld_fs_get_file_by_name m (fse_next (fse_at m pos)) name)
      else Some 0)"

definition fs_insert :: "mem \<Rightarrow> u32 list \<Rightarrow> u32 \<Rightarrow> u32 list" where
  "fs_insert m fse_list pos =
     (case first_idx (\<lambda>q. fse_base (fse_at m pos) < fse_base (fse_at m q)) fse_list of
        Some i \<Rightarrow> take i fse_list @ pos # drop i fse_list
      | None \<Rightarrow> fse_list @ [pos])"

partial_function (option) fs_sort_loop :: "mem \<Rightarrow> u32 \<Rightarrow> u32 list \<Rightarrow> u32 list option" where
  "fs_sort_loop m pos fse_list =
     (if pos \<noteq> 0 then fs_sort_loop m (fse_next (fse_at m pos)) (fs_insert m fse_list pos)
      else Some fse_list)"

fun fs_gap_loop :: "mem \<Rightarrow> u32 \<Rightarrow> u32 \<Rightarrow> u32 list \<Rightarrow> u32 + u32" where
  "fs_gap_loop m size0 ptr [] = Inr ptr"
| "fs_gap_loop m size0 ptr (f # fs) =
     (if sint (fse_base (fse_at m f) - ptr) \<ge> sint size0 then Inl ptr
      else fs_gap_loop m size0 (fse_base (fse_at m f) + fse_size (fse_at m f)) fs)"

definition uld_fs_find_free_space :: "mem \<Rightarrow> u32 \<Rightarrow> u32 \<Rightarrow> u32 option" where
  "uld_fs_find_free_space m pstore size0 =
     (if pstore = 0 \<or> size0 = 0 then Some 0
      else let size1 = align_up size0 3; ps = pstore_at m pstore
           in do {
             fse_count \<leftarrow> uld_fs_get_file_count m (fst_head ps);
             fse_list \<leftarrow> fs_sort_loop m (fst_head ps) [];
             case fs_gap_loop m size1 (files_base ps) fse_list of
               Inl ptr \<Rightarrow> Some ptr
             | Inr ptr \<Rightarrow> Some (if sint (files_base ps + files_size ps - ptr) \<ge> sint size1
                               then ptr else 0) })"

fun fs_chain :: "mem \<Rightarrow> u32 \<Rightarrow> u32 list \<Rightarrow> bool" where
  "fs_chain m p [] \<longleftrightarrow> p = 0"
| "fs_chain m p (q # qs) \<longleftrightarrow> p = q \<and> q \<noteq> 0 \<and> fs_chain m (fse_next (fse_at m q)) qs"

lemma fs_chain_nonzero: "fs_chain m p qs \<Longrightarrow> q \<in> set qs \<Longrightarrow> q \<noteq> 0"
  by (induction qs arbitrary: p) auto

lemma fs_chain_functional: "fs_chain m p qs \<Longrightarrow> fs_chain m p rs \<Longrightarrow> qs = rs"
proof (induction qs arbitrary: p rs)
  case Nil
  then show ?case by (cases rs) auto
next
  case (Cons q qs)
  then show ?case by (cases rs) auto
qed

lemma fs_chain_append: "fs_chain m p (qs @ r # rs) \<Longrightarrow> fs_chain m r (r # rs)"
  by (induction qs arbitrary: p) auto

lemma fs_chain_distinct:
  assumes "fs_chain m p qs" shows "distinct qs"
proof (rule ccontr)
  assume "\<not> distinct qs"
  then obtain xs ys zs y where qs: "qs = xs @ [y] @ ys @ [y] @ zs"
    using not_distinct_decomp by blast
  then have "fs_chain m y (y # ys @ [y] @ zs)" using assms fs_chain_append [of m p xs y] by simp
  moreover have "fs_chain m y (y # zs)"
    using assms qs fs_chain_append [of m p "xs @ [y] @ ys" y zs] by simp
  ultimately have "y # ys @ [y] @ zs = y # zs" by (rule fs_chain_functional)
  then have "length (ys @ [y] @ zs) = length zs" by simp
  then show False by simp
qed

lemma fs_count_loop_eq: "fs_chain m p qs \<Longrightarrow> fs_count_loop m p c = Some (c + int (length qs))"
proof (induction qs arbitrary: p c)
  case Nil
  then show ?case by (subst fs_count_loop.simps) simp
next
  case (Cons q qs)
  then show ?case by (subst fs_count_loop.simps) simp
qed

lemma fs_by_index_eq:
  "fs_chain m p qs \<Longrightarrow> uld_fs_get_file_by_index m p i
     = Some (if 0 \<le> i \<and> nat i < length qs then qs ! nat i else 0)"
proof (induction qs arbitrary: p i)
  case Nil
  then show ?case by (subst uld_fs_get_file_by_index.simps) simp
next
  case (Cons q qs)
  have p: "p = q" "q \<noteq> 0" "fs_chain m (fse_next (fse_at m q)) qs" using Cons.prems by simp_all
  have IH: "uld_fs_get_file_by_index m (fse_next (fse_at m q)) (i - 1)
      = Some (if 0 \<le> i - 1 \<and> nat (i - 1) < length qs then qs ! nat (i - 1) else 0)"
    using p(3) by (rule Cons.IH)
  consider "i = 0" | "i < 0" | n where "i = 1 + int n" by (metis add.commute int_nat_eq linorder_not_le
        nat_0_le not_less_iff_gr_or_eq zless_iff_Suc_zadd zle_iff_zadd add.right_neutral int_Suc)
  then show ?case
  proof cases
    case 1
    then show ?thesis using p by (subst uld_fs_get_file_by_index.simps) simp
  next
    case 2
    then show ?thesis using p IH by (subst uld_fs_get_file_by_index.simps) simp
  next
    case 3
    then have "nat i = Suc n" by simp
    with 3 show ?thesis using p IH by (subst uld_fs_get_file_by_index.simps) simp
  qed
qed

lemma fs_by_name_eq:
  assumes "fs_chain m p qs" "\<forall>q\<in>set qs. cs_is m (Ptr (fse_name (fse_at m q))) (names q)"
    and "cs_is m name nm"
  shows "uld_fs_get_file_by_name m p name
     = Some (case first_idx (\<lambda>q. names q = nm) qs of Some i \<Rightarrow> qs ! i | None \<Rightarrow> 0)"
  using assms
proof (induction qs arbitrary: p)
  case Nil
  then show ?case by (subst uld_fs_get_file_by_name.simps) simp
next
  case (Cons q qs)
  then obtain r where r: "uld_strcmp m (Ptr (fse_name (fse_at m q))) name = Some r"
    "r = 0 \<longleftrightarrow> names q = nm" using uld_strcmp_eq by (metis list.set_intros(1))
  show ?case using Cons r
    by (subst uld_fs_get_file_by_name.simps) (auto split: option.splits)
qed

lemma fs_sort_loop_eq: "fs_chain m p qs \<Longrightarrow> fs_sort_loop m p acc = Some (foldl (fs_insert m) acc qs)"
proof (induction qs arbitrary: p acc)
  case Nil
  then show ?case by (subst fs_sort_loop.simps) simp
next
  case (Cons q qs)
  then show ?case by (subst fs_sort_loop.simps) simp
qed

lemma fs_insert_before:
  "fs_insert m xs pos = insert_before (\<lambda>q. unat (fse_base (fse_at m pos)) < unat (fse_base (fse_at m q))) pos xs"
  by (simp add: fs_insert_def insert_before_def word_less_nat_alt)

interpretation fs_ins: ordered_insert "\<lambda>pos xs. fs_insert m xs pos"
  "\<lambda>pos q. unat (fse_base (fse_at m pos)) < unat (fse_base (fse_at m q))"
  "\<lambda>q. unat (fse_base (fse_at m q))" "\<lambda>_. True"
  for m
  by unfold_locales (simp_all add: fs_insert_before)

lemma fs_sort_loop_sorted:
  assumes "fs_chain m p qs"
  shows "\<exists>fs. fs_sort_loop m p [] = Some fs \<and> sorted (map (\<lambda>q. unat (fse_base (fse_at m q))) fs)
      \<and> mset fs = mset qs"
  using fs_ins.fold_ins [of qs "[]" m] assms by (simp add: fs_sort_loop_eq)

definition fse_lo :: "mem \<Rightarrow> u32 \<Rightarrow> nat" where "fse_lo m f = unat (fse_base (fse_at m f))"
definition fse_hi :: "mem \<Rightarrow> u32 \<Rightarrow> nat" where
  "fse_hi m f = unat (fse_base (fse_at m f)) + unat (fse_size (fse_at m f))"

definition spans_disjoint :: "nat \<Rightarrow> nat \<Rightarrow> nat \<Rightarrow> nat \<Rightarrow> bool" where
  "spans_disjoint a b c d \<longleftrightarrow> b \<le> c \<or> d \<le> a"

fun fs_layout :: "mem \<Rightarrow> nat \<Rightarrow> nat \<Rightarrow> u32 list \<Rightarrow> bool" where
  "fs_layout m lo hi [] \<longleftrightarrow> lo \<le> hi"
| "fs_layout m lo hi (f # fs) \<longleftrightarrow> lo \<le> fse_lo m f \<and> fs_layout m (fse_hi m f) hi fs"

lemma fs_layout_ge: "fs_layout m lo hi fs \<Longrightarrow> f \<in> set fs \<Longrightarrow> lo \<le> fse_lo m f"
proof (induction fs arbitrary: lo)
  case Nil
  then show ?case by simp
next
  case (Cons g gs)
  moreover have "fse_lo m g \<le> fse_hi m g" by (simp add: fse_lo_def fse_hi_def)
  ultimately show ?case by (auto intro: order_trans)
qed

lemma fs_layout_hi: "fs_layout m lo hi fs \<Longrightarrow> lo \<le> hi"
proof (induction fs arbitrary: lo)
  case Nil
  then show ?case by simp
next
  case (Cons g gs)
  moreover have "fse_lo m g \<le> fse_hi m g" by (simp add: fse_lo_def fse_hi_def)
  ultimately show ?case by (auto intro: order_trans)
qed

lemma fs_layout_mono: "fs_layout m lo hi fs \<Longrightarrow> lo' \<le> lo \<Longrightarrow> fs_layout m lo' hi fs"
  by (cases fs) auto

lemma sint_diff_ge:
  assumes "unat p \<le> unat q" "sint size0 \<le> sint (q - p)" "unat (size0 :: u32) < 2 ^ 31"
  shows "unat p + unat size0 \<le> unat (q :: u32)"
proof -
  have "sint size0 = int (unat size0)" using assms(3) sint_small [of size0] by simp
  then have "int (unat size0) \<le> int (unat (q - p))"
    using assms(2) sint_le_unat [of "q - p"] by linarith
  then have "unat size0 \<le> unat (q - p)" by (simp only: of_nat_le_iff)
  moreover have "unat (q - p) = unat q - unat p"
    using assms(1) by (simp add: unat_sub word_le_nat_alt)
  ultimately show ?thesis using assms(1) by linarith
qed

lemma fs_gap_loop_sound:
  assumes "fs_layout m (unat ptr) hi fs" "unat size0 < 2 ^ 31" "hi < 2 ^ 32"
  shows "case fs_gap_loop m size0 ptr fs of
      Inl p \<Rightarrow> unat ptr \<le> unat p \<and> unat p + unat size0 \<le> hi
        \<and> (\<forall>f\<in>set fs. spans_disjoint (unat p) (unat p + unat size0) (fse_lo m f) (fse_hi m f))
    | Inr p \<Rightarrow> unat ptr \<le> unat p \<and> unat p \<le> hi \<and> (\<forall>f\<in>set fs. fse_hi m f \<le> unat p)"
  using assms
proof (induction fs arbitrary: ptr)
  case Nil
  then show ?case by simp
next
  case (Cons f fs)
  let ?q = "fse_base (fse_at m f) + fse_size (fse_at m f)"
  have le: "fse_lo m f \<le> fse_hi m f" by (simp add: fse_lo_def fse_hi_def)
  have fhi: "fse_hi m f \<le> hi" and lay: "fs_layout m (fse_hi m f) hi fs"
    using Cons.prems fs_layout_hi by auto
  then have q: "unat ?q = fse_hi m f"
    using Cons.prems(3) unat_add_of_nat [of "fse_base (fse_at m f)" "unat (fse_size (fse_at m f))"]
    by (simp add: fse_hi_def)
  show ?case
  proof (cases "sint (fse_base (fse_at m f) - ptr) \<ge> sint size0")
    case True
    have "unat ptr + unat size0 \<le> fse_lo m f"
      using Cons.prems True sint_diff_ge [of ptr "fse_base (fse_at m f)" size0] by (simp add: fse_lo_def)
    moreover have "fse_lo m f \<le> fse_lo m g" if "g \<in> set fs" for g
      using fs_layout_ge [OF lay that] le by (rule order_trans [rotated])
    ultimately show ?thesis using True le fhi by (fastforce simp: spans_disjoint_def)
  next
    case False
    have IH: "case fs_gap_loop m size0 ?q fs of
      Inl p \<Rightarrow> unat ?q \<le> unat p \<and> unat p + unat size0 \<le> hi
        \<and> (\<forall>f\<in>set fs. spans_disjoint (unat p) (unat p + unat size0) (fse_lo m f) (fse_hi m f))
    | Inr p \<Rightarrow> unat ?q \<le> unat p \<and> unat p \<le> hi \<and> (\<forall>f\<in>set fs. fse_hi m f \<le> unat p)"
      using Cons.prems lay q by (intro Cons.IH) auto
    have "unat ptr \<le> fse_lo m f" using Cons.prems by simp
    then show ?thesis using False IH q le
      by (auto simp: spans_disjoint_def split: sum.splits)
  qed
qed

text \<open>A table whose files lie inside the store, are non-empty and pairwise disjoint.\<close>

definition fs_area_ok :: "mem \<Rightarrow> u32 \<Rightarrow> u32 list \<Rightarrow> bool" where
  "fs_area_ok m pstore qs \<longleftrightarrow>
     (let ps = pstore_at m pstore; lo = unat (files_base ps); hi = lo + unat (files_size ps)
      in hi < 2 ^ 32
         \<and> (\<forall>f\<in>set qs. lo \<le> fse_lo m f \<and> fse_lo m f < fse_hi m f \<and> fse_hi m f \<le> hi)
         \<and> (\<forall>f\<in>set qs. \<forall>g\<in>set qs. f \<noteq> g \<longrightarrow>
               spans_disjoint (fse_lo m f) (fse_hi m f) (fse_lo m g) (fse_hi m g)))"

lemma sorted_layout:
  assumes "sorted (map (fse_lo m) fs)" "distinct fs" "lo \<le> hi"
    and "\<forall>f\<in>set fs. lo \<le> fse_lo m f \<and> fse_lo m f < fse_hi m f \<and> fse_hi m f \<le> hi"
    and "\<forall>f\<in>set fs. \<forall>g\<in>set fs. f \<noteq> g \<longrightarrow> spans_disjoint (fse_lo m f) (fse_hi m f) (fse_lo m g) (fse_hi m g)"
  shows "fs_layout m lo hi fs"
  using assms
proof (induction fs arbitrary: lo)
  case Nil
  then show ?case by simp
next
  case (Cons f fs)
  have "fse_hi m f \<le> fse_lo m g" if "g \<in> set fs" for g
  proof -
    have "spans_disjoint (fse_lo m f) (fse_hi m f) (fse_lo m g) (fse_hi m g)" "fse_lo m f \<le> fse_lo m g"
      "fse_lo m g < fse_hi m g"
      using Cons.prems that by auto
    then show ?thesis by (auto simp: spans_disjoint_def)
  qed
  then have "fs_layout m (fse_hi m f) hi fs"
    using Cons.prems by (intro Cons.IH) auto
  then show ?case using Cons.prems by simp
qed

lemma find_free_space_sound:
  assumes ch: "fs_chain m (fst_head (pstore_at m pstore)) qs" and ok: "fs_area_ok m pstore qs"
    and nz: "pstore \<noteq> 0" "size0 \<noteq> 0" and small: "unat (align_up size0 3) < 2 ^ 31"
  shows "\<exists>p. uld_fs_find_free_space m pstore size0 = Some p
     \<and> (p \<noteq> 0 \<longrightarrow> unat (files_base (pstore_at m pstore)) \<le> unat p
         \<and> unat p + unat (align_up size0 3)
             \<le> unat (files_base (pstore_at m pstore)) + unat (files_size (pstore_at m pstore))
         \<and> (\<forall>f\<in>set qs. spans_disjoint (unat p) (unat p + unat (align_up size0 3)) (fse_lo m f) (fse_hi m f)))"
proof -
  let ?ps = "pstore_at m pstore" and ?sz = "align_up size0 3"
  let ?lo = "unat (files_base ?ps)" and ?hi = "unat (files_base ?ps) + unat (files_size ?ps)"
  obtain fs where fs: "fs_sort_loop m (fst_head ?ps) [] = Some fs"
    "sorted (map (fse_lo m) fs)" "mset fs = mset qs"
    using fs_sort_loop_sorted [OF ch] by (auto simp: fse_lo_def [abs_def])
  have set: "set fs = set qs" using fs(3) by (metis set_mset_mset)
  have "distinct fs" using fs(3) fs_chain_distinct [OF ch] by (metis mset_eq_imp_distinct_iff)
  then have lay: "fs_layout m ?lo ?hi fs"
    using fs(2) ok by (intro sorted_layout) (auto simp: fs_area_ok_def Let_def set)
  have hi: "?hi < 2 ^ 32" using ok by (simp add: fs_area_ok_def Let_def)
  have e: "unat (files_base ?ps + files_size ?ps) = ?hi"
    using hi unat_add_of_nat [of "files_base ?ps" "unat (files_size ?ps)"] by simp
  note sound = fs_gap_loop_sound [OF lay small hi]
  have cnt: "uld_fs_get_file_count m (fst_head ?ps) = Some (int (length qs))"
    using ch by (simp add: uld_fs_get_file_count_def fs_count_loop_eq)
  show ?thesis
  proof (cases "fs_gap_loop m ?sz (files_base ?ps) fs")
    case (Inl p)
    then show ?thesis using sound nz cnt fs(1) set
      by (auto simp: uld_fs_find_free_space_def Let_def)
  next
    case (Inr p)
    then have p: "?lo \<le> unat p" "unat p \<le> ?hi" "\<forall>f\<in>set fs. fse_hi m f \<le> unat p"
      using sound by auto
    have "unat p + unat ?sz \<le> ?hi" if "sint (files_base ?ps + files_size ?ps - p) \<ge> sint ?sz"
      using sint_diff_ge [of p "files_base ?ps + files_size ?ps" ?sz] that p small e by simp
    then show ?thesis using p Inr nz cnt fs(1) set
      by (auto simp: uld_fs_find_free_space_def Let_def spans_disjoint_def)
  qed
qed

section \<open>Properties\<close>

text \<open>C11 On a table whose files lie inside the store, are not empty and do not
  overlap, the search for free space returns, and a non-null result is the start of a range of the
  requested (rounded up) size that lies inside the store and overlaps no file.\<close>

theorem find_free_space_disjoint:
  assumes "fs_chain m (fst_head (pstore_at m pstore)) qs" "fs_area_ok m pstore qs"
    and "pstore \<noteq> 0" "size0 \<noteq> 0" "unat (align_up size0 3) < 2 ^ 31"
  shows "\<exists>p. uld_fs_find_free_space m pstore size0 = Some p
     \<and> (p \<noteq> 0 \<longrightarrow> unat (files_base (pstore_at m pstore)) \<le> unat p
         \<and> unat p + unat (align_up size0 3)
             \<le> unat (files_base (pstore_at m pstore)) + unat (files_size (pstore_at m pstore))
         \<and> (\<forall>f\<in>set qs. spans_disjoint (unat p) (unat p + unat (align_up size0 3)) (fse_lo m f) (fse_hi m f)))"
  using assms by (rule find_free_space_sound)

theorem find_free_space_disjoint_witness:
  "\<exists>p. uld_fs_find_free_space ((\<lambda>_. 0)(0x105 := 0x80, 0x109 := 0x10, 0x10d := 2, 0x201 := 0x80, 0x208 := 0x10)) 0x100 0x20
     = Some p \<and> (p \<noteq> 0 \<longrightarrow> spans_disjoint (unat p) (unat p + 0x20) 0x8000 0x8010)"
proof -
  let ?m = "(\<lambda>_. 0 :: u8)(0x105 := 0x80, 0x109 := 0x10, 0x10d := 2, 0x201 := 0x80, 0x208 := 0x10) :: mem"
  have ps: "pstore_at ?m 0x100 = \<lparr>boot_action = 0, files_base = 0x8000, files_size = 0x1000, fst_head = 0x200,
      fst_table_base = 0, fst_table_size = 0, fst_crc = 0\<rparr>"
    by (simp add: pstore_at_def ld32_def)
  have f: "fse_at ?m 0x200 = \<lparr>fse_base = 0x8000, fse_next = 0, fse_size = 0x10, fse_crc = 0, fse_flags = 0,
      fse_name = 0x214\<rparr>"
    by (simp add: fse_at_def ld32_def)
  have al: "align_up 0x20 3 = 0x20" by (simp add: align_up_def)
  have "fs_chain ?m (fst_head (pstore_at ?m 0x100)) [0x200]" unfolding ps by (simp add: f)
  moreover have "fs_area_ok ?m 0x100 [0x200]"
    unfolding fs_area_ok_def ps by (simp add: fse_lo_def fse_hi_def f)
  ultimately obtain p where "uld_fs_find_free_space ?m 0x100 0x20 = Some p"
    "p \<noteq> 0 \<longrightarrow> (\<forall>g\<in>set [0x200]. spans_disjoint (unat p) (unat p + unat (align_up 0x20 3)) (fse_lo ?m g) (fse_hi ?m g))"
    using find_free_space_disjoint [of ?m "0x100" "[0x200]" "0x20"] al by auto
  then show ?thesis by (intro exI [of _ p]) (simp add: al fse_lo_def fse_hi_def f)
qed

text \<open>C26 On a linked table the count, the lookup by index and the lookup by name all return:
  the number of entries, the entry at an in-range index (null otherwise), and the first entry with that
  name (null if there is none).\<close>

theorem file_lookup:
  assumes "fs_chain m head qs" "\<forall>q\<in>set qs. cs_is m (Ptr (fse_name (fse_at m q))) (names q)" "cs_is m name nm"
  shows "uld_fs_get_file_count m head = Some (int (length qs))
    \<and> uld_fs_get_file_by_index m head i = Some (if 0 \<le> i \<and> nat i < length qs then qs ! nat i else 0)
    \<and> uld_fs_get_file_by_name m head name
        = Some (case first_idx (\<lambda>q. names q = nm) qs of Some k \<Rightarrow> qs ! k | None \<Rightarrow> 0)"
  using assms by (simp add: uld_fs_get_file_count_def fs_count_loop_eq fs_by_index_eq fs_by_name_eq)

theorem file_lookup_witness:
  "uld_fs_get_file_by_name ((\<lambda>_. 0)(0x205 := 3, 0x214 := 97, 0x314 := 98)) 0x200 (Lit [98]) = Some 0x300
   \<and> uld_fs_get_file_by_index ((\<lambda>_. 0)(0x205 := 3, 0x214 := 97, 0x314 := 98)) 0x200 1 = Some 0x300
   \<and> uld_fs_get_file_count ((\<lambda>_. 0)(0x205 := 3, 0x214 := 97, 0x314 := 98)) 0x200 = Some 2"
proof -
  let ?m = "(\<lambda>_. 0 :: u8)(0x205 := 3, 0x214 := 97, 0x314 := 98) :: mem"
  have f: "fse_next (fse_at ?m 0x200) = 0x300" "fse_next (fse_at ?m 0x300) = 0"
    "fse_name (fse_at ?m 0x200) = 0x214" "fse_name (fse_at ?m 0x300) = 0x314"
    by (simp_all add: fse_at_def ld32_def)
  have n: "cs_is ?m (Ptr 0x214) [97]" "cs_is ?m (Ptr 0x314) [98]" by (simp_all add: cs_is_def)
  show ?thesis
    using file_lookup [of ?m "0x200" "[0x200, 0x300]" "\<lambda>q. if q = 0x200 then [97] else [98]" "Lit [98]" "[98]" 1] f n
    by simp
qed

end
