(* ===== verification/Alloc.thy ===== *)
theory Alloc
  imports Prelude
begin

text \<open>Runs of an allocator that hands out one block after the other, and the contract under which the blocks of a run
  are disjoint. The memory of the loaded files is an instance of it.\<close>

text \<open>A run of an allocator whose state is the last block it gave out: the base and the size of the block. A request
  either takes the block at the next free base or takes none, which is recorded as the empty block at 0.\<close>

inductive alloc_run ::
    "(u32 \<Rightarrow> u32 \<Rightarrow> u32) \<Rightarrow> u32 \<times> u32 \<Rightarrow> (u32 \<times> u32) list \<Rightarrow> u32 \<times> u32 \<Rightarrow> bool" for fresh where
  alloc_done: "alloc_run fresh st [] st"
| alloc_skip: "alloc_run fresh st blocks st' \<Longrightarrow> alloc_run fresh st ((0, 0) # blocks) st'"
| alloc_take: "alloc_run fresh (fresh b n, k) blocks st' \<Longrightarrow>
    alloc_run fresh (b, n) ((fresh b n, k) # blocks) st'"

inductive_cases alloc_run_ConsE: "alloc_run fresh st (blk # blocks) st'"
inductive_simps alloc_run_Nil [simp]: "alloc_run fresh st [] st'"

definition block_end :: "u32 \<times> u32 \<Rightarrow> nat" where
  "block_end blk = unat (fst blk) + unat (snd blk)"

definition block_rng :: "u32 \<times> u32 \<Rightarrow> u32 set" where
  "block_rng blk = rng (fst blk) (unat (snd blk))"

lemma block_rng_empty [simp]: "block_rng (a, 0) = {}"
  by (simp add: block_rng_def)

lemma block_rng_linear:
  "block_end blk \<le> 2 ^ 32 \<Longrightarrow> a \<in> block_rng blk \<longleftrightarrow> unat (fst blk) \<le> unat a \<and> unat a < block_end blk"
  by (simp add: block_rng_def block_end_def rng_linear)

text \<open>The contract of a bump allocator: the next base is at or above the end of the last block and never below the
  limit, as long as there is room for the alignment.\<close>

locale bump_allocator =
  fixes fresh :: "u32 \<Rightarrow> u32 \<Rightarrow> u32" and lo :: u32 and slack :: nat
  assumes fresh_above: "lo \<le> b \<Longrightarrow> block_end (b, n) + slack \<le> 2 ^ 32 \<Longrightarrow>
      block_end (b, n) \<le> unat (fresh b n) \<and> lo \<le> fresh b n"
begin

lemma run_above:
  assumes "alloc_run fresh st blocks st'" "lo \<le> fst st" "block_end st + slack \<le> 2 ^ 32"
    and "\<forall>blk\<in>set blocks. block_end blk + slack \<le> 2 ^ 32"
  shows "block_end st \<le> block_end st' \<and> block_end st' + slack \<le> 2 ^ 32 \<and> lo \<le> fst st'
    \<and> (\<forall>blk\<in>set blocks. \<forall>a\<in>block_rng blk. block_end st \<le> unat a \<and> unat a < block_end st' \<and> lo \<le> a)"
  using assms
proof (induction rule: alloc_run.induct)
  case (alloc_take b n k blocks st')
  have f: "block_end (b, n) \<le> unat (fresh b n)" "lo \<le> fresh b n"
    using fresh_above [of b n] alloc_take.prems by simp_all
  note IH = alloc_take.IH [unfolded fst_conv, OF f(2)]
  have "block_end (fresh b n, k) + slack \<le> 2 ^ 32" using alloc_take.prems by simp
  moreover have "unat (fresh b n) \<le> block_end (fresh b n, k)" by (simp add: block_end_def)
  ultimately show ?case
    using IH f alloc_take.prems by (fastforce simp: block_rng_linear word_le_nat_alt)
qed auto

theorem run_disjoint:
  assumes "alloc_run fresh st blocks st'" "lo \<le> fst st" "block_end st + slack \<le> 2 ^ 32"
    and "\<forall>blk\<in>set blocks. block_end blk + slack \<le> 2 ^ 32" "i < j" "j < length blocks"
  shows "block_rng (blocks ! i) \<inter> block_rng (blocks ! j) = {}"
  using assms
proof (induction arbitrary: i j rule: alloc_run.induct)
  case (alloc_skip st blocks st')
  then show ?case by (cases i; cases j) auto
next
  case (alloc_take b n k blocks st')
  have f: "lo \<le> fresh b n" "block_end (fresh b n, k) + slack \<le> 2 ^ 32"
    using fresh_above [of b n] alloc_take.prems by simp_all
  note above = run_above [OF alloc_take.hyps, unfolded fst_conv, OF f]
  obtain j' where j: "j = Suc j'" "j' < length blocks" using alloc_take.prems by (cases j) auto
  show ?case
  proof (cases i)
    case 0
    have "block_rng (fresh b n, k) \<inter> block_rng (blocks ! j') = {}"
      using above alloc_take.prems(3) nth_mem [OF j(2)] f(2) by (fastforce simp: block_rng_linear)
    then show ?thesis using 0 j by simp
  next
    case (Suc i')
    then show ?thesis using alloc_take.IH [of i' j'] alloc_take.prems f j by simp
  qed
qed simp

end

end
