(* ===== verification/Load.thy ===== *)
theory Load
  imports Fs Alloc
begin

text \<open>\<open>src/uld_load.c\<close> up to \<open>uld_load_create_file\<close>: section descriptors, the sorted section lists, allocation of the
  memory sections.\<close>

record uld_file =
  uf_fse :: u32
  uf_flash :: "uld_section list"
  uf_mem :: "uld_section list"
  uf_other :: "uld_section list"
  uf_adjusted_entry :: u32
  uf_membase :: u32
  uf_memsz :: u32
  uf_flags :: u32

definition ULD_FILE_SECTION_MAX :: nat where "ULD_FILE_SECTION_MAX = 20"
definition ULD_FILE_FLAG_NONE :: u32 where "ULD_FILE_FLAG_NONE = 0"
definition ULD_FILE_FLAG_EXEC :: u32 where "ULD_FILE_FLAG_EXEC = 1"
definition ULD_LOAD_MEMBASE_ALIGNMENT :: nat where "ULD_LOAD_MEMBASE_ALIGNMENT = 3"

definition uld_file_idx_to_sec_type :: "nat \<Rightarrow> u32" where
  "uld_file_idx_to_sec_type idx = push_bit idx ULD_SECTION_FLAG_TYPE_FLASH"

definition uld_file_zero :: uld_file where
  "uld_file_zero = \<lparr>uf_fse = 0, uf_flash = [], uf_mem = [], uf_other = [], uf_adjusted_entry = 0,
     uf_membase = 0, uf_memsz = 0, uf_flags = 0\<rparr>"

definition uld_section_zero :: uld_section where
  "uld_section_zero = \<lparr>sec_ehdr = 0, sec_phdr = 0, sec_shdr = 0, sec_name = 0, sec_lma = 0,
     sec_adjusted_lma = 0, sec_faddr = 0, sec_adjusted_vma = 0, sec_flags = 0, sec_phidx = 0,
     sec_shidx = 0\<rparr>"

definition create_section_flags ::
    "machine \<Rightarrow> uld_section \<Rightarrow> (int \<times> uld_section \<times> machine) option" where
  "create_section_flags s sec = do {
     (ty, s') \<leftarrow> uld_section_get_type s (sec_shdr sec) (sec_name sec);
     let sec1 = sec\<lparr>sec_flags := sec_flags sec OR (ULD_SECTION_FLAG_VALID OR ty)\<rparr>;
     fixup \<leftarrow> uld_section_is_mem_sec_fixup_by_name (mem s') (Ptr (sec_name sec));
     Some (0, if fixup
              then sec1\<lparr>sec_flags := sec_flags sec1 OR ULD_SECTION_FLAG_STATUS_MEM_NEEDS_FIXUP\<rparr>
              else sec1, s') }"

definition create_section_addrs ::
    "machine \<Rightarrow> uld_section \<Rightarrow> u32 \<Rightarrow> u32 \<Rightarrow> u32 \<Rightarrow> (int \<times> uld_section \<times> machine) option" where
  "create_section_addrs s sec ehdr base shdr =
     (let m = mem s;
          (ret, seg) = elf32_get_segment_by_section m ehdr shdr True True;
          sec1 = (case seg of Some (phidx, phdr) \<Rightarrow> sec\<lparr>sec_phidx := phidx, sec_phdr := phdr\<rparr>
                            | None \<Rightarrow> sec)
      in if ret < 0 then Some (ret, sec1, s)
         else let (ret, out) = elf32_get_section_lma m ehdr shdr True;
                  sec2 = (case out of Some (lma, phidx) \<Rightarrow> sec1\<lparr>sec_lma := lma\<rparr> | None \<Rightarrow> sec1)
              in if ret < 0 then Some (ret, sec2, s)
                 else create_section_flags s
                        (sec2\<lparr>sec_adjusted_lma := elf32_adjust_lma m shdr base,
                              sec_adjusted_vma := elf32_adjust_vma m shdr base,
                              sec_faddr := elf32_get_section_flash_addr m shdr base,
                              sec_ehdr := ehdr, sec_shdr := shdr\<rparr>))"

definition uld_load_create_section ::
    "machine \<Rightarrow> uld_section \<Rightarrow> u32 \<Rightarrow> u32 \<Rightarrow> u32 \<Rightarrow> int \<Rightarrow> u32
       \<Rightarrow> (int \<times> uld_section \<times> machine) option" where
  "uld_load_create_section s sec0 ehdr base0 shdr shidx0 shstrtab_faddr =
     (if ehdr = 0 \<or> shdr = 0 then Some (- 1, sec0, s)
      else let m = mem s;
               sec1 = sec0\<lparr>sec_flags := ULD_SECTION_FLAG_NONE\<rparr>;
               base = (if base0 = 0 then ehdr else base0);
               shidx = (if shidx0 < 0 \<or> shidx0 \<ge> uint (e_shnum (ehdr_at m ehdr))
                        then elf32_get_shidx_by_section m ehdr base shdr else shidx0)
           in if shidx < 0 then Some (- 1, sec1, s)
              else let name = (if shstrtab_faddr = 0 then elf32_get_section_name m ehdr base shdr
                               else elf32_get_section_name_shstrtab_faddr m shdr shstrtab_faddr);
                       sec2 = sec1\<lparr>sec_shidx := shidx, sec_name := name\<rparr>
                   in if name = 0 then Some (- 1, sec2, s)
                      else create_section_addrs s sec2 ehdr base shdr)"

fun sec_count_loop ::
    "machine \<Rightarrow> u32 \<Rightarrow> u32 \<Rightarrow> int \<Rightarrow> (nat \<times> u32) list \<Rightarrow> (int \<times> machine) option" where
  "sec_count_loop s shstrtab_faddr type_mask cnt [] = Some (cnt, s)"
| "sec_count_loop s shstrtab_faddr type_mask cnt ((idx, shdr) # rest) = do {
     (ty, s') \<leftarrow> uld_section_get_type s shdr
                  (elf32_get_section_name_shstrtab_faddr (mem s) shdr shstrtab_faddr);
     sec_count_loop s' shstrtab_faddr type_mask
       (if ty AND type_mask \<noteq> 0 then cnt + 1 else cnt) rest }"

definition uld_load_get_sec_count :: "machine \<Rightarrow> u32 \<Rightarrow> u32 \<Rightarrow> u32 \<Rightarrow> (int \<times> machine) option" where
  "uld_load_get_sec_count s ehdr base type_mask =
     (if ehdr = 0 then Some (- 1, s)
      else let m = mem s;
               shstrtab = elf32_get_section_by_index m ehdr base (uint (e_shstrndx (ehdr_at m ehdr)));
               shstrtab_faddr = elf32_get_section_flash_addr m shstrtab ehdr
           in sec_count_loop s shstrtab_faddr type_mask 0 (elf32_for_each_shdr_base m ehdr base))"

definition sec_goes_before :: "mem \<Rightarrow> u32 \<Rightarrow> u32 \<Rightarrow> uld_section \<Rightarrow> bool" where
  "sec_goes_before m shdr sec_type at =
     (let ins_at_type = sec_flags at AND ULD_SECTION_FLAG_TYPE_MASK;
          sh = shdr_at m shdr; ash = shdr_at m (sec_shdr at)
      in sec_type < ins_at_type \<or>
         sec_type = ins_at_type \<and>
           (sh_addr sh \<noteq> 0 \<and> sh_addr sh < sh_addr ash \<or>
            sh_addr sh = 0 \<and> sh_offset sh < sh_offset ash))"

definition sec_insert_slot :: "uld_section list \<Rightarrow> nat \<Rightarrow> nat \<Rightarrow> uld_section list" where
  "sec_insert_slot sec_list sec_count ins_at =
     (if ins_at < sec_count
      then take (ins_at + 1) sec_list @ drop ins_at (take sec_count sec_list)
             @ drop (sec_count + 1) sec_list
      else sec_list)"

fun sec_list_loop ::
    "machine \<Rightarrow> u32 \<Rightarrow> u32 \<Rightarrow> u32 \<Rightarrow> nat \<Rightarrow> u32 \<Rightarrow> uld_section list \<Rightarrow> nat \<Rightarrow> (nat \<times> u32) list
       \<Rightarrow> (uld_section list \<times> nat \<times> machine) option" where
  "sec_list_loop s ehdr base shstrtab_faddr snum type_mask sec_list sec_count [] =
     Some (sec_list, sec_count, s)"
| "sec_list_loop s ehdr base shstrtab_faddr snum type_mask sec_list sec_count ((idx, shdr) # rest) = do {
     (sec_type, s1) \<leftarrow> uld_section_get_type s shdr
                        (elf32_get_section_name_shstrtab_faddr (mem s) shdr shstrtab_faddr);
     if sec_type AND type_mask = 0
     then sec_list_loop s1 ehdr base shstrtab_faddr snum type_mask sec_list sec_count rest
     else do {
       let ins_at = (case first_idx (sec_goes_before (mem s1) shdr sec_type) (take sec_count sec_list)
                     of Some i \<Rightarrow> i | None \<Rightarrow> sec_count);
       let shifted = sec_insert_slot sec_list sec_count ins_at;
       (ret, sec, s2) \<leftarrow> uld_load_create_section s1 (shifted ! ins_at) ehdr base shdr (int idx)
                           shstrtab_faddr;
       let sec_list' = shifted[ins_at := sec];
       if sec_count + 1 = snum then Some (sec_list', sec_count + 1, s2)
       else sec_list_loop s2 ehdr base shstrtab_faddr snum type_mask sec_list' (sec_count + 1) rest } }"

definition uld_load_create_sec_list ::
    "machine \<Rightarrow> u32 \<Rightarrow> u32 \<Rightarrow> uld_section list \<Rightarrow> int \<Rightarrow> u32
       \<Rightarrow> (int \<times> uld_section list \<times> machine) option" where
  "uld_load_create_sec_list s ehdr base sec_list snum type_mask =
     (if ehdr = 0 \<or> snum \<le> 0 then Some (- 1, sec_list, s)
      else let m = mem s;
               shstrtab = elf32_get_section_by_index m ehdr 0 (uint (e_shstrndx (ehdr_at m ehdr)));
               shstrtab_faddr = elf32_get_section_flash_addr m shstrtab ehdr
           in do {
             (sec_list', sec_count, s') \<leftarrow>
               sec_list_loop s ehdr base shstrtab_faddr (nat snum) type_mask sec_list 0
                 (elf32_for_each_shdr m ehdr);
             let last = sec_list' ! (sec_count - 1);
             Some (int sec_count,
               (if sec_count \<noteq> 0
                then sec_list'[sec_count - 1 := last\<lparr>sec_flags := sec_flags last OR ULD_SECTION_FLAG_LAST\<rparr>]
                else sec_list'), s') })"

definition uld_load_get_next_membase :: "u32 \<Rightarrow> u32 \<Rightarrow> u32 \<Rightarrow> u32" where
  "uld_load_get_next_membase bss_end last_membase last_memsize =
     align_up (if last_membase \<ge> bss_end then last_membase + last_memsize else bss_end)
       ULD_LOAD_MEMBASE_ALIGNMENT"

definition mem_gap :: "mem \<Rightarrow> uld_section \<Rightarrow> uld_section \<Rightarrow> int" where
  "mem_gap m prev sec =
     sint (sh_offset (shdr_at m (sec_shdr sec)) - sh_offset (shdr_at m (sec_shdr prev))
           - sh_size (shdr_at m (sec_shdr prev)))"

fun alloc_mem_loop ::
    "machine \<Rightarrow> int \<Rightarrow> uld_section option \<Rightarrow> u32 \<Rightarrow> u32 \<Rightarrow> uld_section list
       \<Rightarrow> u32 \<times> u32 \<times> uld_section list \<times> machine" where
  "alloc_mem_loop s phidx0 prev membase ptr [] = (membase, ptr, [], s)"
| "alloc_mem_loop s phidx0 prev membase ptr (sec # rest) =
     (if sec_flags sec AND ULD_SECTION_FLAG_TYPE_MEM = 0
      then case alloc_mem_loop s phidx0 (Some sec) membase ptr rest of
             (membase', ptr', rest', s') \<Rightarrow> (membase', ptr', sec # rest', s')
      else let s1 = (if sec_phidx sec \<noteq> phidx0 then swbkpt s else s);
               sh = shdr_at (mem s1) (sec_shdr sec);
               diff = (case prev of
                         None \<Rightarrow> 0
                       | Some p \<Rightarrow> if sh_type (shdr_at (mem s1) (sec_shdr p)) \<noteq> SHT_NOBITS
                                  then mem_gap (mem s1) p sec else 0);
               membase1 = (if diff > 0 then membase + word_of_int diff else membase);
               s2 = (if diff < 0 then swbkpt s1 else s1);
               s3 = (if sh_type sh \<noteq> SHT_NOBITS
                     then s2\<lparr>mem := uld_memcpy (mem s2) ptr (sec_adjusted_lma sec) (unat (sh_size sh))\<rparr>
                     else s2\<lparr>mem := uld_memset (mem s2) ptr 0 (unat (sh_size sh))\<rparr>);
               sec' = sec\<lparr>sec_adjusted_vma := ptr,
                          sec_flags := sec_flags sec OR ULD_SECTION_FLAG_STATUS_MEM_LOADED\<rparr>
           in case alloc_mem_loop s3 phidx0 (Some sec') membase1
                     (ptr + sh_size (shdr_at (mem s3) (sec_shdr sec))) rest of
                (membase', ptr', rest', s') \<Rightarrow> (membase', ptr', sec' # rest', s'))"

definition uld_load_alloc_mem_sections ::
    "machine \<Rightarrow> u32 \<Rightarrow> u32 \<Rightarrow> u32 \<Rightarrow> u32 \<Rightarrow> uld_section list
       \<Rightarrow> int \<times> u32 \<times> uld_section list \<times> machine" where
  "uld_load_alloc_mem_sections s ehdr base membase allocated mem_list =
     (if ehdr = 0 \<or> membase = 0 \<or> mem_list = [] then (- 1, allocated, mem_list, s)
      else case alloc_mem_loop s (sec_phidx (hd mem_list)) None membase membase mem_list of
             (membase', ptr, mem_list', s') \<Rightarrow> (0, ptr - membase', mem_list', s'))"

definition sec_idx_lut :: "nat list" where "sec_idx_lut = [1, 0, 2]"

definition set_secs :: "uld_file \<Rightarrow> nat \<Rightarrow> uld_section list \<Rightarrow> uld_file" where
  "set_secs uf idx secs =
     (if idx = 0 then uf\<lparr>uf_flash := secs\<rparr>
      else if idx = 1 then uf\<lparr>uf_mem := secs\<rparr> else uf\<lparr>uf_other := secs\<rparr>)"

fun create_file_loop ::
    "machine \<Rightarrow> u32 \<Rightarrow> u32 \<Rightarrow> uld_section list \<Rightarrow> int \<Rightarrow> uld_file \<Rightarrow> nat list
       \<Rightarrow> (uld_file \<times> machine) option" where
  "create_file_loop s ehdr type_mask sec_list snum uf [] = Some (uf, s)"
| "create_file_loop s ehdr type_mask sec_list snum uf (sec_idx # rest) =
     (if type_mask AND uld_file_idx_to_sec_type sec_idx = 0
      then create_file_loop s ehdr type_mask sec_list snum uf rest
      else do {
        (rnum, sec_list', s') \<leftarrow> uld_load_create_sec_list s ehdr 0 sec_list snum
                                   (uld_file_idx_to_sec_type sec_idx);
        if rnum > 0
        then create_file_loop s' ehdr type_mask (drop (nat rnum) sec_list') (snum - rnum)
               (set_secs uf sec_idx (take (nat rnum) sec_list')) rest
        else create_file_loop s' ehdr type_mask sec_list' snum uf rest })"

definition uld_load_create_file ::
    "machine \<Rightarrow> u32 \<Rightarrow> uld_section list \<Rightarrow> int \<Rightarrow> u32 \<Rightarrow> uld_file
       \<Rightarrow> (int \<times> uld_file \<times> machine) option" where
  "uld_load_create_file s fse sec_list snum type_mask ufile0 =
     (if fse = 0 \<or> snum \<le> 0 then Some (- 1, ufile0, s)
      else let ehdr = fse_base (fse_at (mem s) fse);
               uf = uld_file_zero\<lparr>uf_fse := fse,
                      uf_flags := ULD_FILE_FLAG_NONE OR
                        (if e_type (ehdr_at (mem s) ehdr) = ET_EXEC then ULD_FILE_FLAG_EXEC else 0)\<rparr>
           in do { (uf', s') \<leftarrow> create_file_loop s ehdr type_mask sec_list snum uf sec_idx_lut;
                   Some (0, uf', s') })"

lemma create_section_flags_ex:
  "\<exists>r k. \<forall>s. mem s = m \<longrightarrow> create_section_flags s sec = Some (0, r, bump k s)"
proof -
  obtain b where b: "uld_section_is_mem_sec_fixup_by_name m (Ptr (sec_name sec)) = Some b"
    using mem_fixup_list_Lit by blast
  show ?thesis
    by (intro exI [of _ "sec_type_bkpts m (sec_shdr sec) (sec_name sec)"] exI allI impI)
       (simp add: create_section_flags_def get_type_eq b Let_def)
qed

lemma create_section_addrs_ex:
  "\<exists>r sec k. \<forall>s. mem s = m \<longrightarrow> create_section_addrs s sec2 ehdr base shdr = Some (r, sec, bump k s)"
proof -
  obtain ret seg where 1: "elf32_get_segment_by_section m ehdr shdr True True = (ret, seg)" by fastforce
  obtain ret' out where 2: "elf32_get_section_lma m ehdr shdr True = (ret', out)" by fastforce
  define sec1 where "sec1 = (case seg of Some (phidx, phdr) \<Rightarrow> sec2\<lparr>sec_phidx := phidx, sec_phdr := phdr\<rparr>
                            | None \<Rightarrow> sec2)"
  define sec3 where "sec3 = (case out of Some (lma, phidx) \<Rightarrow> sec1\<lparr>sec_lma := lma\<rparr> | None \<Rightarrow> sec1)"
  obtain r k where 3: "\<And>s. mem s = m \<Longrightarrow> create_section_flags s
                        (sec3\<lparr>sec_adjusted_lma := elf32_adjust_lma m shdr base,
                              sec_adjusted_vma := elf32_adjust_vma m shdr base,
                              sec_faddr := elf32_get_section_flash_addr m shdr base,
                              sec_ehdr := ehdr, sec_shdr := shdr\<rparr>) = Some (0, r, bump k s)"
    using create_section_flags_ex by meson
  have "create_section_addrs s sec2 ehdr base shdr
      = (if ret < 0 then Some (ret, sec1, s) else if ret' < 0 then Some (ret', sec3, s)
         else Some (0, r, bump k s))" if "mem s = m" for s
    using that 3 [OF that]
    unfolding create_section_addrs_def Let_def that 1 2 prod.case sec1_def [symmetric] sec3_def [symmetric]
    by simp
  then show ?thesis by (metis bump_simps(3))
qed

lemma create_section_ex:
  "\<exists>r sec k. \<forall>s. mem s = m \<longrightarrow>
     uld_load_create_section s sec0 ehdr base0 shdr shidx0 shstrtab_faddr = Some (r, sec, bump k s)"
proof -
  define base where "base = (if base0 = 0 then ehdr else base0)"
  define shidx where "shidx = (if shidx0 < 0 \<or> shidx0 \<ge> uint (e_shnum (ehdr_at m ehdr))
                        then elf32_get_shidx_by_section m ehdr base shdr else shidx0)"
  define name where "name = (if shstrtab_faddr = 0 then elf32_get_section_name m ehdr base shdr
                               else elf32_get_section_name_shstrtab_faddr m shdr shstrtab_faddr)"
  define sec1 where "sec1 = sec0\<lparr>sec_flags := ULD_SECTION_FLAG_NONE\<rparr>"
  define sec2 where "sec2 = sec1\<lparr>sec_shidx := shidx, sec_name := name\<rparr>"
  obtain r sec k where 3: "\<And>s. mem s = m \<Longrightarrow> create_section_addrs s sec2 ehdr base shdr = Some (r, sec, bump k s)"
    using create_section_addrs_ex by meson
  have "uld_load_create_section s sec0 ehdr base0 shdr shidx0 shstrtab_faddr
      = (if ehdr = 0 \<or> shdr = 0 then Some (- 1, sec0, s) else if shidx < 0 then Some (- 1, sec1, s)
         else if name = 0 then Some (- 1, sec2, s) else Some (r, sec, bump k s))" if "mem s = m" for s
    using that 3 [OF that]
    unfolding uld_load_create_section_def Let_def that base_def [symmetric] shidx_def [symmetric]
      name_def [symmetric] sec1_def [symmetric] sec2_def [symmetric]
    by simp
  then show ?thesis by (metis bump_simps(3))
qed

subsection \<open>Section descriptors\<close>

definition name_at :: "mem \<Rightarrow> u32 \<Rightarrow> u32 \<Rightarrow> u32" where
  "name_at m str shdr = elf32_get_section_name_shstrtab_faddr m shdr str"

definition flags_type :: "uld_section \<Rightarrow> u32" where
  "flags_type sec = sec_flags sec AND ULD_SECTION_FLAG_TYPE_MASK"

lemma sec_type_of_cases:
  "sec_type_of m shdr name \<in> {ULD_SECTION_FLAG_TYPE_FLASH, ULD_SECTION_FLAG_TYPE_MEM, ULD_SECTION_FLAG_TYPE_OTHER}"
proof -
  obtain b where "uld_section_is_mem_sec_by_name m (Ptr name) = Some b" using mem_name_list_Lit by blast
  then show ?thesis
    by (auto simp: sec_type_of_def uld_section_get_type_def Let_def ULD_SECTION_FLAG_TYPE_DYNAMIC_def)
qed

lemma type_flags:
  assumes "ty \<in> {ULD_SECTION_FLAG_TYPE_FLASH, ULD_SECTION_FLAG_TYPE_MEM, ULD_SECTION_FLAG_TYPE_OTHER}"
  shows "(0 OR (ULD_SECTION_FLAG_VALID OR ty)) AND ULD_SECTION_FLAG_TYPE_MASK = ty"
    "((0 OR (ULD_SECTION_FLAG_VALID OR ty)) OR ULD_SECTION_FLAG_STATUS_MEM_NEEDS_FIXUP) AND ULD_SECTION_FLAG_TYPE_MASK = ty"
  using assms by (auto simp: sec_flag_defs)

lemma segment_ret_nonneg:
  "ehdr \<noteq> 0 \<Longrightarrow> shdr \<noteq> 0 \<Longrightarrow> \<exists>r idx p. elf32_get_segment_by_section m ehdr shdr True True = (r, Some (idx, p)) \<and> (r = 0 \<or> r = 1)"
  by (auto simp: elf32_get_segment_by_section_def Let_def split: option.splits)

lemma lma_ret_nonneg:
  assumes "ehdr \<noteq> 0" "shdr \<noteq> 0"
  shows "\<exists>r lma idx. elf32_get_section_lma m ehdr shdr True = (r, Some (lma, idx)) \<and> (r = 0 \<or> r = 1)"
  using segment_ret_nonneg [OF assms, of m] assms
  by (auto simp: elf32_get_section_lma_def Let_def)

lemma create_section_flags_ok:
  assumes "sec_flags sec = 0"
  shows "\<exists>fl k. create_section_flags s sec = Some (0, sec\<lparr>sec_flags := fl\<rparr>, bump k s)
    \<and> fl AND ULD_SECTION_FLAG_TYPE_MASK = sec_type_of (mem s) (sec_shdr sec) (sec_name sec)"
proof -
  obtain b where b: "uld_section_is_mem_sec_fixup_by_name (mem s) (Ptr (sec_name sec)) = Some b"
    using mem_fixup_list_Lit by blast
  show ?thesis
    using type_flags [OF sec_type_of_cases [of "mem s" "sec_shdr sec" "sec_name sec"]] b assms
    by (cases b) (auto simp: create_section_flags_def get_type_eq Let_def)
qed

lemma create_section_ok:
  assumes "ehdr \<noteq> 0" "shdr \<noteq> 0" "str \<noteq> 0" "name_at (mem s) str shdr \<noteq> 0"
    and "0 \<le> i" "i < uint (e_shnum (ehdr_at (mem s) ehdr))"
  shows "\<exists>sec k. uld_load_create_section s sec0 ehdr base shdr i str = Some (0, sec, bump k s)
    \<and> sec_shdr sec = shdr \<and> sec_ehdr sec = ehdr \<and> sec_shidx sec = i \<and> sec_name sec = name_at (mem s) str shdr
    \<and> flags_type sec = sec_type_of (mem s) shdr (name_at (mem s) str shdr)
    \<and> sec_adjusted_lma sec = elf32_adjust_lma (mem s) shdr (if base = 0 then ehdr else base)"
proof -
  let ?m = "mem s"
  define bs where "bs = (if base = 0 then ehdr else base)"
  obtain r idx p where seg: "elf32_get_segment_by_section ?m ehdr shdr True True = (r, Some (idx, p))" "\<not> r < 0"
    using segment_ret_nonneg [OF assms(1,2), of ?m] by auto
  obtain r' lma idx' where lma: "elf32_get_section_lma ?m ehdr shdr True = (r', Some (lma, idx'))" "\<not> r' < 0"
    using lma_ret_nonneg [OF assms(1,2), of ?m] by auto
  define sec where "sec = sec0\<lparr>sec_flags := 0, sec_shidx := i, sec_name := name_at ?m str shdr, sec_phidx := idx,
      sec_phdr := p, sec_lma := lma, sec_adjusted_lma := elf32_adjust_lma ?m shdr bs,
      sec_adjusted_vma := elf32_adjust_vma ?m shdr bs, sec_faddr := elf32_get_section_flash_addr ?m shdr bs,
      sec_ehdr := ehdr, sec_shdr := shdr\<rparr>"
  have "sec_flags sec = 0" by (simp add: sec_def)
  then obtain fl k where fl: "create_section_flags s sec = Some (0, sec\<lparr>sec_flags := fl\<rparr>, bump k s)"
    "fl AND ULD_SECTION_FLAG_TYPE_MASK = sec_type_of ?m (sec_shdr sec) (sec_name sec)"
    using create_section_flags_ok by blast
  have "uld_load_create_section s sec0 ehdr base shdr i str = create_section_flags s sec"
    using assms seg lma
    by (simp add: uld_load_create_section_def create_section_addrs_def Let_def sec_def name_at_def bs_def
        ULD_SECTION_FLAG_NONE_def)
  then show ?thesis using fl
    by (intro exI [of _ "sec\<lparr>sec_flags := fl\<rparr>"] exI [of _ k]) (simp add: sec_def flags_type_def bs_def)
qed

subsection \<open>Section lists\<close>

definition shstrtab_of :: "mem \<Rightarrow> u32 \<Rightarrow> u32" where
  "shstrtab_of m ehdr = elf32_get_section_flash_addr m
     (elf32_get_section_by_index m ehdr 0 (uint (e_shstrndx (ehdr_at m ehdr)))) ehdr"

definition type_at :: "mem \<Rightarrow> u32 \<Rightarrow> u32 \<Rightarrow> u32" where
  "type_at m str shdr = sec_type_of m shdr (name_at m str shdr)"

definition selected :: "mem \<Rightarrow> u32 \<Rightarrow> u32 \<Rightarrow> (nat \<times> u32) list \<Rightarrow> (nat \<times> u32) list" where
  "selected m str type_mask l = filter (\<lambda>(idx, shdr). type_at m str shdr AND type_mask \<noteq> 0) l"

lemma sec_count_loop_eq:
  "\<exists>k. sec_count_loop s str type_mask c l = Some (c + int (length (selected (mem s) str type_mask l)), bump k s)"
proof (induction l arbitrary: c s)
  case Nil
  then show ?case by (auto simp: selected_def intro: exI [of _ 0])
next
  case (Cons a l)
  obtain idx shdr where a: "a = (idx, shdr)" by fastforce
  let ?k = "sec_type_bkpts (mem s) shdr (name_at (mem s) str shdr)"
  have "\<exists>k. sec_count_loop (bump ?k s) str type_mask c' l
      = Some (c' + int (length (selected (mem s) str type_mask l)), bump k s)" for c'
    using Cons.IH [where s = "bump ?k s" and c = c'] by auto
  from this [of c] this [of "c + 1"] show ?case
    by (cases "type_at (mem s) str shdr AND type_mask \<noteq> 0")
      (auto simp: a get_type_eq selected_def type_at_def name_at_def [symmetric] add.assoc)
qed

lemma take_insert_slot:
  assumes "cnt < length arr"
    and "ins_at = (case first_idx P (take cnt arr) of Some i \<Rightarrow> i | None \<Rightarrow> cnt)"
  shows "take (Suc cnt) ((sec_insert_slot arr cnt ins_at)[ins_at := sec]) = insert_before P sec (take cnt arr)
    \<and> length (sec_insert_slot arr cnt ins_at) = length arr"
proof (cases "first_idx P (take cnt arr)")
  case None
  then have "ins_at = cnt" using assms(2) by simp
  then show ?thesis using None assms(1)
    by (simp add: sec_insert_slot_def insert_before_def take_Suc_conv_app_nth)
next
  case (Some i)
  then have i1: "ins_at = i" using assms(2) by simp
  have i2: "i < cnt" using Some assms(1) by (simp add: first_idx_Some_iff)
  note i = i1 i2
  let ?a = "take i arr" and ?b = "drop i (take cnt arr)" and ?c = "drop (cnt + 1) arr"
  have "take (i + 1) arr = ?a @ [arr ! i]" using i assms(1) by (simp add: take_Suc_conv_app_nth)
  then have s: "sec_insert_slot arr cnt ins_at = ?a @ arr ! i # ?b @ ?c"
    using i by (simp add: sec_insert_slot_def)
  have l: "length ?a = i" "length ?b = cnt - i" using i assms(1) by simp_all
  have u: "(sec_insert_slot arr cnt ins_at)[ins_at := sec] = ?a @ sec # ?b @ ?c"
    unfolding s using i(1) l(1) by (simp add: list_update_append)
  have t: "take (Suc cnt) (?a @ sec # ?b @ ?c) = ?a @ sec # ?b"
    using i assms(1) by (simp add: take_Cons' l)
  have "length (sec_insert_slot arr cnt ins_at) = length arr"
    unfolding s using i assms(1) by simp
  moreover have "insert_before P sec (take cnt arr) = ?a @ sec # ?b"
    using Some i by (simp add: insert_before_def min_def)
  ultimately show ?thesis using u t by simp
qed

definition sec_ins :: "mem \<Rightarrow> uld_section \<Rightarrow> uld_section list \<Rightarrow> uld_section list" where
  "sec_ins m x xs = insert_before (sec_goes_before m (sec_shdr x) (flags_type x)) x xs"

definition sec_key :: "mem \<Rightarrow> uld_section \<Rightarrow> nat" where
  "sec_key m x = unat (flags_type x) * 2 ^ 32 + unat (sh_addr (shdr_at m (sec_shdr x)))"

definition sec_addressed :: "mem \<Rightarrow> uld_section \<Rightarrow> bool" where
  "sec_addressed m x \<longleftrightarrow> sh_addr (shdr_at m (sec_shdr x)) \<noteq> 0"

lemma two_level_key:
  fixes a b c d :: nat
  assumes "b < M" "d < M"
  shows "a * M + b < c * M + d \<longleftrightarrow> a < c \<or> a = c \<and> b < d"
proof -
  have "a * M + b < c * M + d" if "a < c"
  proof -
    have "a * M + M \<le> c * M" using that by (metis Suc_leI mult_Suc mult_le_mono1 add.commute)
    then show ?thesis using assms by linarith
  qed
  moreover have "c * M + d < a * M + b" if "c < a"
  proof -
    have "c * M + M \<le> a * M" using that by (metis Suc_leI mult_Suc mult_le_mono1 add.commute)
    then show ?thesis using assms by linarith
  qed
  ultimately show ?thesis by (cases a c rule: linorder_cases) auto
qed

lemma sec_goes_before_key:
  "sec_addressed m x \<Longrightarrow> sec_goes_before m (sec_shdr x) (flags_type x) y \<longleftrightarrow> sec_key m x < sec_key m y"
  using two_level_key [of "unat (sh_addr (shdr_at m (sec_shdr x)))" "2 ^ 32" "unat (sh_addr (shdr_at m (sec_shdr y)))"
      "unat (flags_type x)" "unat (flags_type y)"]
  by (auto simp: sec_goes_before_def Let_def sec_key_def sec_addressed_def flags_type_def [symmetric]
      unat_lt32 [simplified] word_less_nat_alt word_unat_eq_iff)

definition sec_before :: "mem \<Rightarrow> uld_section \<Rightarrow> uld_section \<Rightarrow> bool" where
  "sec_before m x y \<longleftrightarrow> sec_goes_before m (sec_shdr x) (flags_type x) y"

lemma sec_before_type:
  "sec_before m x y \<Longrightarrow> flags_type x \<le> flags_type y"
  "\<not> sec_before m x y \<Longrightarrow> flags_type y \<le> flags_type x"
  by (auto simp: sec_before_def sec_goes_before_def Let_def flags_type_def)

interpretation sec_order: ordered_insert "sec_ins m" "sec_before m" "sec_key m" "sec_addressed m" for m
  by unfold_locales (simp_all add: sec_ins_def sec_before_def [abs_def] sec_goes_before_key)

interpretation sec_types: ordered_insert "sec_ins m" "sec_before m" "\<lambda>x. unat (flags_type x)" "\<lambda>_. True" for m
  by unfold_locales (simp_all add: sec_ins_def sec_before_def [abs_def] sec_before_type [unfolded sec_before_def]
      flip: word_le_nat_alt)

definition describes :: "mem \<Rightarrow> u32 \<Rightarrow> u32 \<Rightarrow> uld_section \<Rightarrow> nat \<times> u32 \<Rightarrow> bool" where
  "describes m ehdr str sec hx \<longleftrightarrow> sec_shidx sec = int (fst hx) \<and> sec_shdr sec = snd hx \<and> sec_ehdr sec = ehdr
     \<and> sec_name sec = name_at m str (snd hx) \<and> flags_type sec = type_at m str (snd hx)"

definition hdr_ok :: "mem \<Rightarrow> u32 \<Rightarrow> u32 \<Rightarrow> nat \<times> u32 \<Rightarrow> bool" where
  "hdr_ok m ehdr str hx \<longleftrightarrow> snd hx \<noteq> 0 \<and> name_at m str (snd hx) \<noteq> 0
     \<and> int (fst hx) < uint (e_shnum (ehdr_at m ehdr))"

lemma selected_Cons:
  "selected m str tmask (hx # l) = (if type_at m str (snd hx) AND tmask \<noteq> 0 then hx # selected m str tmask l
     else selected m str tmask l)"
  by (auto simp: selected_def split: prod.splits)

lemma sec_list_step:
  assumes "ehdr \<noteq> 0" "str \<noteq> 0" "mem s = m" "hdr_ok m ehdr str (idx, shdr)" "type_at m str shdr AND tmask \<noteq> 0"
    and "cnt < length arr"
  shows "\<exists>arr' sec k. sec_list_loop s ehdr base str snum tmask arr cnt ((idx, shdr) # l)
       = (if cnt + 1 = snum then Some (arr', cnt + 1, bump k s)
          else sec_list_loop (bump k s) ehdr base str snum tmask arr' (cnt + 1) l)
     \<and> length arr' = length arr \<and> describes m ehdr str sec (idx, shdr)
     \<and> take (Suc cnt) arr' = sec_ins m sec (take cnt arr)"
proof -
  let ?ty = "type_at m str shdr" and ?s1 = "bump (sec_type_bkpts m shdr (name_at m str shdr)) s"
  define ins_at where "ins_at = (case first_idx (sec_goes_before m shdr ?ty) (take cnt arr)
                     of Some i \<Rightarrow> i | None \<Rightarrow> cnt)"
  have get: "uld_section_get_type s shdr (elf32_get_section_name_shstrtab_faddr m shdr str) = Some (?ty, ?s1)"
    using assms(3) by (auto simp: get_type_eq type_at_def name_at_def)
  obtain sec k where sec: "uld_load_create_section ?s1 (sec_insert_slot arr cnt ins_at ! ins_at) ehdr base shdr (int idx) str
        = Some (0, sec, bump k ?s1)" "describes m ehdr str sec (idx, shdr)"
    using create_section_ok [of ehdr shdr str ?s1 "int idx" "sec_insert_slot arr cnt ins_at ! ins_at" base] assms
    by (auto simp: hdr_ok_def describes_def type_at_def)
  let ?arr = "(sec_insert_slot arr cnt ins_at)[ins_at := sec]"
  have "sec_shdr sec = shdr" "flags_type sec = ?ty" using sec(2) by (simp_all add: describes_def)
  then have "take (Suc cnt) ?arr = sec_ins m sec (take cnt arr)" "length ?arr = length arr"
    using take_insert_slot [OF assms(6) ins_at_def, of sec] by (simp_all add: sec_ins_def)
  moreover have "sec_list_loop s ehdr base str snum tmask arr cnt ((idx, shdr) # l)
       = (if cnt + 1 = snum then Some (?arr, cnt + 1, bump k ?s1)
          else sec_list_loop (bump k ?s1) ehdr base str snum tmask ?arr (cnt + 1) l)"
    using assms(3,5) get sec(1) ins_at_def [symmetric]
    by simp
  ultimately show ?thesis using sec(2) by (metis bump_simps(4))
qed

lemma sec_list_loop_full:
  assumes "ehdr \<noteq> 0" "str \<noteq> 0" "mem s = m" "\<forall>h\<in>set (selected m str tmask l). hdr_ok m ehdr str h"
    and "cnt + length (selected m str tmask l) \<le> snum" "cnt < snum" "snum \<le> length arr"
  shows "\<exists>arr' k secs. sec_list_loop s ehdr base str snum tmask arr cnt l
       = Some (arr', cnt + length (selected m str tmask l), bump k s)
     \<and> length arr' = length arr \<and> list_all2 (describes m ehdr str) secs (selected m str tmask l)
     \<and> take (cnt + length (selected m str tmask l)) arr'
        = foldl (\<lambda>acc x. sec_ins m x acc) (take cnt arr) secs"
  using assms
proof (induction l arbitrary: cnt s arr)
  case Nil
  then show ?case by (auto simp: selected_def intro: exI [of _ 0])
next
  case (Cons a l)
  obtain idx shdr where a: "a = (idx, shdr)" by fastforce
  show ?case
  proof (cases "type_at m str shdr AND tmask \<noteq> 0")
    case False
    let ?k = "sec_type_bkpts m shdr (name_at m str shdr)"
    have "sec_list_loop s ehdr base str snum tmask arr cnt (a # l)
        = sec_list_loop (bump ?k s) ehdr base str snum tmask arr cnt l"
      using False Cons.prems(3) by (auto simp: a get_type_eq type_at_def name_at_def)
    moreover have "selected m str tmask (a # l) = selected m str tmask l"
      using False by (simp add: a selected_Cons)
    ultimately show ?thesis
      using Cons.IH [of "bump ?k s" cnt arr] Cons.prems by (simp del: sec_list_loop.simps) (metis bump_simps(4))
  next
    case True
    then have sel: "selected m str tmask (a # l) = (idx, shdr) # selected m str tmask l"
      by (simp add: a selected_Cons)
    then have ok: "hdr_ok m ehdr str (idx, shdr)" using Cons.prems(4) by simp
    obtain arr1 sec k where step: "sec_list_loop s ehdr base str snum tmask arr cnt (a # l)
         = (if cnt + 1 = snum then Some (arr1, cnt + 1, bump k s)
            else sec_list_loop (bump k s) ehdr base str snum tmask arr1 (cnt + 1) l)"
      "length arr1 = length arr" "describes m ehdr str sec (idx, shdr)"
      "take (Suc cnt) arr1 = sec_ins m sec (take cnt arr)"
      using sec_list_step [OF Cons.prems(1-3) ok True, of cnt arr base snum l] Cons.prems(6,7) a by auto
    show ?thesis
    proof (cases "cnt + 1 = snum")
      case True
      then have "length (selected m str tmask l) = 0" using Cons.prems(5) unfolding sel by (simp only: list.size)
      then have "selected m str tmask l = []" by simp
      then show ?thesis using True step sel by (intro exI [of _ arr1] exI [of _ k] exI [of _ "[sec]"]) simp
    next
      case False
      obtain arr' k' secs where ih: "sec_list_loop (bump k s) ehdr base str snum tmask arr1 (Suc cnt) l
           = Some (arr', Suc cnt + length (selected m str tmask l), bump k' (bump k s))"
        "length arr' = length arr1" "list_all2 (describes m ehdr str) secs (selected m str tmask l)"
        "take (Suc cnt + length (selected m str tmask l)) arr'
          = foldl (\<lambda>acc x. sec_ins m x acc) (take (Suc cnt) arr1) secs"
        using Cons.IH [of "bump k s" "Suc cnt" arr1] Cons.prems False sel step(2) by auto
      show ?thesis
        using ih step False sel
        by (intro exI [of _ arr'] exI [of _ "k' + k"] exI [of _ "sec # secs"])
          (simp del: sec_list_loop.simps add: add.commute)
    qed
  qed
qed

definition sec_le :: "mem \<Rightarrow> uld_section \<Rightarrow> uld_section \<Rightarrow> bool" where
  "sec_le m x y \<longleftrightarrow> flags_type x < flags_type y
     \<or> flags_type x = flags_type y \<and> sh_addr (shdr_at m (sec_shdr x)) \<le> sh_addr (shdr_at m (sec_shdr y))"

lemma sec_key_le: "sec_key m x \<le> sec_key m y \<longleftrightarrow> sec_le m x y"
  using two_level_key [of "unat (sh_addr (shdr_at m (sec_shdr y)))" "2 ^ 32" "unat (sh_addr (shdr_at m (sec_shdr x)))"
      "unat (flags_type y)" "unat (flags_type x)"]
  by (auto simp: sec_le_def sec_key_def unat_lt32 [simplified] word_less_nat_alt word_le_nat_alt word_unat_eq_iff
      not_less [symmetric])

definition sec_view :: "uld_section \<Rightarrow> int \<times> u32 \<times> u32 \<times> u32" where
  "sec_view x = (sec_shidx x, sec_shdr x, sec_name x, flags_type x)"

lemma list_all2_describes_view:
  "list_all2 (describes m ehdr str) secs sel \<Longrightarrow>
   map sec_view secs = map (\<lambda>(i, h). (int i, h, name_at m str h, type_at m str h)) sel"
  by (induction rule: list_all2_induct) (auto simp: describes_def sec_view_def)

lemma flags_type_last [simp]:
  "flags_type (x\<lparr>sec_flags := sec_flags x OR ULD_SECTION_FLAG_LAST\<rparr>) = flags_type x"
  by (simp add: flags_type_def sec_flag_defs bit.conj_disj_distrib2)

definition mark_last :: "uld_section list \<Rightarrow> uld_section list" where
  "mark_last xs = xs[length xs - 1 := (last xs)\<lparr>sec_flags := sec_flags (last xs) OR ULD_SECTION_FLAG_LAST\<rparr>]"

lemma mark_last_view:
  "xs \<noteq> [] \<Longrightarrow> map sec_view (mark_last xs) = map sec_view xs"
  by (rule nth_equalityI) (auto simp: mark_last_def sec_view_def nth_list_update last_conv_nth)

lemma sorted_wrt_view:
  assumes "map sec_view xs = map sec_view ys" "sorted_wrt R ys"
    and "\<And>x y x' y'. sec_view x = sec_view x' \<Longrightarrow> sec_view y = sec_view y' \<Longrightarrow> R x' y' \<Longrightarrow> R x y"
  shows "sorted_wrt R xs"
proof -
  have l: "length xs = length ys" using assms(1) by (metis length_map)
  have "sec_view (xs ! i) = sec_view (ys ! i)" if "i < length xs" for i
    using assms(1) that l by (metis nth_map)
  then show ?thesis using assms(2,3) l
    unfolding sorted_wrt_iff_nth_less by (metis order_less_trans)
qed

lemma flags_last: "(x OR ULD_SECTION_FLAG_LAST) AND ULD_SECTION_FLAG_LAST \<noteq> 0"
proof -
  have "(x OR ULD_SECTION_FLAG_LAST) AND ULD_SECTION_FLAG_LAST = ULD_SECTION_FLAG_LAST"
    by (rule bit_word_eqI) (auto simp: bit_simps)
  then show ?thesis by (simp add: ULD_SECTION_FLAG_LAST_def)
qed

lemma selected_index:
  assumes "ehdr \<noteq> 0" "(i, h) \<in> set (selected m str tmask (elf32_for_each_shdr m ehdr))"
  shows "int i < uint (e_shnum (ehdr_at m ehdr))"
proof -
  have "i < unat (e_shnum (ehdr_at m ehdr))"
    using assms(2) unfolding selected_def elf32_for_each_shdr_def elf32_for_each_shdr_base_eq [OF assms(1)] by auto
  then have "int i < int (unat (e_shnum (ehdr_at m ehdr)))" by (simp only: of_nat_less_iff)
  then show ?thesis by simp
qed

lemma list_all2_describes_set:
  assumes "list_all2 (describes m ehdr str) secs sel" "x \<in> set secs"
  shows "\<exists>h\<in>set sel. sec_shdr x = snd h"
  using assms by (induction rule: list_all2_induct) (auto simp: describes_def)

lemma secs_sorted:
  assumes "list_all2 (describes m ehdr str) secs sel" "xs = foldl (\<lambda>acc x. sec_ins m x acc) [] secs"
  shows "sorted_wrt (\<lambda>x y. flags_type x \<le> flags_type y) xs"
    and "\<forall>(i, h)\<in>set sel. sh_addr (shdr_at m h) \<noteq> 0 \<Longrightarrow> sorted_wrt (sec_le m) xs"
proof -
  show "sorted_wrt (\<lambda>x y. flags_type x \<le> flags_type y) xs"
    using sec_types.fold_ins [of secs "[]" m] assms(2) by (simp add: sorted_map word_le_nat_alt)
  assume *: "\<forall>(i, h)\<in>set sel. sh_addr (shdr_at m h) \<noteq> 0"
  have "\<forall>x\<in>set secs. sec_addressed m x"
  proof
    fix x assume "x \<in> set secs"
    then obtain h where "h \<in> set sel" "sec_shdr x = snd h"
      using list_all2_describes_set [OF assms(1)] by blast
    then show "sec_addressed m x" using * by (auto simp: sec_addressed_def)
  qed
  then show "sorted_wrt (sec_le m) xs"
    using sec_order.fold_ins [of secs m "[]"] assms(2) by (simp add: sorted_map sec_key_le)
qed

text \<open>C15 Creating a section list of a file: when the selected headers (those whose section
  type is in the mask) fit, all of them are described in the list and nothing else, the list is sorted by
  type, its last entry carries the LAST mark, and memory is unchanged. When no selected header has the address
  zero, the sections of one type are sorted by address as well. A section with address zero is placed by its
  file offset among the sections of its type, so a list that has one need not be sorted by address.\<close>

theorem sec_list_sorted:
  fixes s :: machine and ehdr tmask str :: u32 and arr :: "uld_section list" and snum :: int
    and sel :: "(nat \<times> u32) list"
  defines "str \<equiv> shstrtab_of (mem s) ehdr"
    and "sel \<equiv> selected (mem s) (shstrtab_of (mem s) ehdr) tmask (elf32_for_each_shdr (mem s) ehdr)"
  assumes "ehdr \<noteq> 0" "0 < snum" "nat snum \<le> length arr" "str \<noteq> 0" "length sel \<le> nat snum"
    and "\<forall>(i, h)\<in>set sel. h \<noteq> 0 \<and> name_at (mem s) str h \<noteq> 0"
  shows "\<exists>arr' k. uld_load_create_sec_list s ehdr base arr snum tmask = Some (int (length sel), arr', bump k s)
    \<and> length arr' = length arr
    \<and> mset (map sec_view (take (length sel) arr'))
        = mset (map (\<lambda>(i, h). (int i, h, name_at (mem s) str h, type_at (mem s) str h)) sel)
    \<and> sorted_wrt (\<lambda>x y. flags_type x \<le> flags_type y) (take (length sel) arr')
    \<and> ((\<forall>(i, h)\<in>set sel. sh_addr (shdr_at (mem s) h) \<noteq> 0) \<longrightarrow> sorted_wrt (sec_le (mem s)) (take (length sel) arr'))
    \<and> (sel \<noteq> [] \<longrightarrow> sec_flags (arr' ! (length sel - 1)) AND ULD_SECTION_FLAG_LAST \<noteq> 0)"
proof -
  let ?m = "mem s" and ?n = "length sel"
  have "\<forall>(i, h)\<in>set sel. int i < uint (e_shnum (ehdr_at ?m ehdr))"
    unfolding sel_def using selected_index [OF assms(3)] by blast
  then have ok: "\<forall>h\<in>set sel. hdr_ok ?m ehdr str h" using assms(8) by (auto simp: hdr_ok_def)
  obtain arr' k secs where loop:
    "sec_list_loop s ehdr base str (nat snum) tmask arr 0 (elf32_for_each_shdr ?m ehdr) = Some (arr', ?n, bump k s)"
    "length arr' = length arr" "list_all2 (describes ?m ehdr str) secs sel"
    "take ?n arr' = foldl (\<lambda>acc x. sec_ins ?m x acc) [] secs"
    using sec_list_loop_full [of ehdr str s ?m tmask "elf32_for_each_shdr ?m ehdr" 0 "nat snum" arr base]
      assms(3-7) ok unfolding sel_def str_def by auto
  have view: "map sec_view secs = map (\<lambda>(i, h). (int i, h, name_at ?m str h, type_at ?m str h)) sel"
    using loop(3) by (rule list_all2_describes_view)
  have ms: "mset (take ?n arr') = mset secs" using loop(4) by (simp add: sec_types.fold_ins_mset)
  note srt = secs_sorted [OF loop(3,4)]
  define arr2 where "arr2 = (if ?n \<noteq> 0 then arr'[?n - 1 := (arr' ! (?n - 1))\<lparr>sec_flags := sec_flags (arr' ! (?n - 1)) OR ULD_SECTION_FLAG_LAST\<rparr>] else arr')"
  have len: "?n \<le> length arr'" using loop(2) assms(5,7) by simp
  have run: "uld_load_create_sec_list s ehdr base arr snum tmask = Some (int ?n, arr2, bump k s)"
    using assms(3,4) loop(1) unfolding uld_load_create_sec_list_def Let_def shstrtab_of_def [symmetric] str_def arr2_def
    by simp
  have vw: "map sec_view (take ?n arr2) = map sec_view (take ?n arr')"
    using len by (auto simp: arr2_def sec_view_def nth_list_update intro!: nth_equalityI)
  have "sel \<noteq> [] \<longrightarrow> sec_flags (arr2 ! (?n - 1)) AND ULD_SECTION_FLAG_LAST \<noteq> 0"
  proof
    assume "sel \<noteq> []"
    then have "?n - 1 < length arr'" using len by (cases sel) simp_all
    then show "sec_flags (arr2 ! (?n - 1)) AND ULD_SECTION_FLAG_LAST \<noteq> 0"
      using \<open>sel \<noteq> []\<close> by (simp add: arr2_def) (simp add: ULD_SECTION_FLAG_LAST_def)
  qed
  moreover have "mset (map sec_view (take ?n arr2)) = mset (map sec_view secs)"
    using vw ms by (metis mset_map)
  moreover have "length arr2 = length arr" using loop(2) by (simp add: arr2_def)
  moreover have "sorted_wrt (\<lambda>x y. flags_type x \<le> flags_type y) (take ?n arr2)"
    by (rule sorted_wrt_view [OF vw srt(1)]) (simp add: sec_view_def)
  moreover have "sorted_wrt (sec_le ?m) (take ?n arr2)" if "\<forall>(i, h)\<in>set sel. sh_addr (shdr_at ?m h) \<noteq> 0"
    by (rule sorted_wrt_view [OF vw srt(2) [OF that]]) (simp add: sec_view_def sec_le_def)
  moreover note run
  ultimately show ?thesis unfolding view by blast
qed

definition secs_mem :: mem where
  "secs_mem = (\<lambda>_. 0)(0x130 := 3, 0x12e := 40, 0x120 := 52, 0x168 := 8, 0x190 := 4)"

lemma secs_mem_ehdr:
  "e_shnum (ehdr_at secs_mem 0x100) = 3" "e_shentsize (ehdr_at secs_mem 0x100) = 40"
  "e_shoff (ehdr_at secs_mem 0x100) = 52" "e_shstrndx (ehdr_at secs_mem 0x100) = 0"
  by (simp_all add: ehdr_at_def ld32_def ld16_def) (simp_all add: secs_mem_def)

lemma secs_mem_shdr:
  "sh_addr (shdr_at secs_mem 0x15c) = 8" "sh_addr (shdr_at secs_mem 0x184) = 4"
  "sh_name (shdr_at secs_mem 0x15c) = 0" "sh_name (shdr_at secs_mem 0x184) = 0"
  "sh_flags (shdr_at secs_mem 0x15c) = 0" "sh_flags (shdr_at secs_mem 0x184) = 0"
  "sh_offset (shdr_at secs_mem 0x134) = 0"
  by (simp_all add: shdr_at_def ld32_def) (simp_all add: secs_mem_def)

lemma secs_mem_list: "elf32_for_each_shdr secs_mem 0x100 = [(1, 0x15c), (2, 0x184)]"
  by (simp add: elf32_for_each_shdr_def elf32_for_each_shdr_base_eq secs_mem_ehdr upt_rec
      elf32_get_section_by_index_def Let_def)

lemma secs_mem_shstrtab: "shstrtab_of secs_mem 0x100 = 0x100"
  by (simp add: shstrtab_of_def secs_mem_ehdr elf32_get_section_by_index_def Let_def
      elf32_get_section_flash_addr_def secs_mem_shdr)

lemma secs_mem_name:
  "name_at secs_mem 0x100 0x15c = 0x100" "name_at secs_mem 0x100 0x184 = 0x100"
  by (simp_all add: name_at_def elf32_get_section_name_shstrtab_faddr_def secs_mem_shdr)

lemma secs_mem_type:
  "type_at secs_mem 0x100 0x15c = ULD_SECTION_FLAG_TYPE_OTHER" "type_at secs_mem 0x100 0x184 = ULD_SECTION_FLAG_TYPE_OTHER"
  by (simp_all add: type_at_def sec_type_of_def uld_section_get_type_def Let_def mach0_def secs_mem_shdr)

lemma secs_mem_selected:
  "selected secs_mem 0x100 ULD_SECTION_FLAG_TYPE_OTHER [(Suc 0, 0x15c), (2, 0x184)] = [(Suc 0, 0x15c), (2, 0x184)]"
  by (simp add: selected_Cons secs_mem_type ULD_SECTION_FLAG_TYPE_OTHER_def) (simp add: selected_def ULD_SECTION_FLAG_TYPE_OTHER_def)

theorem sec_list_sorted_witness:
  "\<exists>arr' k. uld_load_create_sec_list (mach0 secs_mem) 0x100 0 [uld_section_zero, uld_section_zero] 2 ULD_SECTION_FLAG_TYPE_OTHER
     = Some (2, arr', bump k (mach0 secs_mem))
   \<and> mset (map sec_view (take 2 arr'))
      = {#(1, 0x15c, 0x100, ULD_SECTION_FLAG_TYPE_OTHER), (2, 0x184, 0x100, ULD_SECTION_FLAG_TYPE_OTHER)#}
   \<and> sorted_wrt (sec_le secs_mem) (take 2 arr')"
  using sec_list_sorted [of "0x100" 2 "[uld_section_zero, uld_section_zero]" "mach0 secs_mem" ULD_SECTION_FLAG_TYPE_OTHER 0]
  by (auto simp: mach0_def secs_mem_shstrtab secs_mem_list secs_mem_selected secs_mem_name secs_mem_type secs_mem_shdr)

lemma sec_count_loop_mem: "sec_count_loop s str tmask cnt l = Some (c, s1) \<Longrightarrow> mem s1 = mem s"
  by (induction l arbitrary: s cnt) (auto simp: get_type_eq elim!: bind_SomeE)

lemma get_sec_count_mem: "uld_load_get_sec_count s ehdr base tmask = Some (c, s1) \<Longrightarrow> mem s1 = mem s"
  unfolding uld_load_get_sec_count_def by (auto simp: Let_def split: if_splits dest!: sec_count_loop_mem)

lemma insert_slot_length:
  assumes "cnt < length arr"
    and "ins_at = (case first_idx P (take cnt arr) of Some i \<Rightarrow> i | None \<Rightarrow> cnt)"
  shows "length (sec_insert_slot arr cnt ins_at) = length arr"
  using take_insert_slot [OF assms] by blast

lemma sec_list_loop_count:
  assumes "cnt < snum" "snum \<le> length arr"
  shows "\<exists>arr' k. sec_list_loop s ehdr base str snum tmask arr cnt l
     = Some (arr', min snum (cnt + length (selected (mem s) str tmask l)), bump k s) \<and> length arr' = length arr"
  using assms
proof (induction l arbitrary: cnt s arr)
  case Nil
  then show ?case by (auto simp: selected_def intro!: exI [of _ 0])
next
  case (Cons a l)
  obtain idx shdr where a: "a = (idx, shdr)" by fastforce
  let ?m = "mem s" and ?ty = "type_at (mem s) str shdr"
  let ?k = "sec_type_bkpts ?m shdr (name_at ?m str shdr)"
  have get: "uld_section_get_type s shdr (elf32_get_section_name_shstrtab_faddr ?m shdr str) = Some (?ty, bump ?k s)"
    by (auto simp: get_type_eq type_at_def name_at_def)
  show ?case
  proof (cases "?ty AND tmask = 0")
    case True
    then show ?thesis
      using Cons.IH [OF Cons.prems, where s = "bump ?k s"] get
      by (auto simp: a selected_Cons)
  next
    case False
    define ins_at where "ins_at = (case first_idx (sec_goes_before ?m shdr ?ty) (take cnt arr)
                     of Some i \<Rightarrow> i | None \<Rightarrow> cnt)"
    obtain r sec k where sec: "uld_load_create_section (bump ?k s) (sec_insert_slot arr cnt ins_at ! ins_at) ehdr base
        shdr (int idx) str = Some (r, sec, bump k (bump ?k s))"
      using create_section_ex [of ?m] by (metis bump_simps(1))
    let ?arr = "(sec_insert_slot arr cnt ins_at)[ins_at := sec]"
    have len: "length ?arr = length arr" using insert_slot_length [OF _ ins_at_def] Cons.prems by simp
    have step: "sec_list_loop s ehdr base str snum tmask arr cnt (a # l)
       = (if cnt + 1 = snum then Some (?arr, cnt + 1, bump (k + ?k) s)
          else sec_list_loop (bump (k + ?k) s) ehdr base str snum tmask ?arr (cnt + 1) l)"
      using False get sec ins_at_def [symmetric] by (simp add: a)
    show ?thesis
    proof (cases "cnt + 1 = snum")
      case True
      then show ?thesis using step len False by (auto simp: a selected_Cons)
    next
      case f: False
      then have "cnt + 1 < snum" using Cons.prems(1) by simp
      then show ?thesis
        using Cons.IH [where cnt = "cnt + 1" and arr = ?arr and s = "bump (k + ?k) s"] Cons.prems(2) len f False
        unfolding step by (auto simp: a selected_Cons)
    qed
  qed
qed

text \<open>C37 The section count of a file and its section list agree: the count is the number n of
  headers whose section type is in the mask, and building the list for the same mask in an array with room for snum
  entries fills exactly the smaller of n and snum of them, whether or not the single descriptors can be created. So an
  array of the counted size is filled completely, and a smaller one up to its end.\<close>

theorem sec_count_agrees:
  fixes s :: machine and ehdr tmask :: u32 and n :: nat
  defines "n \<equiv> length (selected (mem s) (shstrtab_of (mem s) ehdr) tmask (elf32_for_each_shdr (mem s) ehdr))"
  assumes "ehdr \<noteq> 0" "0 < snum" "nat snum \<le> length arr"
  shows "\<exists>k arr' k'. uld_load_get_sec_count s ehdr 0 tmask = Some (int n, bump k s)
     \<and> uld_load_create_sec_list s ehdr base arr snum tmask = Some (min (int n) snum, arr', bump k' s)
     \<and> length arr' = length arr"
proof -
  have "\<exists>k. uld_load_get_sec_count s ehdr 0 tmask = Some (int n, bump k s)"
    using assms(2) sec_count_loop_eq [of s "shstrtab_of (mem s) ehdr" tmask 0 "elf32_for_each_shdr (mem s) ehdr"]
    by (simp add: uld_load_get_sec_count_def Let_def shstrtab_of_def elf32_for_each_shdr_def n_def)
  moreover obtain arr' k where "sec_list_loop s ehdr base (shstrtab_of (mem s) ehdr) (nat snum) tmask arr 0
      (elf32_for_each_shdr (mem s) ehdr) = Some (arr', min (nat snum) n, bump k s)" "length arr' = length arr"
    using sec_list_loop_count [of 0 "nat snum" arr s ehdr base "shstrtab_of (mem s) ehdr" tmask
        "elf32_for_each_shdr (mem s) ehdr"] assms(3,4) by (auto simp: n_def)
  moreover have "int (min (nat snum) n) = min (int n) snum" using assms(3) by (simp add: min.commute of_nat_min)
  ultimately show ?thesis
    using assms(2,3) unfolding uld_load_create_sec_list_def Let_def shstrtab_of_def [symmetric] by auto
qed

theorem sec_count_agrees_witness:
  "\<exists>k arr' k' arr'' k''. uld_load_get_sec_count (mach0 secs_mem) 0x100 0 ULD_SECTION_FLAG_TYPE_OTHER
       = Some (2, bump k (mach0 secs_mem))
   \<and> uld_load_create_sec_list (mach0 secs_mem) 0x100 0 [uld_section_zero, uld_section_zero] 2 ULD_SECTION_FLAG_TYPE_OTHER
       = Some (2, arr', bump k' (mach0 secs_mem))
   \<and> uld_load_create_sec_list (mach0 secs_mem) 0x100 0 [uld_section_zero] 1 ULD_SECTION_FLAG_TYPE_OTHER
       = Some (1, arr'', bump k'' (mach0 secs_mem))"
  using sec_count_agrees [of "0x100" 2 "[uld_section_zero, uld_section_zero]" "mach0 secs_mem" ULD_SECTION_FLAG_TYPE_OTHER 0]
    sec_count_agrees [of "0x100" 1 "[uld_section_zero]" "mach0 secs_mem" ULD_SECTION_FLAG_TYPE_OTHER 0]
  by (auto simp: mach0_def secs_mem_shstrtab secs_mem_list secs_mem_selected)

subsection \<open>Placing the memory sections\<close>

definition sec_size_at :: "mem \<Rightarrow> uld_section \<Rightarrow> nat" where
  "sec_size_at m sec = unat (sh_size (shdr_at m (sec_shdr sec)))"

definition sec_bits :: "mem \<Rightarrow> uld_section \<Rightarrow> bool" where
  "sec_bits m sec \<longleftrightarrow> sh_type (shdr_at m (sec_shdr sec)) \<noteq> SHT_NOBITS"

definition sec_image :: "mem \<Rightarrow> uld_section \<Rightarrow> u8 list" where
  "sec_image m sec = (if sec_bits m sec then bytes m (sec_adjusted_lma sec) (sec_size_at m sec)
     else replicate (sec_size_at m sec) 0)"

definition secs_image :: "mem \<Rightarrow> uld_section list \<Rightarrow> u8 list" where
  "secs_image m secs = concat (map (sec_image m) secs)"

fun secs_placed :: "mem \<Rightarrow> u32 \<Rightarrow> uld_section list \<Rightarrow> uld_section list" where
  "secs_placed m ptr [] = []"
| "secs_placed m ptr (sec # rest) =
     sec\<lparr>sec_adjusted_vma := ptr, sec_flags := sec_flags sec OR ULD_SECTION_FLAG_STATUS_MEM_LOADED\<rparr>
       # secs_placed m (ptr + sh_size (shdr_at m (sec_shdr sec))) rest"

fun secs_gaps :: "mem \<Rightarrow> uld_section option \<Rightarrow> uld_section list \<Rightarrow> int" where
  "secs_gaps m prev [] = 0"
| "secs_gaps m prev (sec # rest) =
     (case prev of None \<Rightarrow> 0 | Some p \<Rightarrow> if sec_bits m p then max 0 (mem_gap m p sec) else 0)
       + secs_gaps m (Some sec) rest"

definition sec_apart :: "mem \<Rightarrow> u32 set \<Rightarrow> uld_section \<Rightarrow> bool" where
  "sec_apart m R sec \<longleftrightarrow> rng (sec_shdr sec) 40 \<inter> R = {}
     \<and> (sec_bits m sec \<longrightarrow> rng (sec_adjusted_lma sec) (sec_size_at m sec) \<inter> R = {})"

lemma length_sec_image [simp]: "length (sec_image m sec) = sec_size_at m sec"
  by (simp add: sec_image_def)

lemma secs_image_Cons: "secs_image m (sec # secs) = sec_image m sec @ secs_image m secs"
  by (simp add: secs_image_def)

lemma ld32_agree:
  assumes "agrees_off R m m'" "rng p 40 \<inter> R = {}" "k \<le> 36"
  shows "ld32 m (p + of_nat k) = ld32 m' (p + of_nat k)"
proof (rule ld32_cong)
  fix a assume "a \<in> rng (p + of_nat k) 4"
  then have "a \<in> rng p (k + 4)" using rng_split [of k 4 p] assms(3) by auto
  then have "a \<in> rng p 40" using rng_mono [of "k + 4" 40 p] assms(3) by auto
  then show "m a = m' a" using assms(1,2) by (auto simp: agrees_off_def)
qed

lemma shdr_at_agree:
  assumes "agrees_off R m m'" "rng p 40 \<inter> R = {}"
  shows "shdr_at m p = shdr_at m' p"
  using ld32_agree [OF assms, where k = 0] ld32_agree [OF assms, where k = 4] ld32_agree [OF assms, where k = 8]
    ld32_agree [OF assms, where k = 12] ld32_agree [OF assms, where k = 16] ld32_agree [OF assms, where k = 20]
    ld32_agree [OF assms, where k = 24] ld32_agree [OF assms, where k = 28] ld32_agree [OF assms, where k = 32]
    ld32_agree [OF assms, where k = 36]
  by (simp add: shdr_at_def)

lemma sec_agree:
  assumes "agrees_off R m m'" "sec_apart m R sec"
  shows "shdr_at m' (sec_shdr sec) = shdr_at m (sec_shdr sec)" "sec_bits m' sec = sec_bits m sec"
    "sec_size_at m' sec = sec_size_at m sec" "sec_image m' sec = sec_image m sec"
    "sec_apart m' R' sec = sec_apart m R' sec"
proof -
  show h: "shdr_at m' (sec_shdr sec) = shdr_at m (sec_shdr sec)"
    using shdr_at_agree [of R m m' "sec_shdr sec"] assms by (simp add: sec_apart_def)
  then show b: "sec_bits m' sec = sec_bits m sec" and z: "sec_size_at m' sec = sec_size_at m sec"
    by (simp_all add: sec_bits_def sec_size_at_def)
  have "bytes m' (sec_adjusted_lma sec) (sec_size_at m sec) = bytes m (sec_adjusted_lma sec) (sec_size_at m sec)"
    if "sec_bits m sec"
    using assms that unat_lt32 [of "sh_size (shdr_at m (sec_shdr sec))"]
    by (intro bytes_cong) (fastforce simp: agrees_off_def sec_apart_def sec_size_at_def)+
  then show "sec_image m' sec = sec_image m sec" using b z by (simp add: sec_image_def)
  show "sec_apart m' R' sec = sec_apart m R' sec" using b z by (simp add: sec_apart_def)
qed

lemma secs_agree:
  assumes "agrees_off R m m'" "\<forall>sec\<in>set secs. sec_apart m R sec"
  shows "secs_image m' secs = secs_image m secs" "secs_placed m' p secs = secs_placed m p secs"
    "\<forall>sec\<in>set secs. sec_size_at m' sec = sec_size_at m sec"
proof -
  note a = sec_agree [OF assms(1)]
  show "secs_image m' secs = secs_image m secs"
    using assms(2) by (induction secs) (simp_all add: secs_image_def a(4))
  show "secs_placed m' p secs = secs_placed m p secs"
    using assms(2) by (induction secs arbitrary: p) (simp_all add: a(1))
  show "\<forall>sec\<in>set secs. sec_size_at m' sec = sec_size_at m sec" using assms(2) a(3) by blast
qed

lemma secs_gaps_agree:
  assumes "agrees_off R m m'" "\<forall>sec\<in>set secs \<union> set_option prev. sec_apart m R sec"
  shows "secs_gaps m' prev secs = secs_gaps m prev secs"
  using assms(2)
proof (induction secs arbitrary: prev)
  case (Cons x xs)
  note a = sec_agree [OF assms(1)]
  have "secs_gaps m' (Some x) xs = secs_gaps m (Some x) xs" using Cons by simp
  moreover have "shdr_at m' (sec_shdr q) = shdr_at m (sec_shdr q) \<and> sec_bits m' q = sec_bits m q
      \<and> shdr_at m' (sec_shdr x) = shdr_at m (sec_shdr x)" if "prev = Some q" for q
    using that Cons.prems a(1,2) by simp
  ultimately show ?case by (cases prev) (auto simp: mem_gap_def)
qed simp

definition place_one :: "u32 \<Rightarrow> uld_section \<Rightarrow> uld_section" where
  "place_one ptr sec = sec\<lparr>sec_adjusted_vma := ptr,
     sec_flags := sec_flags sec OR ULD_SECTION_FLAG_STATUS_MEM_LOADED\<rparr>"

lemma place_one_simps [simp]: "sec_apart m R (place_one ptr sec) = sec_apart m R sec"
  "secs_gaps m (Some (place_one ptr sec)) secs = secs_gaps m (Some sec) secs"
  by (simp add: sec_apart_def place_one_def sec_bits_def sec_size_at_def)
    (cases secs; simp add: place_one_def sec_bits_def mem_gap_def)

definition first_gap :: "mem \<Rightarrow> uld_section option \<Rightarrow> uld_section \<Rightarrow> int" where
  "first_gap m prev sec = (case prev of None \<Rightarrow> 0 | Some p \<Rightarrow> if sec_bits m p then max 0 (mem_gap m p sec) else 0)"

lemma fill_section:
  assumes "sec_apart m (rng ptr (sec_size_at m sec)) sec"
  shows "(if sh_type (shdr_at m (sec_shdr sec)) \<noteq> SHT_NOBITS
          then uld_memcpy m ptr (sec_adjusted_lma sec) (unat (sh_size (shdr_at m (sec_shdr sec))))
          else uld_memset m ptr 0 (unat (sh_size (shdr_at m (sec_shdr sec)))))
    = wr_bytes m ptr (sec_image m sec)"
proof -
  have "sec_size_at m sec \<le> 2 ^ 32" using unat_lt32 [of "sh_size (shdr_at m (sec_shdr sec))"]
    by (simp add: sec_size_at_def)
  then show ?thesis
    using assms memcpy_disjoint [of "sec_size_at m sec" ptr "sec_adjusted_lma sec" m]
      uld_memset_wr_bytes [of "sec_size_at m sec" m ptr 0]
    by (auto simp: sec_image_def sec_bits_def sec_apart_def sec_size_at_def)
qed

lemma alloc_mem_step:
  assumes "sec_flags sec AND ULD_SECTION_FLAG_TYPE_MEM \<noteq> 0"
    and "sec_apart (mem s) (rng ptr (sec_size_at (mem s) sec)) sec"
  shows "\<exists>k. alloc_mem_loop s phidx prev membase ptr (sec # secs)
      = (case alloc_mem_loop (bump k (s\<lparr>mem := wr_bytes (mem s) ptr (sec_image (mem s) sec)\<rparr>)) phidx
           (Some (place_one ptr sec)) (membase + word_of_int (first_gap (mem s) prev sec))
           (ptr + sh_size (shdr_at (mem s) (sec_shdr sec))) secs
         of (membase', ptr', rest', s') \<Rightarrow> (membase', ptr', place_one ptr sec # rest', s'))"
proof -
  define diff where "diff = (case prev of None \<Rightarrow> 0
     | Some p \<Rightarrow> if sh_type (shdr_at (mem s) (sec_shdr p)) \<noteq> SHT_NOBITS then mem_gap (mem s) p sec else 0)"
  define k where "k = (if sec_phidx sec \<noteq> phidx then 1 else 0) + (if diff < 0 then 1 else (0::nat))"
  let ?m = "mem s" and ?m1 = "wr_bytes (mem s) ptr (sec_image (mem s) sec)"
  define s2 where "s2 = (if diff < 0 then swbkpt (if sec_phidx sec \<noteq> phidx then swbkpt s else s)
      else (if sec_phidx sec \<noteq> phidx then swbkpt s else s))"
  have s2: "mem s2 = ?m" "s2\<lparr>mem := ?m1\<rparr> = bump k (s\<lparr>mem := ?m1\<rparr>)"
    by (simp_all add: s2_def k_def bump_def swbkpt_def)
  have g: "(if diff > 0 then membase + word_of_int diff else membase) = membase + word_of_int (first_gap ?m prev sec)"
    by (auto simp: diff_def first_gap_def sec_bits_def max_def split: option.splits)
  have "agrees_off (rng ptr (sec_size_at ?m sec)) ?m ?m1" by (simp add: agrees_off_wr)
  then have h: "shdr_at ?m1 (sec_shdr sec) = shdr_at ?m (sec_shdr sec)"
    using assms(2) sec_agree(1) by blast
  have m0: "mem (if sec_phidx sec \<noteq> phidx then swbkpt s else s) = ?m" by (simp add: swbkpt_def)
  have f: "(if sh_type (shdr_at ?m (sec_shdr sec)) \<noteq> SHT_NOBITS
       then s2\<lparr>mem := uld_memcpy (mem s2) ptr (sec_adjusted_lma sec) (unat (sh_size (shdr_at ?m (sec_shdr sec))))\<rparr>
       else s2\<lparr>mem := uld_memset (mem s2) ptr 0 (unat (sh_size (shdr_at ?m (sec_shdr sec))))\<rparr>)
      = bump k (s\<lparr>mem := ?m1\<rparr>)"
    using fill_section [OF assms(2)] s2 by (auto split: if_splits)
  have "alloc_mem_loop s phidx prev membase ptr (sec # secs)
      = (case alloc_mem_loop (bump k (s\<lparr>mem := ?m1\<rparr>)) phidx
           (Some (place_one ptr sec)) (membase + word_of_int (first_gap ?m prev sec))
           (ptr + sh_size (shdr_at ?m (sec_shdr sec))) secs
         of (membase', ptr', rest', s') \<Rightarrow> (membase', ptr', place_one ptr sec # rest', s'))"
    using assms(1) unfolding alloc_mem_loop.simps Let_def m0 diff_def [symmetric] s2_def [symmetric] g f
    by (simp add: h place_one_def)
  then show ?thesis by blast
qed

lemma alloc_mem_loop_spec:
  assumes "\<forall>sec\<in>set secs. sec_flags sec AND ULD_SECTION_FLAG_TYPE_MEM \<noteq> 0"
    and "\<forall>sec\<in>set secs \<union> set_option prev. sec_apart (mem s) (rng ptr (length (secs_image (mem s) secs))) sec"
    and "length (secs_image (mem s) secs) < 2 ^ 32"
  shows "\<exists>k. alloc_mem_loop s phidx prev membase ptr secs
    = (membase + word_of_int (secs_gaps (mem s) prev secs), ptr + of_nat (length (secs_image (mem s) secs)),
       secs_placed (mem s) ptr secs, bump k (s\<lparr>mem := wr_bytes (mem s) ptr (secs_image (mem s) secs)\<rparr>))"
  using assms
proof (induction secs arbitrary: s ptr prev membase)
  case Nil
  then show ?case by (auto simp: secs_image_def intro: exI [of _ 0])
next
  case (Cons sec secs)
  let ?m = "mem s" and ?n = "sec_size_at (mem s) sec" and ?sz = "sh_size (shdr_at (mem s) (sec_shdr sec))"
  let ?m1 = "wr_bytes ?m ptr (sec_image ?m sec)" and ?t = "length (secs_image (mem s) secs)"
  have len: "length (secs_image ?m (sec # secs)) = ?n + ?t" by (simp add: secs_image_Cons)
  have sz: "of_nat ?n = ?sz" by (simp add: sec_size_at_def)
  have split: "rng ptr (?n + ?t) = rng ptr ?n \<union> rng (ptr + ?sz) ?t"
    using rng_split [of ?n ?t ptr] Cons.prems(3) len sz by simp
  have all: "\<forall>x\<in>set (sec # secs) \<union> set_option prev. sec_apart ?m (rng ptr ?n) x \<and> sec_apart ?m (rng (ptr + ?sz) ?t) x"
    using Cons.prems(2) unfolding len split sec_apart_def by blast
  have ag: "agrees_off (rng ptr ?n) ?m ?m1" by (simp add: agrees_off_wr)
  obtain k where step: "alloc_mem_loop s phidx prev membase ptr (sec # secs)
      = (case alloc_mem_loop (bump k (s\<lparr>mem := ?m1\<rparr>)) phidx
           (Some (place_one ptr sec)) (membase + word_of_int (first_gap ?m prev sec)) (ptr + ?sz) secs
         of (membase', ptr', rest', s') \<Rightarrow> (membase', ptr', place_one ptr sec # rest', s'))"
    using alloc_mem_step [of sec s ptr phidx prev membase secs] Cons.prems(1) all by auto
  have im: "secs_image ?m1 secs = secs_image ?m secs" "secs_placed ?m1 p secs = secs_placed ?m p secs" for p
    using secs_agree [OF ag, of secs] all by auto
  have ga: "secs_gaps ?m1 (Some sec) secs = secs_gaps ?m (Some sec) secs"
    using secs_gaps_agree [OF ag, of secs "Some sec"] all by auto
  have ap: "\<forall>x\<in>set secs \<union> set_option (Some (place_one ptr sec)). sec_apart ?m1 (rng (ptr + ?sz) ?t) x"
    using sec_agree(5) [OF ag] all by auto
  obtain k' where ih: "alloc_mem_loop (bump k (s\<lparr>mem := ?m1\<rparr>)) phidx (Some (place_one ptr sec))
        (membase + word_of_int (first_gap ?m prev sec)) (ptr + ?sz) secs
      = (membase + word_of_int (first_gap ?m prev sec) + word_of_int (secs_gaps ?m (Some sec) secs), ptr + ?sz + of_nat ?t,
         secs_placed ?m (ptr + ?sz) secs, bump k' (bump k (s\<lparr>mem := wr_bytes ?m1 (ptr + ?sz) (secs_image ?m secs)\<rparr>)))"
    using Cons.IH [where s = "bump k (s\<lparr>mem := ?m1\<rparr>)" and prev = "Some (place_one ptr sec)" and ptr = "ptr + ?sz"
        and membase = "membase + word_of_int (first_gap ?m prev sec)"] Cons.prems ap len im ga
    by (auto simp: bump_def)
  have wr: "wr_bytes ?m1 (ptr + ?sz) (secs_image ?m secs) = wr_bytes ?m ptr (secs_image ?m (sec # secs))"
    using wr_bytes_append [of "sec_image ?m sec" "secs_image ?m secs" ?m ptr] Cons.prems(3) sz
    by (simp add: secs_image_Cons)
  have gp: "first_gap ?m prev sec + secs_gaps ?m (Some sec) secs = secs_gaps ?m prev (sec # secs)"
    by (simp add: first_gap_def)
  show ?case
    unfolding step ih prod.case wr len gp [symmetric]
    by (intro exI [of _ "k' + k"]) (simp add: place_one_def sz [symmetric] add.assoc)
qed

text \<open>C13 Placing the memory sections of a file: the sections are laid out without holes from
  the memory base, every section with bits gets a copy of its bits and every other one zeros, nothing else in
  memory changes, and each descriptor records its address and the LOADED mark. The size reported is the size
  written less the positive gaps between the sections in the file.\<close>

theorem alloc_mem_loaded:
  fixes s :: machine and secs :: "uld_section list" and n :: nat
  defines "n \<equiv> length (secs_image (mem s) secs)"
  assumes "ehdr \<noteq> 0" "membase \<noteq> 0" "secs \<noteq> []" "n < 2 ^ 32"
    and "\<forall>sec\<in>set secs. sec_flags sec AND ULD_SECTION_FLAG_TYPE_MEM \<noteq> 0"
    and "\<forall>sec\<in>set secs. sec_apart (mem s) (rng membase n) sec"
  shows "\<exists>k. uld_load_alloc_mem_sections s ehdr base membase allocated secs
    = (0, of_nat n - word_of_int (secs_gaps (mem s) None secs), secs_placed (mem s) membase secs,
       bump k (s\<lparr>mem := wr_bytes (mem s) membase (secs_image (mem s) secs)\<rparr>))"
  using alloc_mem_loop_spec [of secs None s membase "sec_phidx (hd secs)" membase] assms
  by (auto simp: uld_load_alloc_mem_sections_def)

definition place_mem :: mem where
  "place_mem = (\<lambda>_. 0)(0x204 := 1, 0x214 := 4, 0x300 := 5, 0x301 := 6, 0x302 := 7, 0x303 := 8)"

definition place_sec :: uld_section where
  "place_sec = uld_section_zero\<lparr>sec_shdr := 0x200, sec_adjusted_lma := 0x300,
     sec_flags := ULD_SECTION_FLAG_TYPE_MEM\<rparr>"

lemma place_mem_shdr:
  "sh_type (shdr_at place_mem 0x200) = 1" "sh_size (shdr_at place_mem 0x200) = 4"
  by (simp_all add: shdr_at_def ld32_def) (simp_all add: place_mem_def)

lemma place_mem_image: "secs_image place_mem [place_sec] = [5, 6, 7, 8]"
proof -
  have "bytes place_mem 0x300 4 = [5, 6, 7, 8]"
    by (simp add: bytes_def upt_rec place_mem_def)
  then show ?thesis
    by (simp add: secs_image_def sec_image_def sec_bits_def sec_size_at_def place_sec_def place_mem_shdr elf_consts)
qed

theorem alloc_mem_loaded_witness:
  "\<exists>k. uld_load_alloc_mem_sections (mach0 place_mem) 0x100 0 0x400 0 [place_sec]
    = (0, 4, [place_one 0x400 place_sec], bump k (mach0 (wr_bytes place_mem 0x400 [5, 6, 7, 8])))"
proof -
  have "sec_apart place_mem (rng 0x400 4) place_sec"
    using rng_disjoint_linear [of "0x200" 40 "0x400" 4] rng_disjoint_linear [of "0x300" 4 "0x400" 4]
    by (simp add: sec_apart_def place_sec_def sec_size_at_def place_mem_shdr)
  moreover have "Suc (Suc (Suc (Suc 0))) = 4" by simp
  ultimately have "sec_apart place_mem (rng 0x400 (Suc (Suc (Suc (Suc 0))))) place_sec" by metis
  moreover have "sec_flags place_sec AND ULD_SECTION_FLAG_TYPE_MEM \<noteq> 0"
    by (simp add: place_sec_def ULD_SECTION_FLAG_TYPE_MEM_def)
  ultimately show ?thesis
    using alloc_mem_loaded [of "0x100" "0x400" "[place_sec]" "mach0 place_mem" 0 0]
    by (simp add: mach0_def place_mem_image place_one_def)
qed

lemma next_membase_bounds:
  fixes bss_end last_membase last_memsize :: u32 and last_end :: nat
  defines "last_end \<equiv> (if last_membase \<ge> bss_end then unat last_membase + unat last_memsize else unat bss_end)"
  assumes "last_end + 8 \<le> 2 ^ 32"
  shows "8 dvd unat (uld_load_get_next_membase bss_end last_membase last_memsize)
    \<and> last_end \<le> unat (uld_load_get_next_membase bss_end last_membase last_memsize)
    \<and> unat (uld_load_get_next_membase bss_end last_membase last_memsize) < last_end + 8
    \<and> bss_end \<le> uld_load_get_next_membase bss_end last_membase last_memsize"
proof -
  define v where "v = (if last_membase \<ge> bss_end then last_membase + last_memsize else bss_end)"
  have v: "unat v = last_end"
    using assms(2) by (auto simp: v_def last_end_def unat_word_ariths word_le_nat_alt)
  have r: "uld_load_get_next_membase bss_end last_membase last_memsize = align_up v 3"
    by (simp add: uld_load_get_next_membase_def v_def ULD_LOAD_MEMBASE_ALIGNMENT_def)
  have "unat bss_end \<le> last_end" by (simp add: last_end_def word_le_nat_alt)
  then show ?thesis
    using align_up_bounds [of v 3] assms(2) v unfolding r by (simp add: word_le_nat_alt)
qed

text \<open>The memory of the loaded files is a bump allocator.\<close>

interpretation membase: bump_allocator "uld_load_get_next_membase bss_end" bss_end 8 for bss_end
proof
  fix b n :: u32
  assume "bss_end \<le> b" "block_end (b, n) + 8 \<le> 2 ^ 32"
  then show "block_end (b, n) \<le> unat (uld_load_get_next_membase bss_end b n)
      \<and> bss_end \<le> uld_load_get_next_membase bss_end b n"
    using next_membase_bounds [of bss_end b n] by (simp add: block_end_def)
qed

text \<open>C27 The memory base chosen for a file is a multiple of 8, is not below the end of the
  loader's own data, and when the previous file's memory lies above that end it does not overlap it; at most
  seven bytes are skipped.\<close>

theorem next_membase_ok:
  fixes bss_end last_membase last_memsize :: u32 and last_end :: nat
  defines "last_end \<equiv> (if last_membase \<ge> bss_end then unat last_membase + unat last_memsize else unat bss_end)"
  assumes "last_end + 8 \<le> 2 ^ 32"
  shows "8 dvd unat (uld_load_get_next_membase bss_end last_membase last_memsize)
    \<and> last_end \<le> unat (uld_load_get_next_membase bss_end last_membase last_memsize)
    \<and> unat (uld_load_get_next_membase bss_end last_membase last_memsize) < last_end + 8
    \<and> bss_end \<le> uld_load_get_next_membase bss_end last_membase last_memsize"
  using assms(2) unfolding assms(1) by (rule next_membase_bounds)

theorem next_membase_ok_witness:
  "unat (uld_load_get_next_membase 0x1000 0x1008 13) < 4117 + 8"
  using next_membase_ok [of "0x1000" "0x1008" 13] by simp

end
