(* ===== verification/File.thy ===== *)
theory File
  imports Load
begin

text \<open>\<open>src/uld_file.c\<close> and \<open>include/uld_file.h\<close>: section lookups in a loaded file and address translation by file.\<close>

definition ULD_FILE_SECTION_TYPE_COUNT :: nat where "ULD_FILE_SECTION_TYPE_COUNT = 3"

definition uf_secs :: "uld_file \<Rightarrow> uld_section list list" where
  "uf_secs uf = [uf_flash uf, uf_mem uf, uf_other uf]"

definition uld_file_get_sec_count :: "uld_file \<Rightarrow> int" where
  "uld_file_get_sec_count uf = (\<Sum>l\<leftarrow>uf_secs uf. int (length l))"

definition uld_file_sec_type_to_idx :: "u32 \<Rightarrow> int" where
  "uld_file_sec_type_to_idx type0 =
     (let type = type0 AND ULD_SECTION_FLAG_TYPE_MASK
      in if type = ULD_SECTION_FLAG_TYPE_FLASH then 0
         else if type = ULD_SECTION_FLAG_TYPE_MEM then 1
         else if type = ULD_SECTION_FLAG_TYPE_OTHER then 2
         else - 1)"

fun get_sec_by_index_loop ::
    "int \<Rightarrow> u32 \<Rightarrow> nat \<Rightarrow> uld_section list list \<Rightarrow> (nat \<times> nat) option" where
  "get_sec_by_index_loop index type_mask i [] = None"
| "get_sec_by_index_loop index type_mask i (l # rest) =
     (if type_mask AND uld_file_idx_to_sec_type i = 0
      then get_sec_by_index_loop index type_mask (Suc i) rest
      else case first_idx (\<lambda>sec. sec_shidx sec = index) l of
             Some j \<Rightarrow> Some (i, j)
           | None \<Rightarrow> get_sec_by_index_loop index type_mask (Suc i) rest)"

definition uld_file_get_sec_by_index :: "uld_file \<Rightarrow> int \<Rightarrow> u32 \<Rightarrow> (nat \<times> nat) option" where
  "uld_file_get_sec_by_index uf index type_mask =
     (if index < 0 then None else get_sec_by_index_loop index type_mask 0 (uf_secs uf))"

fun get_sec_by_name_inner :: "mem \<Rightarrow> cstr \<Rightarrow> nat \<Rightarrow> uld_section list \<Rightarrow> nat option option" where
  "get_sec_by_name_inner m name j [] = Some None"
| "get_sec_by_name_inner m name j (sec # rest) = do {
     r \<leftarrow> uld_strcmp m (Ptr (sec_name sec)) name;
     if r = 0 then Some (Some j) else get_sec_by_name_inner m name (Suc j) rest }"

fun get_sec_by_name_loop ::
    "mem \<Rightarrow> cstr \<Rightarrow> u32 \<Rightarrow> nat \<Rightarrow> uld_section list list \<Rightarrow> (nat \<times> nat) option option" where
  "get_sec_by_name_loop m name type_mask i [] = Some None"
| "get_sec_by_name_loop m name type_mask i (l # rest) =
     (if type_mask AND uld_file_idx_to_sec_type i = 0
      then get_sec_by_name_loop m name type_mask (Suc i) rest
      else do {
        r \<leftarrow> get_sec_by_name_inner m name 0 l;
        case r of Some j \<Rightarrow> Some (Some (i, j))
                | None \<Rightarrow> get_sec_by_name_loop m name type_mask (Suc i) rest })"

definition uld_file_get_sec_by_name ::
    "mem \<Rightarrow> uld_file \<Rightarrow> cstr \<Rightarrow> u32 \<Rightarrow> (nat \<times> nat) option option" where
  "uld_file_get_sec_by_name m uf name type_mask =
     (if name = Ptr 0 then Some None else get_sec_by_name_loop m name type_mask 0 (uf_secs uf))"

definition uf_sec :: "uld_file \<Rightarrow> nat \<times> nat \<Rightarrow> uld_section" where
  "uf_sec uf ij = uf_secs uf ! fst ij ! snd ij"

definition uld_file_get_sec :: "mem \<Rightarrow> uld_file \<Rightarrow> string \<Rightarrow> u32 \<Rightarrow> uld_section option option" where
  "uld_file_get_sec m uf name type_mask = do {
     r \<leftarrow> uld_file_get_sec_by_name m uf (Lit (map of_char name)) type_mask;
     Some (map_option (uf_sec uf) r) }"

definition uld_file_get_sec_plt :: "mem \<Rightarrow> uld_file \<Rightarrow> uld_section option option" where
  "uld_file_get_sec_plt m uf = uld_file_get_sec m uf ''.plt'' ULD_SECTION_FLAG_TYPE_FLASH"
definition uld_file_get_sec_rofixup :: "mem \<Rightarrow> uld_file \<Rightarrow> uld_section option option" where
  "uld_file_get_sec_rofixup m uf = uld_file_get_sec m uf ''.rofixup'' ULD_SECTION_FLAG_TYPE_FLASH"
definition uld_file_get_sec_got :: "mem \<Rightarrow> uld_file \<Rightarrow> uld_section option option" where
  "uld_file_get_sec_got m uf = uld_file_get_sec m uf ''.got'' ULD_SECTION_FLAG_TYPE_MEM"
definition uld_file_get_sec_got_plt :: "mem \<Rightarrow> uld_file \<Rightarrow> uld_section option option" where
  "uld_file_get_sec_got_plt m uf = uld_file_get_sec m uf ''.got.plt'' ULD_SECTION_FLAG_TYPE_MEM"
definition uld_file_get_sec_hash :: "mem \<Rightarrow> uld_file \<Rightarrow> uld_section option option" where
  "uld_file_get_sec_hash m uf = uld_file_get_sec m uf ''.hash'' ULD_SECTION_FLAG_TYPE_DYNAMIC"
definition uld_file_get_sec_dynsym :: "mem \<Rightarrow> uld_file \<Rightarrow> uld_section option option" where
  "uld_file_get_sec_dynsym m uf = uld_file_get_sec m uf ''.dynsym'' ULD_SECTION_FLAG_TYPE_DYNAMIC"
definition uld_file_get_sec_dynstr :: "mem \<Rightarrow> uld_file \<Rightarrow> uld_section option option" where
  "uld_file_get_sec_dynstr m uf = uld_file_get_sec m uf ''.dynstr'' ULD_SECTION_FLAG_TYPE_DYNAMIC"
definition uld_file_get_sec_dynamic :: "mem \<Rightarrow> uld_file \<Rightarrow> uld_section option option" where
  "uld_file_get_sec_dynamic m uf = uld_file_get_sec m uf ''.dynamic'' ULD_SECTION_FLAG_TYPE_DYNAMIC"
definition uld_file_get_sec_rel_dyn :: "mem \<Rightarrow> uld_file \<Rightarrow> uld_section option option" where
  "uld_file_get_sec_rel_dyn m uf = uld_file_get_sec m uf ''.rel.dyn'' ULD_SECTION_FLAG_TYPE_DYNAMIC"

definition uld_file_copy_sec_by_index ::
    "machine \<Rightarrow> uld_file \<Rightarrow> uld_section \<Rightarrow> int \<Rightarrow> u32 \<Rightarrow> (int \<times> uld_section \<times> machine) option" where
  "uld_file_copy_sec_by_index s uf sec index type_mask =
     (case uld_file_get_sec_by_index uf index type_mask of
        Some p \<Rightarrow> Some (0, uf_sec uf p, s)
      | None \<Rightarrow>
          (let ehdr = fse_base (fse_at (mem s) (uf_fse uf));
               shdr = elf32_get_section_by_index (mem s) ehdr 0 index
           in if shdr = 0 then Some (- 1, sec, s)
              else uld_load_create_section s sec ehdr 0 shdr index 0))"

definition uld_file_copy_sec_by_name ::
    "machine \<Rightarrow> uld_file \<Rightarrow> uld_section \<Rightarrow> cstr \<Rightarrow> u32 \<Rightarrow> (int \<times> uld_section \<times> machine) option" where
  "uld_file_copy_sec_by_name s uf sec name type_mask =
     (if name = Ptr 0 then Some (- 1, sec, s)
      else do {
        r \<leftarrow> uld_file_get_sec_by_name (mem s) uf name type_mask;
        case r of
          Some p \<Rightarrow> Some (0, uf_sec uf p, s)
        | None \<Rightarrow> (let ehdr = fse_base (fse_at (mem s) (uf_fse uf))
                  in do {
                    shdr \<leftarrow> elf32_get_section_by_name (mem s) ehdr 0 name;
                    if shdr = 0 then Some (- 1, sec, s)
                    else uld_load_create_section s sec ehdr 0 shdr (- 1) 0 }) })"

definition uld_file_lma_to_adjusted_ma :: "mem \<Rightarrow> uld_file \<Rightarrow> u32 \<Rightarrow> bool \<Rightarrow> u32 option" where
  "uld_file_lma_to_adjusted_ma m uf lma to_adj_lma = do {
     r \<leftarrow> uld_section_find_in_lists_by_lma m (uf_secs uf) lma;
     case r of
       None \<Rightarrow> Some 0
     | Some ij \<Rightarrow> Some (if to_adj_lma then uld_section_lma_to_adjusted_lma m (uf_sec uf ij) lma
                        else uld_section_lma_to_adjusted_vma m (uf_sec uf ij) lma) }"

definition uld_file_lma_to_adjusted_lma :: "mem \<Rightarrow> uld_file \<Rightarrow> u32 \<Rightarrow> u32 option" where
  "uld_file_lma_to_adjusted_lma m uf lma = uld_file_lma_to_adjusted_ma m uf lma True"

definition uld_file_lma_to_adjusted_vma :: "mem \<Rightarrow> uld_file \<Rightarrow> u32 \<Rightarrow> u32 option" where
  "uld_file_lma_to_adjusted_vma m uf lma = uld_file_lma_to_adjusted_ma m uf lma False"

subsection \<open>The address map of a file\<close>

definition sec_holding :: "mem \<Rightarrow> uld_file \<Rightarrow> u32 \<Rightarrow> uld_section option" where
  "sec_holding m uf lma = List.find (\<lambda>sec. in_extent m lma (sec_lma sec) sec) (uf_flash uf @ uf_mem uf @ uf_other uf)"

lemma lma_map_eq:
  "uld_file_lma_to_adjusted_ma m uf lma b = Some (case sec_holding m uf lma of None \<Rightarrow> 0
     | Some sec \<Rightarrow> uld_section_lma_to_adjusted_ma m sec lma b)"
proof -
  obtain r where r: "find_in_lists_loop m (LMA lma) 0 0 0 (uf_secs uf) = Some r"
    "case r of None \<Rightarrow> sec_holding m uf lma = None
     | Some (k, j) \<Rightarrow> sec_holding m uf lma = Some (uf_secs uf ! k ! j)"
    using find_in_lists_elem [of m lma 0 "uf_secs uf"]
    by (fastforce simp: sec_holding_def uf_secs_def split: option.splits)
  then show ?thesis
    by (cases r) (auto simp: uld_file_lma_to_adjusted_ma_def uld_section_find_in_lists_by_lma_def
        uld_section_find_in_lists_def ULD_SECTION_FLAG_NONE_def uf_sec_def
        uld_section_lma_to_adjusted_lma_def uld_section_lma_to_adjusted_vma_def)
qed

lemma find_SomeD: "List.find P xs = Some x \<Longrightarrow> x \<in> set xs \<and> P x"
  by (auto simp: find_Some_iff)

lemma sec_holding_Some:
  "sec_holding m uf lma = Some sec \<Longrightarrow> sec \<in> set (uf_flash uf @ uf_mem uf @ uf_other uf) \<and> in_extent m lma (sec_lma sec) sec"
  unfolding sec_holding_def by (rule find_SomeD)

text \<open>C16 Translating a link-time address of a file always returns. The result is 0 when no
  section holds the address, and otherwise the address at the same offset from the run-time base of the first
  section that holds it. The one exception is a section without bits that has not been loaded, which maps to 0.\<close>

theorem lma_map_offset:
  "\<exists>r. uld_file_lma_to_adjusted_vma m uf lma = Some r
    \<and> (case sec_holding m uf lma of
         None \<Rightarrow> r = 0 \<and> (\<forall>sec\<in>set (uf_flash uf @ uf_mem uf @ uf_other uf). \<not> in_extent m lma (sec_lma sec) sec)
       | Some sec \<Rightarrow> in_extent m lma (sec_lma sec) sec \<and> sec \<in> set (uf_flash uf @ uf_mem uf @ uf_other uf)
           \<and> (if lma = 0 \<or> sh_type (shdr_at m (sec_shdr sec)) = SHT_NOBITS
                   \<and> sec_flags sec AND ULD_SECTION_FLAG_STATUS_MEM_LOADED = 0
               then r = 0 else r - sec_adjusted_vma sec = lma - sec_lma sec
                 \<and> unat (r - sec_adjusted_vma sec) < unat (sh_size (shdr_at m (sec_shdr sec)))))"
proof (cases "sec_holding m uf lma")
  case None
  then show ?thesis
    by (simp add: uld_file_lma_to_adjusted_vma_def lma_map_eq) (auto simp: sec_holding_def find_None_iff)
next
  case (Some sec)
  have e: "in_extent m lma (sec_lma sec) sec" "sec \<in> set (uf_flash uf @ uf_mem uf @ uf_other uf)"
    using sec_holding_Some [OF Some] by simp_all
  have "unat (lma - sec_lma sec) < unat (sh_size (shdr_at m (sec_shdr sec)))"
    using e(1) in_extent_offset by blast
  moreover have "\<not> lma < sec_lma sec" "\<not> sec_lma sec + sh_size (shdr_at m (sec_shdr sec)) \<le> lma"
    using e(1) by (simp_all add: in_extent_def not_less not_le)
  ultimately show ?thesis using e
    by (simp add: uld_file_lma_to_adjusted_vma_def lma_map_eq Some uld_section_lma_to_adjusted_ma_def Let_def)
qed

definition map_file :: uld_file where
  "map_file = uld_file_zero\<lparr>uf_flash := [uld_section_zero\<lparr>sec_shdr := 0x200, sec_lma := 0x8000,
     sec_adjusted_vma := 0x9000\<rparr>]\<rparr>"

theorem lma_map_offset_witness:
  "uld_file_lma_to_adjusted_vma place_mem map_file 0x8002 = Some 0x9002"
proof -
  have h: "sec_holding place_mem map_file 0x8002 = Some (uld_section_zero\<lparr>sec_shdr := 0x200, sec_lma := 0x8000,
     sec_adjusted_vma := 0x9000\<rparr>)"
    by (simp add: sec_holding_def map_file_def uld_file_zero_def in_extent_def place_mem_shdr)
  have "r - 0x9000 = 2 \<Longrightarrow> r = 0x9002" for r :: u32
    by (simp add: diff_eq_eq)
  then show ?thesis
    using lma_map_offset [of place_mem map_file "0x8002"]
    by (auto simp: h place_mem_shdr elf_consts)
qed

end
