(* ===== verification/DynSym.thy ===== *)
theory DynSym
  imports File
begin

text \<open>Dynamic symbols and relocations: structures of \<open>include/elf.h\<close>, accessors of \<open>include/uld_dyn.h\<close>, and the symbol
  lookups of \<open>src/uld_dyn.c\<close>.\<close>

definition STN_UNDEF :: u32 where "STN_UNDEF = 0"
definition STT_OBJECT :: u8 where "STT_OBJECT = 1"
definition STT_FUNC :: u8 where "STT_FUNC = 2"
definition STT_SECTION :: u8 where "STT_SECTION = 3"
definition DT_NULL :: u32 where "DT_NULL = 0"
definition DT_NEEDED :: u32 where "DT_NEEDED = 1"
definition R_ARM_ABS32 :: u8 where "R_ARM_ABS32 = 2"
definition R_ARM_GLOB_DAT :: u8 where "R_ARM_GLOB_DAT = 21"
definition R_ARM_RELATIVE :: u8 where "R_ARM_RELATIVE = 23"
definition R_ARM_FUNCDESC :: u8 where "R_ARM_FUNCDESC = 163"
definition R_ARM_FUNCDESC_VALUE :: u8 where "R_ARM_FUNCDESC_VALUE = 164"

lemmas rel_type_defs = R_ARM_ABS32_def R_ARM_GLOB_DAT_def R_ARM_RELATIVE_def R_ARM_FUNCDESC_def
  R_ARM_FUNCDESC_VALUE_def

record elf32_sym =
  st_name :: u32
  st_value :: u32
  st_size :: u32
  st_info :: u8
  st_other :: u8
  st_shndx :: u16

definition sym_at :: "mem \<Rightarrow> u32 \<Rightarrow> elf32_sym" where
  "sym_at m p = \<lparr>st_name = ld32 m p, st_value = ld32 m (p + 4), st_size = ld32 m (p + 8),
     st_info = m (p + 12), st_other = m (p + 13), st_shndx = ld16 m (p + 14)\<rparr>"

definition ELF32_ST_TYPE :: "u8 \<Rightarrow> u8" where "ELF32_ST_TYPE i = i AND 0xf"

definition elf32_sym_has_section_index :: "elf32_sym \<Rightarrow> bool" where
  "elf32_sym_has_section_index esym \<longleftrightarrow> st_shndx esym \<noteq> 0 \<and> st_shndx esym AND 0x8000 = 0"

record elf32_rel =
  r_offset :: u32
  r_info :: u32

definition rel_at :: "mem \<Rightarrow> u32 \<Rightarrow> elf32_rel" where
  "rel_at m p = \<lparr>r_offset = ld32 m p, r_info = ld32 m (p + 4)\<rparr>"

definition ELF32_R_SYM :: "u32 \<Rightarrow> u32" where "ELF32_R_SYM i = drop_bit 8 i"
definition ELF32_R_TYPE :: "u32 \<Rightarrow> u8" where "ELF32_R_TYPE i = ucast i"
definition ELF32_R_INFO :: "u32 \<Rightarrow> u8 \<Rightarrow> u32" where "ELF32_R_INFO s t = push_bit 8 s + ucast t"

record elf32_dyn =
  d_tag :: u32
  d_val :: u32

definition dyn_at :: "mem \<Rightarrow> u32 \<Rightarrow> elf32_dyn" where
  "dyn_at m p = \<lparr>d_tag = ld32 m p, d_val = ld32 m (p + 4)\<rparr>"

definition uld_dyn_get_sym_name :: "mem \<Rightarrow> u32 \<Rightarrow> uld_section \<Rightarrow> u32" where
  "uld_dyn_get_sym_name m esym dynstr_sec = sec_adjusted_lma dynstr_sec + st_name (sym_at m esym)"

definition uld_dyn_get_sym_index :: "u32 \<Rightarrow> uld_section \<Rightarrow> u32" where
  "uld_dyn_get_sym_index esym dynsym_sec = (esym - sec_adjusted_lma dynsym_sec) div 16"

definition uld_dyn_get_dynsym_by_index_sec :: "u32 \<Rightarrow> uld_section \<Rightarrow> u32" where
  "uld_dyn_get_dynsym_by_index_sec idx dynsym_sec = sec_adjusted_lma dynsym_sec + 16 * idx"

definition uld_dyn_get_rel_dyn_by_index_sec :: "u32 \<Rightarrow> uld_section \<Rightarrow> u32" where
  "uld_dyn_get_rel_dyn_by_index_sec idx rel_dyn_sec = sec_adjusted_lma rel_dyn_sec + 8 * idx"

definition uld_dyn_get_dynsym_count_sec :: "mem \<Rightarrow> uld_section \<Rightarrow> nat" where
  "uld_dyn_get_dynsym_count_sec m dynsym_sec = unat (sh_size (shdr_at m (sec_shdr dynsym_sec))) div 16"

definition uld_dyn_get_rel_dyn_count_sec :: "mem \<Rightarrow> uld_section \<Rightarrow> nat" where
  "uld_dyn_get_rel_dyn_count_sec m rel_dyn_sec = unat (sh_size (shdr_at m (sec_shdr rel_dyn_sec))) div 8"

definition elf_hash_step :: "u32 \<Rightarrow> u8 \<Rightarrow> u32" where
  "elf_hash_step h c =
     (let h1 = push_bit 4 h + ucast c; g = h1 AND 0xf0000000;
          h2 = (if g \<noteq> 0 then h1 XOR drop_bit 24 g else h1)
      in h2 AND NOT g)"

partial_function (option) elf_hash_loop :: "mem \<Rightarrow> cstr \<Rightarrow> nat \<Rightarrow> u32 \<Rightarrow> u32 option" where
  "elf_hash_loop m name i h =
     (if cs_byte m name i \<noteq> 0
      then elf_hash_loop m name (Suc i) (elf_hash_step h (cs_byte m name i))
      else Some h)"

definition uld_dyn_elf_hash :: "mem \<Rightarrow> cstr \<Rightarrow> u32 option" where
  "uld_dyn_elf_hash m name = elf_hash_loop m name 0 0"

partial_function (option) elf_chain_loop ::
    "mem \<Rightarrow> cstr \<Rightarrow> u32 \<Rightarrow> uld_section \<Rightarrow> uld_section \<Rightarrow> u32 \<Rightarrow> u32 option" where
  "elf_chain_loop m name chain_tab dynstr_sec dynsym_sec idx =
     (if idx \<noteq> STN_UNDEF
      then Option.bind
             (uld_strcmp m name
                (Ptr (uld_dyn_get_sym_name m (uld_dyn_get_dynsym_by_index_sec idx dynsym_sec) dynstr_sec)))
             (\<lambda>r. if r = 0 then Some (uld_dyn_get_dynsym_by_index_sec idx dynsym_sec)
                  else elf_chain_loop m name chain_tab dynstr_sec dynsym_sec (ld32 m (chain_tab + 4 * idx)))
      else Some 0)"

definition uld_dyn_find_dynsym_elf_hash_sec ::
    "mem \<Rightarrow> cstr \<Rightarrow> uld_section option \<Rightarrow> uld_section option \<Rightarrow> uld_section option \<Rightarrow> u32 option" where
  "uld_dyn_find_dynsym_elf_hash_sec m name hash_sec dynstr_sec dynsym_sec =
     (case (hash_sec, dynstr_sec, dynsym_sec) of
        (Some hs, Some ds, Some ys) \<Rightarrow>
          if name = Ptr 0 then Some 0
          else do {
            hash \<leftarrow> uld_dyn_elf_hash m name;
            let hash_table = sec_adjusted_lma hs;
            let nbucket = ld32 m hash_table;
            let idx = hash mod nbucket;
            let chain_tab = hash_table + 4 * (nbucket + 2);
            elf_chain_loop m name chain_tab ds ys (ld32 m (hash_table + 4 * (idx + 2))) }
      | _ \<Rightarrow> Some 0)"

definition uld_dyn_find_dynsym_elf_hash_file :: "mem \<Rightarrow> cstr \<Rightarrow> uld_file \<Rightarrow> u32 option" where
  "uld_dyn_find_dynsym_elf_hash_file m name uf = do {
     hash_sec \<leftarrow> uld_file_get_sec_hash m uf;
     dynstr_sec \<leftarrow> uld_file_get_sec_dynstr m uf;
     dynsym_sec \<leftarrow> uld_file_get_sec_dynsym m uf;
     uld_dyn_find_dynsym_elf_hash_sec m name hash_sec dynstr_sec dynsym_sec }"

fun dynsym_linear_loop :: "mem \<Rightarrow> cstr \<Rightarrow> uld_section \<Rightarrow> u32 \<Rightarrow> nat \<Rightarrow> u32 option" where
  "dynsym_linear_loop m name dynstr_sec esym 0 = Some 0"
| "dynsym_linear_loop m name dynstr_sec esym (Suc n) = do {
     r \<leftarrow> uld_strcmp m name (Ptr (uld_dyn_get_sym_name m esym dynstr_sec));
     if r = 0 then Some esym else dynsym_linear_loop m name dynstr_sec (esym + 16) n }"

definition uld_dyn_find_dynsym_linear_sec ::
    "mem \<Rightarrow> cstr \<Rightarrow> uld_section option \<Rightarrow> uld_section option \<Rightarrow> u32 option" where
  "uld_dyn_find_dynsym_linear_sec m name dynstr_sec dynsym_sec =
     (case (dynstr_sec, dynsym_sec) of
        (Some ds, Some ys) \<Rightarrow>
          if name = Ptr 0 then Some 0
          else dynsym_linear_loop m name ds (sec_adjusted_lma ys) (uld_dyn_get_dynsym_count_sec m ys)
      | _ \<Rightarrow> Some 0)"

definition uld_dyn_find_dynsym_linear_file :: "mem \<Rightarrow> cstr \<Rightarrow> uld_file \<Rightarrow> u32 option" where
  "uld_dyn_find_dynsym_linear_file m name uf = do {
     dynstr_sec \<leftarrow> uld_file_get_sec_dynstr m uf;
     dynsym_sec \<leftarrow> uld_file_get_sec_dynsym m uf;
     uld_dyn_find_dynsym_linear_sec m name dynstr_sec dynsym_sec }"

partial_function (option) uld_dyn_next_dt_needed :: "mem \<Rightarrow> u32 \<Rightarrow> u32 option" where
  "uld_dyn_next_dt_needed m dyn =
     (if d_tag (dyn_at m dyn) \<noteq> DT_NULL
      then if d_tag (dyn_at m dyn) = DT_NEEDED then Some dyn
           else uld_dyn_next_dt_needed m (dyn + 8)
      else Some 0)"

section \<open>The symbol hash\<close>

definition elf_hash_bytes :: "u8 list \<Rightarrow> u32" where
  "elf_hash_bytes bs = foldl elf_hash_step 0 bs"

lemma elf_hash_loop_drop:
  assumes "cs_is m name bs" "i \<le> length bs"
  shows "elf_hash_loop m name i h = Some (foldl elf_hash_step h (drop i bs))"
  using assms(2)
proof (induction "length bs - i" arbitrary: i h)
  case 0
  then show ?case using assms(1) by (subst elf_hash_loop.simps) (simp add: cs_is_def)
next
  case (Suc n)
  then have i: "i < length bs" by simp
  then have c: "cs_byte m name i = bs ! i" "bs ! i \<noteq> 0"
    using assms(1) nth_mem [OF i] by (auto simp: cs_is_def simp del: nth_mem)
  have "elf_hash_loop m name (Suc i) (elf_hash_step h (bs ! i))
      = Some (foldl elf_hash_step (elf_hash_step h (bs ! i)) (drop (Suc i) bs))"
    using Suc i by (intro Suc.hyps(1)) auto
  then show ?case using c i by (subst elf_hash_loop.simps) (simp flip: Cons_nth_drop_Suc)
qed

lemma elf_hash_eq: "cs_is m name bs \<Longrightarrow> uld_dyn_elf_hash m name = Some (elf_hash_bytes bs)"
  using elf_hash_loop_drop [of m name bs 0 0] by (simp add: uld_dyn_elf_hash_def elf_hash_bytes_def)

lemma high_nibble_bit: "28 \<le> n \<Longrightarrow> n < 32 \<Longrightarrow> bit (0xf0000000 :: u32) n"
proof -
  assume "28 \<le> n" "n < 32"
  then have "n = 28 \<or> n = 29 \<or> n = 30 \<or> n = 31" by linarith
  then show ?thesis by (elim disjE) simp_all
qed

lemma elf_hash_step_take: "take_bit 28 (elf_hash_step h c) = elf_hash_step h c"
proof (rule bit_word_eqI)
  fix n assume n: "n < LENGTH(32)"
  show "bit (take_bit 28 (elf_hash_step h c)) n = bit (elf_hash_step h c) n"
  proof (cases "n < 28")
    case True
    then show ?thesis by (simp add: bit_take_bit_iff)
  next
    case False
    define h1 where "h1 = push_bit 4 h + (ucast c :: u32)"
    define g where "g = h1 AND 0xf0000000"
    have g: "bit g n \<longleftrightarrow> bit h1 n" using False n high_nibble_bit [of n] by (simp add: g_def bit_and_iff)
    have d: "\<not> bit (drop_bit 24 g) n" using False by (auto simp: bit_drop_bit_eq dest: bit_imp_le_length)
    have "elf_hash_step h c = (if g \<noteq> 0 then h1 XOR drop_bit 24 g else h1) AND NOT g"
      by (simp only: elf_hash_step_def Let_def h1_def g_def)
    then have "\<not> bit (elf_hash_step h c) n"
      using g d by (simp add: bit_and_iff bit_not_iff bit_xor_iff)
    then show ?thesis using False by (simp add: bit_take_bit_iff)
  qed
qed

lemma elf_hash_step_lt: "elf_hash_step h c < 2 ^ 28"
proof -
  have "unat (take_bit 28 (elf_hash_step h c)) < 2 ^ 28" by (simp only: unsigned_take_bit_eq take_bit_nat_less_exp)
  then have "unat (elf_hash_step h c) < unat (2 ^ 28 :: u32)" by (simp only: elf_hash_step_take) simp
  then show ?thesis by (simp only: word_less_nat_alt)
qed

lemma elf_hash_bytes_lt: "elf_hash_bytes bs < 2 ^ 28"
proof (cases bs rule: rev_cases)
  case Nil
  then show ?thesis by (simp add: elf_hash_bytes_def)
next
  case (snoc cs c)
  then show ?thesis using elf_hash_step_lt by (simp add: elf_hash_bytes_def)
qed

section \<open>Chains and the symbol table\<close>

text \<open>The hash chain that starts at index \<open>idx\<close> goes through the indices of \<open>is\<close> and ends at the undefined
  index.\<close>

fun chain_list :: "mem \<Rightarrow> u32 \<Rightarrow> u32 \<Rightarrow> u32 list \<Rightarrow> bool" where
  "chain_list m chain_tab idx [] \<longleftrightarrow> idx = STN_UNDEF"
| "chain_list m chain_tab idx (i # is) \<longleftrightarrow>
     idx = i \<and> i \<noteq> STN_UNDEF \<and> chain_list m chain_tab (ld32 m (chain_tab + 4 * i)) is"

definition sym_named :: "mem \<Rightarrow> uld_section \<Rightarrow> uld_section \<Rightarrow> u32 \<Rightarrow> u8 list \<Rightarrow> bool" where
  "sym_named m dynstr_sec dynsym_sec idx nm \<longleftrightarrow>
     cs_is m (Ptr (uld_dyn_get_sym_name m (uld_dyn_get_dynsym_by_index_sec idx dynsym_sec) dynstr_sec)) nm"

definition sym_or_null :: "uld_section \<Rightarrow> u32 option \<Rightarrow> u32" where
  "sym_or_null dynsym_sec r = (case r of None \<Rightarrow> 0 | Some i \<Rightarrow> uld_dyn_get_dynsym_by_index_sec i dynsym_sec)"

lemma chain_loop_find:
  assumes "cs_is m name nm"
  shows "chain_list m tab idx is \<Longrightarrow> (\<And>i. i \<in> set is \<Longrightarrow> sym_named m ds ys i (names i))
    \<Longrightarrow> elf_chain_loop m name tab ds ys idx
        = Some (sym_or_null ys (List.find (\<lambda>i. names i = nm) is))"
proof (induction "is" arbitrary: idx)
  case Nil
  then show ?case by (subst elf_chain_loop.simps) (simp add: sym_or_null_def)
next
  case (Cons i "is")
  have IH: "elf_chain_loop m name tab ds ys (ld32 m (tab + 4 * i))
      = Some (sym_or_null ys (List.find (\<lambda>i. names i = nm) is))"
    using Cons.prems by (intro Cons.IH) auto
  obtain r where r: "uld_strcmp m name
      (Ptr (uld_dyn_get_sym_name m (uld_dyn_get_dynsym_by_index_sec i ys) ds)) = Some r"
      "r = 0 \<longleftrightarrow> nm = names i"
    using uld_strcmp_eq [OF assms Cons.prems(2) [of i, unfolded sym_named_def]] by auto
  show ?case using Cons.prems(1) r IH by (subst elf_chain_loop.simps) (auto simp: sym_or_null_def)
qed

lemma dynsym_step: "uld_dyn_get_dynsym_by_index_sec (of_nat (Suc k)) ys
    = uld_dyn_get_dynsym_by_index_sec (of_nat k) ys + 16"
  by (simp add: uld_dyn_get_dynsym_by_index_sec_def algebra_simps)

lemma linear_loop_find:
  assumes "cs_is m name nm"
  shows "(\<And>i. k \<le> i \<Longrightarrow> i < k + n \<Longrightarrow> sym_named m ds ys (of_nat i) (names (of_nat i)))
    \<Longrightarrow> dynsym_linear_loop m name ds (uld_dyn_get_dynsym_by_index_sec (of_nat k) ys) n
        = Some (sym_or_null ys (List.find (\<lambda>i. names i = nm) (map of_nat [k..<k + n])))"
proof (induction n arbitrary: k)
  case 0
  then show ?case by (simp add: sym_or_null_def)
next
  case (Suc n)
  have IH: "dynsym_linear_loop m name ds (uld_dyn_get_dynsym_by_index_sec (of_nat k) ys + 16) n
      = Some (sym_or_null ys (List.find (\<lambda>i. names i = nm) (map of_nat [Suc k..<Suc k + n])))"
    unfolding dynsym_step [symmetric] using Suc.prems by (intro Suc.IH) auto
  obtain r where r: "uld_strcmp m name
      (Ptr (uld_dyn_get_sym_name m (uld_dyn_get_dynsym_by_index_sec (of_nat k) ys) ds)) = Some r"
      "r = 0 \<longleftrightarrow> nm = names (of_nat k)"
    using uld_strcmp_eq [OF assms Suc.prems [of k, unfolded sym_named_def]] by auto
  have "[k..<k + Suc n] = k # [Suc k..<Suc k + n]" by (simp add: upt_conv_Cons)
  then show ?case using r IH by (auto simp: sym_or_null_def)
qed

text \<open>The System V hash table of a file: the symbols are named by \<open>names\<close>, no two of them share a name (a section
  symbol has the empty one), every bucket is a chain of symbol indices that ends, and a named symbol is on the
  chain of its hash.\<close>

definition hash_table_ok :: "mem \<Rightarrow> uld_section \<Rightarrow> uld_section \<Rightarrow> uld_section \<Rightarrow> (nat \<Rightarrow> u8 list) \<Rightarrow> bool" where
  "hash_table_ok m hash_sec dynstr_sec dynsym_sec names \<longleftrightarrow>
     (let tab = sec_adjusted_lma hash_sec; nbucket = ld32 m tab;
          n = uld_dyn_get_dynsym_count_sec m dynsym_sec
      in nbucket \<noteq> 0 \<and>
         (\<forall>i<n. sym_named m dynstr_sec dynsym_sec (of_nat i) (names i)) \<and>
         (\<forall>i<n. \<forall>j<n. names i = names j \<longrightarrow> names i \<noteq> [] \<longrightarrow> i = j) \<and>
         (\<forall>b<nbucket. \<exists>is. chain_list m (tab + 4 * (nbucket + 2)) (ld32 m (tab + 4 * (b + 2))) is \<and>
            unat ` set is \<subseteq> {..<n} \<and>
            (\<forall>i<n. names i \<noteq> [] \<and> elf_hash_bytes (names i) mod nbucket = b \<longrightarrow> of_nat i \<in> set is)))"

lemma dynsym_count_lt: "uld_dyn_get_dynsym_count_sec m ys < 2 ^ 28"
  using unat_lt32 [of "sh_size (shdr_at m (sec_shdr ys))"] by (simp add: uld_dyn_get_dynsym_count_sec_def)

lemma unat_sym_index: "i < uld_dyn_get_dynsym_count_sec m ys \<Longrightarrow> unat (of_nat i :: u32) = i"
  using dynsym_count_lt [of m ys] by (simp add: unat_of_nat)

text \<open>The symbol both lookups have to find.\<close>

definition dynsym_spec :: "mem \<Rightarrow> uld_section \<Rightarrow> (nat \<Rightarrow> u8 list) \<Rightarrow> u8 list \<Rightarrow> u32" where
  "dynsym_spec m dynsym_sec names nm =
     sym_or_null dynsym_sec
       (map_option of_nat (List.find (\<lambda>i. names i = nm) [0..<uld_dyn_get_dynsym_count_sec m dynsym_sec]))"

lemma linear_spec:
  assumes "cs_is m name nm" "name \<noteq> Ptr 0" "hash_table_ok m hs ds ys names"
  shows "uld_dyn_find_dynsym_linear_sec m name (Some ds) (Some ys) = Some (dynsym_spec m ys names nm)"
proof -
  let ?n = "uld_dyn_get_dynsym_count_sec m ys"
  have "sym_named m ds ys (of_nat i) (names (unat (of_nat i :: u32)))" if "i < ?n" for i
    using assms(3) that by (simp add: hash_table_ok_def Let_def unat_sym_index)
  from linear_loop_find [of m name nm 0 ?n ds ys "names \<circ> unat", OF assms(1)] this
  have "dynsym_linear_loop m name ds (sec_adjusted_lma ys) ?n
      = Some (sym_or_null ys (List.find (\<lambda>i. names (unat i) = nm) (map of_nat [0..<?n])))"
    by (simp add: uld_dyn_get_dynsym_by_index_sec_def)
  moreover have "List.find ((\<lambda>i. names (unat (i :: u32)) = nm) \<circ> of_nat) [0..<?n]
      = List.find (\<lambda>i. names i = nm) [0..<?n]"
    by (rule find_cong_set) (simp add: unat_sym_index)
  ultimately show ?thesis
    using assms(2) by (simp add: uld_dyn_find_dynsym_linear_sec_def dynsym_spec_def find_map_list)
qed

lemma hash_spec:
  assumes nm: "cs_is m name nm" "nm \<noteq> []" and name: "name \<noteq> Ptr 0" and wf: "hash_table_ok m hs ds ys names"
  shows "uld_dyn_find_dynsym_elf_hash_sec m name (Some hs) (Some ds) (Some ys)
    = Some (dynsym_spec m ys names nm)"
proof -
  let ?n = "uld_dyn_get_dynsym_count_sec m ys" and ?tab = "sec_adjusted_lma hs"
  let ?nb = "ld32 m ?tab" and ?h = "elf_hash_bytes nm"
  have nb: "?nb \<noteq> 0" using wf by (simp add: hash_table_ok_def Let_def)
  then have "?h mod ?nb < ?nb" by (simp add: word_gt_0 word_mod_less_divisor)
  then obtain "is" where ch: "chain_list m (?tab + 4 * (?nb + 2)) (ld32 m (?tab + 4 * (?h mod ?nb + 2))) is"
      and sub: "unat ` set is \<subseteq> {..<?n}"
      and on: "\<forall>i<?n. names i \<noteq> [] \<and> elf_hash_bytes (names i) mod ?nb = ?h mod ?nb \<longrightarrow> of_nat i \<in> set is"
    using wf unfolding hash_table_ok_def Let_def by blast
  have "sym_named m ds ys i (names (unat i))" if "i \<in> set is" for i
  proof -
    have "unat i < ?n" using sub that by auto
    moreover have "\<forall>k<?n. sym_named m ds ys (of_nat k) (names k)"
      using wf unfolding hash_table_ok_def Let_def by blast
    ultimately have "sym_named m ds ys (of_nat (unat i)) (names (unat i))" by blast
    then show ?thesis by simp
  qed
  then have "uld_dyn_find_dynsym_elf_hash_sec m name (Some hs) (Some ds) (Some ys)
      = Some (sym_or_null ys (List.find (\<lambda>i. names (unat i) = nm) is))"
    using name elf_hash_eq [OF nm(1)] chain_loop_find [OF nm(1) ch, of ds ys "names \<circ> unat"]
    by (simp add: uld_dyn_find_dynsym_elf_hash_sec_def Let_def)
  moreover have "List.find (\<lambda>i. names (unat i) = nm) is
      = map_option of_nat (List.find (\<lambda>i. names i = nm) [0..<?n])"
  proof (cases "List.find (\<lambda>i. names i = nm) [0..<?n]")
    case None
    then have "names i \<noteq> nm" if "i < ?n" for i using that by (simp add: find_None_iff)
    then have "List.find (\<lambda>i. names (unat i) = nm) is = None"
      using sub by (auto simp: find_None_iff image_subset_iff)
    then show ?thesis using None by simp
  next
    case (Some i)
    then have i: "i < ?n" "names i = nm" by (auto simp: find_Some_iff)
    have "List.find (\<lambda>i. names (unat i) = nm) is = Some (of_nat i)"
    proof (rule find_unique)
      show "of_nat i \<in> set is" using on i nm(2) by auto
      show "names (unat (of_nat i :: u32)) = nm" using i by (simp add: unat_sym_index)
      fix y assume y: "y \<in> set is" "names (unat y) = nm"
      then have "unat y < ?n" using sub by auto
      then have "unat y = i" using wf i y(2) nm(2) unfolding hash_table_ok_def Let_def by metis
      then show "y = of_nat i" by auto
    qed
    then show ?thesis using Some by simp
  qed
  ultimately show ?thesis by (simp add: dynsym_spec_def)
qed

section \<open>Properties\<close>

text \<open>C38 The hash of a terminated name is defined, is the fold of the hash step over its characters,
  and fits in 28 bits.\<close>

theorem elf_hash_bounded:
  assumes "cs_is m name bs"
  shows "uld_dyn_elf_hash m name = Some (elf_hash_bytes bs) \<and> elf_hash_bytes bs < 2 ^ 28"
  using assms elf_hash_eq elf_hash_bytes_lt by blast

theorem elf_hash_bounded_witness:
  "uld_dyn_elf_hash (\<lambda>a. 0) (Lit [109, 97, 105, 110]) = Some 0x737fe"
  using elf_hash_bounded [of "\<lambda>a. 0" "Lit [109, 97, 105, 110]" "[109, 97, 105, 110]"]
  by (simp add: elf_hash_bytes_def elf_hash_step_def)

text \<open>C9 On a well-formed symbol hash table the lookup through the hash and the search of the
  whole symbol table both return, and both return the symbol that has the name, null when there is none.\<close>

theorem dynsym_hash_is_linear:
  assumes "cs_is m name nm" and "nm \<noteq> []" and "name \<noteq> Ptr 0"
    and "hash_table_ok m hash_sec dynstr_sec dynsym_sec names"
  shows "uld_dyn_find_dynsym_elf_hash_sec m name (Some hash_sec) (Some dynstr_sec) (Some dynsym_sec)
      = Some (dynsym_spec m dynsym_sec names nm)
    \<and> uld_dyn_find_dynsym_linear_sec m name (Some dynstr_sec) (Some dynsym_sec)
      = Some (dynsym_spec m dynsym_sec names nm)"
  using hash_spec [OF assms] linear_spec [OF assms(1,3,4)] by blast

text \<open>A table of two symbols \<open>a\<close> and \<open>b\<close> in one bucket whose chain visits \<open>b\<close> first.\<close>

definition hash_mem :: mem where
  "hash_mem = (\<lambda>a. 0)(0x114 := 48, 0x1000 := 1, 0x1008 := 2, 0x1014 := 1, 0x2010 := 1, 0x2020 := 3,
     0x3001 := 97, 0x3003 := 98)"

definition hash_tab_sec :: uld_section where
  "hash_tab_sec = uld_section_zero\<lparr>sec_adjusted_lma := 0x1000\<rparr>"

definition hash_sym_sec :: uld_section where
  "hash_sym_sec = uld_section_zero\<lparr>sec_adjusted_lma := 0x2000, sec_shdr := 0x100\<rparr>"

definition hash_str_sec :: uld_section where
  "hash_str_sec = uld_section_zero\<lparr>sec_adjusted_lma := 0x3000\<rparr>"

lemmas hash_example_defs = hash_mem_def hash_tab_sec_def hash_sym_sec_def hash_str_sec_def

lemma hash_example_words:
  "ld32 hash_mem 0x1008 = 2" "ld32 hash_mem 0x1010 = 0" "ld32 hash_mem 0x1014 = 1"
  by (simp_all add: hash_mem_def ld32_def)

lemma hash_example_count: "uld_dyn_get_dynsym_count_sec hash_mem hash_sym_sec = 3"
  by (simp add: uld_dyn_get_dynsym_count_sec_def hash_example_defs shdr_at_def ld32_def uld_section_zero_def)

lemma hash_example_name:
  assumes "i < 3"
  shows "sym_named hash_mem hash_str_sec hash_sym_sec (of_nat i) ([[], [97], [98]] ! i)"
proof -
  have "i = 0 \<or> i = 1 \<or> i = 2" using assms by linarith
  then show ?thesis
    by (elim disjE) (simp_all add: sym_named_def cs_is_def uld_dyn_get_sym_name_def
        uld_dyn_get_dynsym_by_index_sec_def sym_at_def ld32_def hash_example_defs uld_section_zero_def)
qed

lemma hash_example_ok:
  "hash_table_ok hash_mem hash_tab_sec hash_str_sec hash_sym_sec (nth [[], [97], [98]])"
proof -
  have lt3: "(\<forall>i<3. P i) \<longleftrightarrow> P 0 \<and> P 1 \<and> P (2 :: nat)" for P
    by (auto simp: less_Suc_eq numeral_3_eq_3 numeral_2_eq_2)
  have one: "(\<forall>b<1. P b) \<longleftrightarrow> P (0 :: u32)" for P by (auto simp: word_less_1)
  have nb: "ld32 hash_mem (sec_adjusted_lma hash_tab_sec) = 1"
    by (simp add: hash_example_defs ld32_def)
  have "\<exists>is. chain_list hash_mem 0x100C (ld32 hash_mem 0x1008) is \<and> unat ` set is \<subseteq> {..<3} \<and>
      (\<forall>i<3. [[], [97], [98]] ! i \<noteq> ([] :: u8 list) \<longrightarrow> of_nat i \<in> set is)"
    by (rule exI [of _ "[2, 1]"]) (simp add: STN_UNDEF_def hash_example_words lt3)
  then show ?thesis
    unfolding hash_table_ok_def Let_def nb hash_example_count one
    by (simp add: hash_example_name lt3 hash_tab_sec_def)
qed

theorem dynsym_hash_is_linear_witness:
  "uld_dyn_find_dynsym_elf_hash_sec hash_mem (Lit [97]) (Some hash_tab_sec) (Some hash_str_sec)
     (Some hash_sym_sec) = Some 0x2010"
proof -
  have "cs_is hash_mem (Lit [97]) [97]" by simp
  then have "uld_dyn_find_dynsym_elf_hash_sec hash_mem (Lit [97]) (Some hash_tab_sec) (Some hash_str_sec)
     (Some hash_sym_sec) = Some (dynsym_spec hash_mem hash_sym_sec (nth [[], [97], [98]]) [97])"
    using dynsym_hash_is_linear [OF _ _ _ hash_example_ok, of "Lit [97]" "[97]"] by simp
  moreover have "dynsym_spec hash_mem hash_sym_sec (nth [[], [97], [98]]) [97] = 0x2010"
    unfolding dynsym_spec_def hash_example_count
    by (simp add: numeral_3_eq_3 sym_or_null_def hash_sym_sec_def uld_dyn_get_dynsym_by_index_sec_def)
  ultimately show ?thesis by simp
qed

section \<open>The dynamic table\<close>

definition dt_tag :: "mem \<Rightarrow> u32 \<Rightarrow> nat \<Rightarrow> u32" where
  "dt_tag m dyn i = d_tag (dyn_at m (dyn + 8 * of_nat i))"

lemma dt_tag_Suc: "dt_tag m dyn (Suc i) = dt_tag m (dyn + 8) i"
  by (simp add: dt_tag_def algebra_simps)

text \<open>C39 In a dynamic table with an end mark the search for the next needed library returns; it
  returns the first entry tagged as needed when that comes before the first end mark, and null otherwise.\<close>

theorem next_dt_needed_first:
  assumes "dt_tag m dyn k = DT_NULL"
  shows "\<exists>i\<le>k. (\<forall>j<i. dt_tag m dyn j \<noteq> DT_NULL \<and> dt_tag m dyn j \<noteq> DT_NEEDED) \<and>
    (dt_tag m dyn i = DT_NEEDED \<and> uld_dyn_next_dt_needed m dyn = Some (dyn + 8 * of_nat i) \<or>
     dt_tag m dyn i = DT_NULL \<and> uld_dyn_next_dt_needed m dyn = Some 0)"
  using assms
proof (induction k arbitrary: dyn)
  case 0
  then have "uld_dyn_next_dt_needed m dyn = Some 0"
    by (subst uld_dyn_next_dt_needed.simps) (simp add: dt_tag_def)
  then show ?case using 0 by simp
next
  case (Suc k)
  let ?t = "dt_tag m dyn 0"
  have t: "d_tag (dyn_at m dyn) = ?t" by (simp add: dt_tag_def)
  consider "?t = DT_NULL" | "?t \<noteq> DT_NULL" "?t = DT_NEEDED" | "?t \<noteq> DT_NULL" "?t \<noteq> DT_NEEDED" by blast
  then show ?case
  proof cases
    case 1
    then have "uld_dyn_next_dt_needed m dyn = Some 0" by (subst uld_dyn_next_dt_needed.simps) (simp add: t)
    then show ?thesis using 1 by (intro exI [of _ 0]) simp
  next
    case 2
    then have "uld_dyn_next_dt_needed m dyn = Some dyn" by (subst uld_dyn_next_dt_needed.simps) (simp add: t)
    then show ?thesis using 2 by (intro exI [of _ 0]) simp
  next
    case 3
    then have n: "uld_dyn_next_dt_needed m dyn = uld_dyn_next_dt_needed m (dyn + 8)"
      by (subst uld_dyn_next_dt_needed.simps) (simp add: t)
    obtain i where i: "i \<le> k" "\<forall>j<i. dt_tag m (dyn + 8) j \<noteq> DT_NULL \<and> dt_tag m (dyn + 8) j \<noteq> DT_NEEDED"
      "dt_tag m (dyn + 8) i = DT_NEEDED \<and> uld_dyn_next_dt_needed m (dyn + 8) = Some (dyn + 8 + 8 * of_nat i) \<or>
       dt_tag m (dyn + 8) i = DT_NULL \<and> uld_dyn_next_dt_needed m (dyn + 8) = Some 0"
      using Suc.IH [of "dyn + 8"] Suc.prems by (auto simp: dt_tag_Suc)
    have "\<forall>j<Suc i. dt_tag m dyn j \<noteq> DT_NULL \<and> dt_tag m dyn j \<noteq> DT_NEEDED"
      using i(2) 3 by (auto simp: less_Suc_eq_0_disj dt_tag_Suc)
    then show ?thesis using i(1,3) n by (intro exI [of _ "Suc i"]) (simp add: dt_tag_Suc algebra_simps)
  qed
qed

theorem next_dt_needed_first_witness:
  "uld_dyn_next_dt_needed ((\<lambda>a. 0)(0x100 := 5, 0x108 := 1)) 0x100 = Some 0x108"
proof -
  let ?m = "(\<lambda>a. 0)(0x100 := 5, 0x108 := 1) :: mem"
  have t: "dt_tag ?m 0x100 0 = 5" "dt_tag ?m 0x100 1 = 1" "dt_tag ?m 0x100 2 = 0"
    by (simp_all add: dt_tag_def dyn_at_def ld32_def)
  obtain i where i: "i \<le> 2" "\<forall>j<i. dt_tag ?m 0x100 j \<noteq> 0 \<and> dt_tag ?m 0x100 j \<noteq> 1"
    "dt_tag ?m 0x100 i = 1 \<and> uld_dyn_next_dt_needed ?m 0x100 = Some (0x100 + 8 * of_nat i) \<or>
     dt_tag ?m 0x100 i = 0 \<and> uld_dyn_next_dt_needed ?m 0x100 = Some 0"
    using next_dt_needed_first [of ?m "0x100" 2] t(3) unfolding DT_NULL_def DT_NEEDED_def by blast
  have "i \<noteq> 0" using i(3) t(1) by (intro notI) simp
  moreover have "i \<noteq> 2" using i(2) t(2) by force
  ultimately have "i = 1" using i(1) by linarith
  then show ?thesis using i(3) t(2) by simp
qed

end
