(* ===== verification/Rofixup.thy ===== *)
theory Rofixup
  imports Load
begin

text \<open>\<open>src/uld_rofixup.c\<close>: the .rofixup table, applied to flash (after a move) and to memory (at load).\<close>

type_synonym do_fixup_t = "machine \<Rightarrow> u32 \<Rightarrow> nat \<Rightarrow> (int \<times> u32 \<times> u32 \<times> machine) option"

definition fixup_limits :: "mem \<Rightarrow> u32 \<Rightarrow> uld_section list \<Rightarrow> u32 \<times> u32" where
  "fixup_limits m need_flag sec_list =
     foldl (\<lambda>(lo, hi) sec.
         if sec_flags sec AND need_flag \<noteq> 0
         then (min lo (sec_lma sec), max hi (sec_lma sec + sh_size (shdr_at m (sec_shdr sec))))
         else (lo, hi))
       (0xffffffff, 0) sec_list"

partial_function (option) fixup_loop ::
    "do_fixup_t \<Rightarrow> u32 \<Rightarrow> u32 \<Rightarrow> u32 \<Rightarrow> uld_section list \<Rightarrow> uld_section \<Rightarrow> u32 \<Rightarrow> machine
       \<Rightarrow> (int \<times> machine) option" where
  "fixup_loop do_fixup need_flag lo hi sec_list rofixup fixup_addr s =
     (if fixup_addr < sec_adjusted_lma rofixup + sh_size (shdr_at (mem s) (sec_shdr rofixup))
      then if ld32 (mem s) fixup_addr < lo \<or> ld32 (mem s) fixup_addr \<ge> hi
           then fixup_loop do_fixup need_flag lo hi sec_list rofixup (fixup_addr + 4) s
           else Option.bind
             (uld_section_find_in_list_by_lma_flag (mem s) sec_list (ld32 (mem s) fixup_addr)
                need_flag need_flag)
             (\<lambda>r. case r of
                None \<Rightarrow> fixup_loop do_fixup need_flag lo hi sec_list rofixup (fixup_addr + 4) s
              | Some i \<Rightarrow> Option.bind (do_fixup s fixup_addr i)
                  (\<lambda>(ret, adj, new, s').
                     if ret = 0
                     then fixup_loop do_fixup need_flag lo hi sec_list rofixup (fixup_addr + 4)
                            (s'\<lparr>mem := st32 (mem s') adj new\<rparr>)
                     else if ret < 0 then Some (ret, s')
                     else fixup_loop do_fixup need_flag lo hi sec_list rofixup (fixup_addr + 4) s'))
      else Some (0, s))"

definition uld_rofixup_apply_fixups ::
    "machine \<Rightarrow> uld_section \<Rightarrow> u32 \<Rightarrow> u32 \<Rightarrow> uld_section list \<Rightarrow> u32 \<Rightarrow> u32 \<Rightarrow> do_fixup_t
       \<Rightarrow> (int \<times> uld_section list \<times> machine) option" where
  "uld_rofixup_apply_fixups s stk ehdr base0 sec_list need_flag done_flag do_fixup =
     (if ehdr = 0 \<or> sec_list = [] then Some (- 1, sec_list, s)
      else let base = (if base0 = 0 then ehdr else base0)
           in do {
             rofixup_shdr \<leftarrow> elf32_get_section_by_name (mem s) ehdr base (Lit (map of_char ''.rofixup''));
             if rofixup_shdr = 0 then Some (1, sec_list, s)
             else do {
               (r, rofixup, s1) \<leftarrow> uld_load_create_section s stk ehdr base rofixup_shdr
                 (elf32_get_shidx_by_section (mem s) ehdr base rofixup_shdr) 0;
               let (lo, hi) = fixup_limits (mem s1) need_flag sec_list;
               (ret, s2) \<leftarrow> fixup_loop do_fixup need_flag lo hi sec_list rofixup
                 (sec_adjusted_lma rofixup) s1;
               if ret < 0 then Some (ret, sec_list, s2)
               else Some (0, map (\<lambda>sec. sec\<lparr>sec_flags := sec_flags sec OR done_flag\<rparr>) sec_list, s2) } })"

definition uld_rofixup_do_flash_fixup ::
    "u32 \<Rightarrow> uld_section list \<Rightarrow> uld_section list \<Rightarrow> uld_section list \<Rightarrow> do_fixup_t" where
  "uld_rofixup_do_flash_fixup base flash_list mem_list sec_list s fixup_addr i =
     (let m = mem s; fixup_sec = sec_list ! i;
          fixup_sec_new_adj_lma = elf32_adjust_lma m (sec_shdr fixup_sec) base;
          adj = ld32 m fixup_addr - sec_lma fixup_sec + fixup_sec_new_adj_lma;
          v = ld32 m adj
      in if v = 0 then Some (1, adj, 0, s)
         else do {
           f \<leftarrow> uld_section_find_in_list_by_adj_lma m flash_list v;
           g \<leftarrow> (case f of Some j \<Rightarrow> Some (Some (flash_list ! j))
                  | None \<Rightarrow> do { f' \<leftarrow> uld_section_find_in_list_by_adj_lma m mem_list v;
                                  Some (map_option ((!) mem_list) f') });
           case g of
             None \<Rightarrow> do {
               h \<leftarrow> (if mem_list \<noteq> [] then uld_section_find_in_list_by_lma m mem_list v else Some None);
               Some (1, adj, 0, if h = None then swbkpt s else s) }
           | Some tgt \<Rightarrow>
               Some (0, adj, v - sec_adjusted_vma tgt + elf32_adjust_lma m (sec_shdr tgt) base, s) })"

definition uld_rofixup_do_mem_fixup ::
    "uld_section list \<Rightarrow> uld_section list \<Rightarrow> nat option \<Rightarrow> nat option \<Rightarrow> u32 \<Rightarrow> do_fixup_t" where
  "uld_rofixup_do_mem_fixup flash_list mem_list got_sec got_plt_sec membase s fixup_addr i =
     (let m = mem s; fixup_sec = mem_list ! i;
          adj = ld32 m fixup_addr - sec_lma fixup_sec + sec_adjusted_vma fixup_sec;
          v = ld32 m adj
      in if v = 0 then Some (1, adj, 0, s)
         else do {
           f \<leftarrow> uld_section_find_in_list_by_lma m mem_list v;
           case f of
             None \<Rightarrow> if flash_list \<noteq> []
               then do { g \<leftarrow> uld_section_find_in_list_by_adj_lma m flash_list v;
                         Some (1, adj, 0, if g = None then swbkpt s else s) }
               else Some (1, adj, 0, s)
           | Some j \<Rightarrow>
               Some (0, adj,
                 if Some i = got_sec \<and> got_plt_sec \<noteq> None \<and> v = sec_lma (mem_list ! the got_plt_sec)
                 then membase
                 else v - sec_lma (mem_list ! j) + sec_adjusted_vma (mem_list ! j), s) })"

definition uld_rofixup_apply_flash_fixups ::
    "machine \<Rightarrow> uld_section \<Rightarrow> u32 \<Rightarrow> u32 \<Rightarrow> uld_section list \<Rightarrow> uld_section list
       \<Rightarrow> (int \<times> uld_section list \<times> uld_section list \<times> machine) option" where
  "uld_rofixup_apply_flash_fixups s stk ehdr base0 flash_list mem_list =
     (if ehdr = 0 \<or> flash_list = [] then Some (- 1, flash_list, mem_list, s)
      else let base = (if base0 = 0 then ehdr else base0)
           in do {
             (ret, flash_list', s1) \<leftarrow> uld_rofixup_apply_fixups s stk ehdr base flash_list
               ULD_SECTION_FLAG_STATUS_FLASH_NEEDS_FIXUP ULD_SECTION_FLAG_STATUS_FLASH_FIXUP_DONE
               (uld_rofixup_do_flash_fixup base flash_list mem_list flash_list);
             if ret \<noteq> 0 then Some (ret, flash_list', mem_list, s1)
             else do {
               (ret', mem_list', s2) \<leftarrow> uld_rofixup_apply_fixups s1 stk ehdr base mem_list
                 ULD_SECTION_FLAG_STATUS_FLASH_NEEDS_FIXUP ULD_SECTION_FLAG_STATUS_FLASH_FIXUP_DONE
                 (uld_rofixup_do_flash_fixup base flash_list' mem_list mem_list);
               Some (ret', flash_list', mem_list', s2) } })"

definition uld_rofixup_apply_mem_fixups ::
    "machine \<Rightarrow> uld_section \<Rightarrow> u32 \<Rightarrow> u32 \<Rightarrow> uld_section list \<Rightarrow> uld_section list \<Rightarrow> u32
       \<Rightarrow> (int \<times> uld_section list \<times> machine) option" where
  "uld_rofixup_apply_mem_fixups s stk ehdr base flash_list mem_list membase =
     (if ehdr = 0 then Some (- 1, mem_list, s)
      else if mem_list = [] then Some (1, mem_list, s)
      else do {
        got_sec \<leftarrow> uld_section_find_in_list_by_name (mem s) mem_list (Lit (map of_char ''.got''));
        got_plt_sec \<leftarrow> uld_section_find_in_list_by_name (mem s) mem_list (Lit (map of_char ''.got.plt''));
        uld_rofixup_apply_fixups s stk ehdr base mem_list
          ULD_SECTION_FLAG_STATUS_MEM_NEEDS_FIXUP ULD_SECTION_FLAG_STATUS_MEM_FIXUP_DONE
          (uld_rofixup_do_mem_fixup flash_list mem_list got_sec got_plt_sec membase) })"

section \<open>Memory fixups\<close>

text \<open>What one word \<open>t\<close> of the fixup table asks for, in terms of the section headers in \<open>hm\<close>: the slot is the place of
  \<open>t\<close> in the loaded image of the first flagged section that holds it; the word in the slot is moved with the
  section that holds it.\<close>

definition fixup_slot :: "mem \<Rightarrow> u32 \<Rightarrow> uld_section list \<Rightarrow> u32 \<Rightarrow> nat option" where
  "fixup_slot hm need_flag mem_list t =
     first_idx (\<lambda>sec. sec_flags sec AND need_flag = need_flag \<and> in_extent hm t (sec_lma sec) sec) mem_list"

definition moved_addr :: "uld_section \<Rightarrow> u32 \<Rightarrow> u32" where
  "moved_addr sec a = a - sec_lma sec + sec_adjusted_vma sec"

definition mem_fixup ::
    "mem \<Rightarrow> u32 \<Rightarrow> uld_section list \<Rightarrow> nat option \<Rightarrow> nat option \<Rightarrow> u32 \<Rightarrow> mem \<Rightarrow> u32 \<Rightarrow> mem" where
  "mem_fixup hm need_flag mem_list got_sec got_plt_sec membase m t =
     (case fixup_slot hm need_flag mem_list t of
        None \<Rightarrow> m
      | Some i \<Rightarrow>
          let slot = moved_addr (mem_list ! i) t; v = ld32 m slot
          in if v = 0 then m
             else case first_idx (\<lambda>sec. in_extent hm v (sec_lma sec) sec) mem_list of
                    None \<Rightarrow> m
                  | Some j \<Rightarrow>
                      st32 m slot
                        (if Some i = got_sec \<and> got_plt_sec \<noteq> None \<and> v = sec_lma (mem_list ! the got_plt_sec)
                         then membase else moved_addr (mem_list ! j) v))"

definition loaded_area :: "mem \<Rightarrow> uld_section list \<Rightarrow> u32 set" where
  "loaded_area hm mem_list =
     (\<Union>sec\<in>set mem_list. rng (sec_adjusted_vma sec) (unat (sh_size (shdr_at hm (sec_shdr sec))) + 3))"

text \<open>The limits of the table search only skip words that no flagged section holds.\<close>

lemma fixup_limits_fold:
  fixes m :: mem and need_flag :: u32
  defines "f \<equiv> \<lambda>(lo, hi) sec.
         if sec_flags sec AND need_flag \<noteq> 0
         then (min lo (sec_lma sec), max hi (sec_lma sec + sh_size (shdr_at m (sec_shdr sec))))
         else (lo, hi :: u32)"
  shows "foldl f (lo0, hi0) secs = (lo, hi) \<Longrightarrow> lo \<le> lo0 \<and> hi0 \<le> hi \<and>
    (\<forall>sec\<in>set secs. sec_flags sec AND need_flag \<noteq> 0 \<longrightarrow>
       lo \<le> sec_lma sec \<and> sec_lma sec + sh_size (shdr_at m (sec_shdr sec)) \<le> hi)"
proof (induction secs arbitrary: lo0 hi0)
  case (Cons sec secs)
  obtain lo1 hi1 where 1: "f (lo0, hi0) sec = (lo1, hi1)" by (cases "f (lo0, hi0) sec")
  note IH = Cons.IH [of lo1 hi1]
  have "lo1 \<le> lo0 \<and> hi0 \<le> hi1 \<and> (sec_flags sec AND need_flag \<noteq> 0 \<longrightarrow>
      lo1 \<le> sec_lma sec \<and> sec_lma sec + sh_size (shdr_at m (sec_shdr sec)) \<le> hi1)"
    using 1 by (auto simp: f_def split: if_splits)
  then show ?case using IH Cons.prems 1 by auto
qed simp

lemma fixup_limits_hold:
  assumes "fixup_limits m need_flag secs = (lo, hi)" "sec \<in> set secs" "sec_flags sec AND need_flag \<noteq> 0"
    and "in_extent m t (sec_lma sec) sec"
  shows "lo \<le> t \<and> t < hi"
  using fixup_limits_fold [of need_flag m "0xffffffff" 0 secs lo hi] assms
  unfolding fixup_limits_def in_extent_def by auto

lemma in_extent_agree:
  assumes "agrees_off R hm m" "rng (sec_shdr sec) 40 \<inter> R = {}"
  shows "in_extent m a b sec = in_extent hm a b sec"
  using shdr_at_agree [OF assms] by (simp add: in_extent_def)

text \<open>The slot of an address that a section holds, when the section begins at \<open>b\<close>.\<close>

lemma slot_in_image:
  assumes "in_extent m t l sec"
  shows "rng (t - l + b) 4 \<subseteq> rng b (unat (sh_size (shdr_at m (sec_shdr sec))) + 3)"
proof
  fix a assume "a \<in> rng (t - l + b) 4"
  then have "unat (a - (t - l + b)) < 4" by (simp add: rng_iff)
  moreover have "unat (t - l) < unat (sh_size (shdr_at m (sec_shdr sec)))" using in_extent_offset [OF assms] .
  moreover have eq: "a - b = (a - (t - l + b)) + (t - l)" by simp
  ultimately show "a \<in> rng b (unat (sh_size (shdr_at m (sec_shdr sec))) + 3)"
    using unat_add_le [of "a - (t - l + b)" "t - l"] unfolding rng_iff eq by linarith
qed

lemma loaded_slot:
  assumes "i < length mem_list" "in_extent hm t (sec_lma (mem_list ! i)) (mem_list ! i)"
  shows "rng (moved_addr (mem_list ! i) t) 4 \<subseteq> loaded_area hm mem_list"
  using slot_in_image [OF assms(2), of "sec_adjusted_vma (mem_list ! i)"] nth_mem [OF assms(1)]
  unfolding loaded_area_def moved_addr_def by blast

lemma mem_fixup_agrees:
  assumes "agrees_off (loaded_area hm mem_list) hm m"
  shows "agrees_off (loaded_area hm mem_list) hm (mem_fixup hm need mem_list got gplt membase m t)"
  using assms loaded_slot [of _ mem_list hm t]
  unfolding mem_fixup_def fixup_slot_def
  by (auto simp: Let_def split: option.split dest!: first_idx_hit intro!: agrees_off_st32)

definition headers_apart :: "mem \<Rightarrow> uld_section list \<Rightarrow> bool" where
  "headers_apart hm mem_list \<longleftrightarrow>
     (\<forall>sec\<in>set mem_list. rng (sec_shdr sec) 40 \<inter> loaded_area hm mem_list = {})"

lemma do_mem_fixup_run:
  assumes ag: "agrees_off (loaded_area hm mem_list) hm (mem s)" and hd: "headers_apart hm mem_list"
    and slot: "fixup_slot hm need mem_list (ld32 (mem s) addr) = Some i"
  shows "\<exists>ret adj new s'. uld_rofixup_do_mem_fixup flash_list mem_list got gplt membase s addr i = Some (ret, adj, new, s')
    \<and> 0 \<le> ret \<and> flash_lock s' = flash_lock s
    \<and> (if ret = 0 then st32 (mem s') adj new else mem s')
       = mem_fixup hm need mem_list got gplt membase (mem s) (ld32 (mem s) addr) \<and> mem s' = mem s"
proof -
  let ?v = "ld32 (mem s) (moved_addr (mem_list ! i) (ld32 (mem s) addr))"
  have ext: "in_extent (mem s) v (sec_lma sec) sec = in_extent hm v (sec_lma sec) sec" if "sec \<in> set mem_list" for sec v
    using hd that by (intro in_extent_agree [OF ag]) (auto simp: headers_apart_def)
  have find: "uld_section_find_in_list_by_lma (mem s) mem_list ?v
      = Some (first_idx (\<lambda>sec. in_extent hm ?v (sec_lma sec) sec) mem_list)"
    unfolding lma_search.search_first using ext by (auto intro!: arg_cong [where f = Some] first_idx_cong)
  obtain g where g: "uld_section_find_in_list_by_adj_lma (mem s) flash_list ?v = Some g"
    using adj_lma_search.search_total by blast
  show ?thesis
    using slot find g unfolding uld_rofixup_do_mem_fixup_def mem_fixup_def
    by (auto simp: Let_def moved_addr_def [symmetric] split: option.split) (rule exI [of _ 1]; simp)+
qed

definition table_apart :: "mem \<Rightarrow> uld_section list \<Rightarrow> uld_section \<Rightarrow> bool" where
  "table_apart hm mem_list rofixup \<longleftrightarrow>
     (let size = unat (sh_size (shdr_at hm (sec_shdr rofixup)))
      in rng (sec_shdr rofixup) 40 \<inter> loaded_area hm mem_list = {} \<and>
         rng (sec_adjusted_lma rofixup) (size + 3) \<inter> loaded_area hm mem_list = {} \<and>
         unat (sec_adjusted_lma rofixup) + size + 4 \<le> 2 ^ 32)"

definition fixup_table :: "mem \<Rightarrow> uld_section \<Rightarrow> u32 list" where
  "fixup_table hm rofixup = map (\<lambda>i. ld32 hm (sec_adjusted_lma rofixup + 4 * of_nat i))
     [0..<(unat (sh_size (shdr_at hm (sec_shdr rofixup))) + 3) div 4]"

lemma fixup_loop_run:
  assumes hd: "headers_apart hm mem_list" "table_apart hm mem_list rofixup"
    and lim: "fixup_limits hm need mem_list = (lo, hi)" and need: "need \<noteq> 0"
    and ag: "agrees_off (loaded_area hm mem_list) hm (mem s)" and k: "k \<le> length (fixup_table hm rofixup)"
  shows "\<exists>s'. fixup_loop (uld_rofixup_do_mem_fixup flash_list mem_list got gplt membase) need lo hi mem_list rofixup
      (sec_adjusted_lma rofixup + 4 * of_nat k) s = Some (0, s')
    \<and> flash_lock s' = flash_lock s
    \<and> mem s' = foldl (mem_fixup hm need mem_list got gplt membase) (mem s) (drop k (fixup_table hm rofixup))"
  using ag k
proof (induction "length (fixup_table hm rofixup) - k" arbitrary: k s)
  case 0
  let ?size = "sh_size (shdr_at hm (sec_shdr rofixup))" and ?start = "sec_adjusted_lma rofixup"
  have sz: "sh_size (shdr_at (mem s) (sec_shdr rofixup)) = ?size"
    using shdr_at_agree [OF 0(2)] hd(2) by (simp add: table_apart_def Let_def)
  have "k = (unat ?size + 3) div 4" using 0 by (simp add: fixup_table_def)
  then have "unat ?size \<le> 4 * k" "4 * k \<le> unat ?size + 3" by presburger+
  moreover have "unat ?start + unat ?size + 4 \<le> 2 ^ 32" using hd(2) by (simp add: table_apart_def Let_def)
  ultimately have "\<not> ?start + 4 * of_nat k < ?start + ?size"
    using unat_add_of_nat [of ?start "4 * k"] unat_add_of_nat [of ?start "unat ?size"]
    by (simp add: word_less_nat_alt)
  then show ?case using 0 sz by (subst fixup_loop.simps) simp
next
  case (Suc n)
  let ?size = "sh_size (shdr_at hm (sec_shdr rofixup))" and ?start = "sec_adjusted_lma rofixup"
  let ?tab = "fixup_table hm rofixup" and ?addr = "?start + 4 * of_nat k"
  let ?fix = "mem_fixup hm need mem_list got gplt membase"
  let ?loop = "fixup_loop (uld_rofixup_do_mem_fixup flash_list mem_list got gplt membase) need lo hi mem_list rofixup"
  have kl: "k < length ?tab" using Suc.hyps(2) by linarith
  have sz: "sh_size (shdr_at (mem s) (sec_shdr rofixup)) = ?size"
    using shdr_at_agree [OF Suc.prems(1)] hd(2) by (simp add: table_apart_def Let_def)
  have k4: "4 * k < unat ?size" 
  proof -
    have "k < (unat ?size + 3) div 4" using kl by (simp add: fixup_table_def)
    then show ?thesis by linarith
  qed
  have room: "unat ?start + unat ?size + 4 \<le> 2 ^ 32" using hd(2) by (simp add: table_apart_def Let_def)
  have less: "?addr < ?start + ?size"
    using k4 room unat_add_of_nat [of ?start "4 * k"] unat_add_of_nat [of ?start "unat ?size"]
    by (simp add: word_less_nat_alt)
  have word: "ld32 (mem s) ?addr = ?tab ! k"
  proof -
    have "4 \<le> unat ?size + 3 - 4 * k" "4 * k \<le> unat ?size + 3" "unat ?size + 3 \<le> 2 ^ 32" using k4 room by linarith+
    from rng_mono [OF this(1), of ?addr] rng_sub [OF this(2,3), of ?start]
    have "rng ?addr 4 \<subseteq> rng ?start (unat ?size + 3)" by simp
    moreover have "rng ?start (unat ?size + 3) \<inter> loaded_area hm mem_list = {}"
      using hd(2) by (simp add: table_apart_def Let_def)
    ultimately have "a \<notin> loaded_area hm mem_list" if "a \<in> rng ?addr 4" for a using that by blast
    then have "ld32 (mem s) ?addr = ld32 hm ?addr"
      using Suc.prems(1) by (intro ld32_cong) (simp add: agrees_off_def)
    then show ?thesis using kl by (simp add: fixup_table_def)
  qed
  have nx: "?addr + 4 = ?start + 4 * of_nat (Suc k)" by (simp add: algebra_simps)
  have dr: "drop k ?tab = ?tab ! k # drop (Suc k) ?tab" using kl by (simp add: Cons_nth_drop_Suc)
  have IH: "\<exists>s'. ?loop (?addr + 4) s1 = Some (0, s') \<and> flash_lock s' = flash_lock s1
      \<and> mem s' = foldl ?fix (mem s1) (drop (Suc k) ?tab)"
    if "agrees_off (loaded_area hm mem_list) hm (mem s1)" for s1
    unfolding nx using Suc.hyps(2) kl that by (intro Suc.hyps(1)) auto
  have ext: "in_extent (mem s) v (sec_lma sec) sec = in_extent hm v (sec_lma sec) sec" if "sec \<in> set mem_list" for sec v
    using hd(1) that by (intro in_extent_agree [OF Suc.prems(1)]) (auto simp: headers_apart_def)
  have find: "uld_section_find_in_list_by_lma_flag (mem s) mem_list (?tab ! k) need need
      = Some (fixup_slot hm need mem_list (?tab ! k))"
    unfolding uld_section_find_in_list_by_lma_flag_def find_in_list_by_lma_eq fixup_slot_def
    using ext by (auto intro!: arg_cong [where f = Some] first_idx_cong)
  show ?case
  proof (cases "fixup_slot hm need mem_list (?tab ! k)")
    case None
    then have "?loop ?addr s = ?loop (?addr + 4) s"
      using less sz word find by (subst fixup_loop.simps) simp
    moreover have "?fix (mem s) (?tab ! k) = mem s" using None by (simp add: mem_fixup_def)
    ultimately show ?thesis using IH [OF Suc.prems(1)] dr by simp
  next
    case (Some i)
    have i: "i < length mem_list" "sec_flags (mem_list ! i) AND need = need"
        "in_extent hm (?tab ! k) (sec_lma (mem_list ! i)) (mem_list ! i)"
      using Some by (auto simp: fixup_slot_def dest!: first_idx_hit)
    have lh: "\<not> ?tab ! k < lo" "\<not> hi \<le> ?tab ! k"
      using fixup_limits_hold [OF lim nth_mem [OF i(1)] _ i(3)] i(2) need by auto
    obtain ret adj new s1 where r: "uld_rofixup_do_mem_fixup flash_list mem_list got gplt membase s ?addr i = Some (ret, adj, new, s1)"
        "0 \<le> ret" "flash_lock s1 = flash_lock s" "mem s1 = mem s"
        "(if ret = 0 then st32 (mem s1) adj new else mem s1) = ?fix (mem s) (?tab ! k)"
      using do_mem_fixup_run [OF Suc.prems(1) hd(1), of need ?addr i flash_list got gplt membase] Some word by auto
    let ?s1 = "if ret = 0 then s1\<lparr>mem := st32 (mem s1) adj new\<rparr> else s1"
    have "?loop ?addr s = ?loop (?addr + 4) ?s1"
      using less sz word find Some lh r(1,2) by (subst fixup_loop.simps) simp
    moreover have m1: "mem ?s1 = ?fix (mem s) (?tab ! k)" using r(5) by (cases "ret = 0") auto
    moreover have "agrees_off (loaded_area hm mem_list) hm (mem ?s1)"
      unfolding m1 by (rule mem_fixup_agrees [OF Suc.prems(1)])
    moreover have "flash_lock ?s1 = flash_lock s" using r(3) by simp
    ultimately show ?thesis using IH [of ?s1] dr by simp
  qed
qed

section \<open>Properties\<close>

text \<open>C7 The fixup loop over a table that lies, with the section headers, outside the loaded sections
  returns 0, and its effect on memory is that of the specification: every word of the table, in order, moves the slot
  it names with the section that holds its content. The limits that the loop computes first only skip words that name
  no slot.\<close>

theorem mem_fixups_refine:
  assumes "headers_apart (mem s) mem_list" "table_apart (mem s) mem_list rofixup"
    and "fixup_limits (mem s) need_flag mem_list = (lo, hi)" "need_flag \<noteq> 0"
  shows "\<exists>s'. fixup_loop (uld_rofixup_do_mem_fixup flash_list mem_list got_sec got_plt_sec membase) need_flag lo hi
      mem_list rofixup (sec_adjusted_lma rofixup) s = Some (0, s')
    \<and> flash_lock s' = flash_lock s
    \<and> mem s' = foldl (mem_fixup (mem s) need_flag mem_list got_sec got_plt_sec membase) (mem s)
        (fixup_table (mem s) rofixup)"
  using fixup_loop_run [OF assms, of s 0] by simp

text \<open>A section of eight bytes at \<open>0x1000\<close>, loaded at \<open>0x5000\<close>; the table names the word at \<open>0x1004\<close>, which points to the
  beginning of the section.\<close>

definition fixup_mem :: mem where
  "fixup_mem = (\<lambda>a. 0)(0x214 := 8, 0x314 := 4, 0x3000 := 4, 0x3001 := 0x10, 0x5005 := 0x10)"

definition fixup_sec :: uld_section where
  "fixup_sec = uld_section_zero\<lparr>sec_shdr := 0x200, sec_lma := 0x1000, sec_adjusted_vma := 0x5000,
     sec_flags := ULD_SECTION_FLAG_STATUS_MEM_NEEDS_FIXUP\<rparr>"

definition fixup_rofixup :: uld_section where
  "fixup_rofixup = uld_section_zero\<lparr>sec_shdr := 0x300, sec_adjusted_lma := 0x3000\<rparr>"

lemmas fixup_example_defs = fixup_sec_def fixup_rofixup_def uld_section_zero_def

lemma fixup_example:
  "sh_size (shdr_at fixup_mem 0x200) = 8" "sh_size (shdr_at fixup_mem 0x300) = 4" "ld32 fixup_mem 0x3000 = 0x1004"
  "ld32 fixup_mem 0x5004 = 0x1000" "sec_shdr fixup_sec = 0x200" "sec_shdr fixup_rofixup = 0x300"
  by (simp_all add: shdr_at_def ld32_def fixup_mem_def fixup_example_defs)

theorem mem_fixups_refine_witness:
  "\<exists>s'. fixup_loop (uld_rofixup_do_mem_fixup [] [fixup_sec] None None 0) ULD_SECTION_FLAG_STATUS_MEM_NEEDS_FIXUP
      0x1000 0x1008 [fixup_sec] fixup_rofixup 0x3000 (mach0 fixup_mem) = Some (0, s')
    \<and> mem s' = st32 fixup_mem 0x5004 0x5000"
proof -
  have area: "loaded_area fixup_mem [fixup_sec] = rng 0x5000 11"
    by (simp add: loaded_area_def fixup_example) (simp add: fixup_example_defs)
  have "rng 0x200 40 \<inter> rng 0x5000 11 = {}" "rng 0x300 40 \<inter> rng 0x5000 11 = {}" "rng 0x3000 7 \<inter> rng 0x5000 11 = {}"
    by (rule rng_disjoint_linear; simp)+
  then have apart: "headers_apart fixup_mem [fixup_sec]" "table_apart fixup_mem [fixup_sec] fixup_rofixup"
    unfolding headers_apart_def table_apart_def area fixup_example Let_def
    by (simp_all add: fixup_example) (simp add: fixup_example_defs)
  have lim: "fixup_limits fixup_mem ULD_SECTION_FLAG_STATUS_MEM_NEEDS_FIXUP [fixup_sec] = (0x1000, 0x1008)"
    by (simp add: fixup_limits_def fixup_example) (simp add: fixup_example_defs sec_flag_defs min_def max_def)
  have tab: "fixup_table fixup_mem fixup_rofixup = [0x1004]"
    by (simp add: fixup_table_def fixup_example) (simp add: fixup_example_defs fixup_example)
  have "mem_fixup fixup_mem ULD_SECTION_FLAG_STATUS_MEM_NEEDS_FIXUP [fixup_sec] None None 0 fixup_mem 0x1004
      = st32 fixup_mem 0x5004 0x5000"
    by (simp add: mem_fixup_def fixup_slot_def in_extent_def fixup_example moved_addr_def Let_def)
      (simp add: fixup_example_defs fixup_example sec_flag_defs)
  then show ?thesis
    using mem_fixups_refine [of "mach0 fixup_mem" "[fixup_sec]" fixup_rofixup ULD_SECTION_FLAG_STATUS_MEM_NEEDS_FIXUP
        "0x1000" "0x1008" "[]" None None 0] apart lim tab
    by (simp add: sec_flag_defs) (auto simp: fixup_rofixup_def)
qed

end
