(* ===== verification/LoadFile.thy ===== *)
theory LoadFile
  imports Rofixup File
begin

text \<open>\<open>uld_load_file\<close> of \<open>src/uld_load.c\<close>, which puts the previous parts together.\<close>

definition uld_load_file ::
    "u32 \<Rightarrow> machine \<Rightarrow> uld_section \<Rightarrow> u32 \<Rightarrow> uld_section list \<Rightarrow> int \<Rightarrow> u32 \<Rightarrow> u32 \<Rightarrow> u32 \<Rightarrow> uld_file
       \<Rightarrow> (int \<times> u32 \<times> u32 \<times> uld_file \<times> machine) option" where
  "uld_load_file bss_end s stk fse sec_list snum type_mask membase allocated ufile0 = do {
     (ret, uf, s1) \<leftarrow> uld_load_create_file s fse sec_list snum type_mask ufile0;
     if ret \<noteq> 0 then Some (ret, membase, allocated, uf, s1)
     else if uf_mem uf = [] then Some (ret, membase, allocated, uf, s1)
     else do {
       let membase1 = uld_load_get_next_membase bss_end membase allocated;
       let uf1 = uf\<lparr>uf_membase := membase1\<rparr>;
       let ehdr = fse_base (fse_at (mem s1) fse);
       let (ret, allocated1, mem_list, s2) =
             uld_load_alloc_mem_sections s1 ehdr 0 membase1 allocated (uf_mem uf1);
       let uf2 = uf1\<lparr>uf_mem := mem_list\<rparr>;
       if ret \<noteq> 0 then Some (ret, membase1, allocated1, uf2, s2)
       else do {
         let uf3 = uf2\<lparr>uf_memsz := allocated1\<rparr>;
         (ret, mem_list', s3) \<leftarrow> uld_rofixup_apply_mem_fixups s2 stk (fse_base (fse_at (mem s2) fse)) 0
           (uf_flash uf3) (uf_mem uf3) (uf_membase uf3);
         Some (ret, membase1, allocated1, uf3\<lparr>uf_mem := mem_list'\<rparr>, s3) } } }"

end
