(* ===== verification/DynDeps.thy ===== *)
theory DynDeps
  imports DynSym LoadFile
begin

text \<open>The dependency list of \<open>src/uld_dyn.c\<close> and the loading of the files on it.\<close>

definition uld_dyn_create_fse_dep_list_get_sections ::
    "machine \<Rightarrow> uld_section \<Rightarrow> u32 \<Rightarrow> (int \<times> uld_section \<times> uld_section \<times> machine) option" where
  "uld_dyn_create_fse_dep_list_get_sections s stk fse =
     (let m = mem s; ehdr = fse_base (fse_at m fse);
          shstrtab = elf32_get_section_by_index m ehdr 0 (uint (e_shstrndx (ehdr_at m ehdr)));
          shstrtab_faddr = elf32_get_section_flash_addr m shstrtab ehdr
      in do {
        shdr \<leftarrow> elf32_get_section_by_name_shstrtab_faddr m ehdr 0 (Lit (map of_char ''.dynamic''))
                  shstrtab_faddr;
        if shdr = 0 then Some (1, stk, stk, s)
        else do {
          (ret, dyn_sec, s1) \<leftarrow> uld_load_create_section s stk ehdr 0 shdr 0 shstrtab_faddr;
          if ret \<noteq> 0 then Some (ret, dyn_sec, stk, s1)
          else do {
            shdr2 \<leftarrow> elf32_get_section_by_name_shstrtab_faddr m ehdr 0 (Lit (map of_char ''.dynstr''))
                      shstrtab_faddr;
            if shdr2 = 0 then Some (- 1, dyn_sec, stk, s1)
            else do {
              (ret2, dynstr_sec, s2) \<leftarrow> uld_load_create_section s1 stk ehdr 0 shdr2 0 shstrtab_faddr;
              Some (ret2, dyn_sec, dynstr_sec, s2) } } } })"

datatype dep_call = Visit u32 | Needed u32 u32 u32

definition dep_finish :: "int \<Rightarrow> u32 \<Rightarrow> u32 list \<Rightarrow> machine \<Rightarrow> (int \<times> u32 list \<times> machine) option" where
  "dep_finish list_size fse dep_list s =
     (if int (length dep_list) = list_size then Some (- 2, dep_list, s)
      else Some (0, dep_list @ [fse], s))"

partial_function (option) dep_run ::
    "uld_section \<Rightarrow> u32 \<Rightarrow> int \<Rightarrow> dep_call \<Rightarrow> u32 list \<Rightarrow> machine \<Rightarrow> (int \<times> u32 list \<times> machine) option" where
  "dep_run stk pstore list_size call dep_list s =
     (case call of
        Visit fse \<Rightarrow>
          if fse \<in> set dep_list then Some (0, dep_list, s)
          else Option.bind (uld_dyn_create_fse_dep_list_get_sections s stk fse)
            (\<lambda>(ret, dyn_sec, dynstr_sec, s1).
               if ret < 0 then Some (ret, dep_list, s1)
               else if ret = 1 then dep_finish list_size fse dep_list s1
               else Option.bind (uld_dyn_next_dt_needed (mem s1) (sec_adjusted_lma dyn_sec))
                 (\<lambda>dyn. dep_run stk pstore list_size
                          (Needed fse dyn (sec_adjusted_lma dynstr_sec)) dep_list s1))
      | Needed fse dyn dynstr \<Rightarrow>
          if dyn = 0 then dep_finish list_size fse dep_list s
          else Option.bind
            (uld_fs_get_file_by_name (mem s) (fst_head (pstore_at (mem s) pstore))
               (Ptr (dynstr + d_val (dyn_at (mem s) dyn))))
            (\<lambda>dep_fse.
               if dep_fse = 0 then Some (- 1, dep_list, s)
               else Option.bind (dep_run stk pstore list_size (Visit dep_fse) dep_list s)
                 (\<lambda>(ret, dep_list1, s1).
                    if ret \<noteq> 0 then Some (ret, dep_list1, s1)
                    else Option.bind (uld_dyn_next_dt_needed (mem s1) (dyn + 8))
                      (\<lambda>dyn'. dep_run stk pstore list_size (Needed fse dyn' dynstr) dep_list1 s1))))"

definition uld_dyn_create_fse_dep_list ::
    "machine \<Rightarrow> uld_section \<Rightarrow> u32 \<Rightarrow> u32 \<Rightarrow> u32 list \<Rightarrow> int \<Rightarrow> (int \<times> u32 list \<times> machine) option" where
  "uld_dyn_create_fse_dep_list s stk pstore fse dep_list list_size =
     dep_run stk pstore list_size (Visit fse) dep_list s"

definition uld_dyn_get_fse_dep_count ::
    "machine \<Rightarrow> uld_section \<Rightarrow> u32 \<Rightarrow> u32 \<Rightarrow> (int \<times> machine) option" where
  "uld_dyn_get_fse_dep_count s stk pstore fse =
     (if fse = 0 then Some (- 1, s)
      else do {
        fse_count \<leftarrow> uld_fs_get_file_count (mem s) (fst_head (pstore_at (mem s) pstore));
        (ret, dep_list, s1) \<leftarrow> uld_dyn_create_fse_dep_list s stk pstore fse [] fse_count;
        if ret \<noteq> 0 then Some (ret, s1) else Some (int (length dep_list), s1) })"

fun dep_sec_count_loop :: "machine \<Rightarrow> u32 list \<Rightarrow> u32 \<Rightarrow> int \<Rightarrow> nat \<Rightarrow> (int \<times> machine) option" where
  "dep_sec_count_loop s dep_list type_mask cnt 0 = Some (cnt, s)"
| "dep_sec_count_loop s dep_list type_mask cnt (Suc n) = do {
     (c, s1) \<leftarrow> uld_load_get_sec_count s (fse_base (fse_at (mem s) (dep_list ! n))) 0 type_mask;
     dep_sec_count_loop s1 dep_list type_mask (cnt + c) n }"

definition uld_dyn_get_dep_list_sec_count ::
    "machine \<Rightarrow> u32 list \<Rightarrow> int \<Rightarrow> u32 \<Rightarrow> (int \<times> machine) option" where
  "uld_dyn_get_dep_list_sec_count s dep_list dep_count type_mask =
     (if dep_count < 0 \<or> nat dep_count > length dep_list then None
      else dep_sec_count_loop s dep_list type_mask 0 (nat dep_count))"

definition ULD_DYN_LOAD_SECTION_TYPE_MASK :: u32 where
  "ULD_DYN_LOAD_SECTION_TYPE_MASK = ULD_SECTION_FLAG_TYPE_FLASH OR ULD_SECTION_FLAG_TYPE_MEM
     OR ULD_SECTION_FLAG_TYPE_DYNAMIC"

fun load_dep_loop ::
    "u32 \<Rightarrow> uld_section \<Rightarrow> machine \<Rightarrow> int \<Rightarrow> u32 \<Rightarrow> u32 \<Rightarrow> u32 list
       \<Rightarrow> (int \<times> uld_file list \<times> u32 \<times> u32 \<times> machine) option" where
  "load_dep_loop bss_end stk s avail membase allocated [] = Some (0, [], membase, allocated, s)"
| "load_dep_loop bss_end stk s avail membase allocated (fse # rest) = do {
     (ret, membase1, allocated1, uf, s1) \<leftarrow>
       uld_load_file bss_end s stk fse (replicate (nat avail) uld_section_zero) avail
         ULD_DYN_LOAD_SECTION_TYPE_MASK membase allocated uld_file_zero;
     if ret \<noteq> 0
     then Some (ret, uf # map (\<lambda>_. uld_file_zero) rest, membase1, allocated1, swbkpt s1)
     else do {
       (ret', ufs, membase', allocated', s') \<leftarrow>
         load_dep_loop bss_end stk s1 (avail - uld_file_get_sec_count uf) membase1 allocated1 rest;
       Some (ret', uf # ufs, membase', allocated', s') } }"

definition uld_dyn_load_fse_dep_list ::
    "u32 \<Rightarrow> machine \<Rightarrow> uld_section \<Rightarrow> u32 list \<Rightarrow> int \<Rightarrow> u32 \<Rightarrow> u32
       \<Rightarrow> (int \<times> uld_file list \<times> u32 \<times> u32 \<times> machine) option" where
  "uld_dyn_load_fse_dep_list bss_end s stk dep_list sec_count membase allocated =
     (if sec_count < 0 then Some (- 1, [], membase, allocated, s)
      else let membase1 = uld_load_get_next_membase bss_end membase 0
           in do {
             (ret, ufs, lf_membase, lf_allocated, s') \<leftarrow>
               load_dep_loop bss_end stk s sec_count membase1 0 dep_list;
             if ret \<noteq> 0 then Some (ret, ufs, membase1, allocated, s')
             else Some (0, ufs, membase1, lf_membase - membase1 + lf_allocated, s') })"

lemma get_sections_ex:
  "\<exists>r d t k. \<forall>s. mem s = m \<longrightarrow> uld_dyn_create_fse_dep_list_get_sections s stk fse = Some (r, d, t, bump k s)"
proof -
  define ehdr where "ehdr = fse_base (fse_at m fse)"
  define str where "str = elf32_get_section_flash_addr m
     (elf32_get_section_by_index m ehdr 0 (uint (e_shstrndx (ehdr_at m ehdr)))) ehdr"
  obtain sh where 1: "elf32_get_section_by_name_shstrtab_faddr m ehdr 0 (Lit (map of_char ''.dynamic'')) str = Some sh"
    using by_name_shstrtab_faddr_total by blast
  obtain sh2 where 2: "elf32_get_section_by_name_shstrtab_faddr m ehdr 0 (Lit (map of_char ''.dynstr'')) str = Some sh2"
    using by_name_shstrtab_faddr_total by blast
  obtain r d k where 3: "\<And>s. mem s = m \<Longrightarrow> uld_load_create_section s stk ehdr 0 sh 0 str = Some (r, d, bump k s)"
    using create_section_ex by meson
  obtain r2 d2 k2 where 4: "\<And>s. mem s = m \<Longrightarrow> uld_load_create_section s stk ehdr 0 sh2 0 str = Some (r2, d2, bump k2 s)"
    using create_section_ex by meson
  have "uld_dyn_create_fse_dep_list_get_sections s stk fse
      = (if sh = 0 then Some (1, stk, stk, s)
         else if r \<noteq> 0 then Some (r, d, stk, bump k s)
         else if sh2 = 0 then Some (- 1, d, stk, bump k s)
         else Some (r2, d, d2, bump k2 (bump k s)))" if "mem s = m" for s
    using 3 [OF that] 4 [of "bump k s", unfolded bump_simps(1), OF that]
    unfolding uld_dyn_create_fse_dep_list_get_sections_def Let_def that ehdr_def [symmetric]
      str_def [symmetric] 1 2
    by simp
  then show ?thesis by (metis bump_simps(3,4))
qed

definition fse_sections :: "mem \<Rightarrow> uld_section \<Rightarrow> u32 \<Rightarrow> int \<times> u32 \<times> u32" where
  "fse_sections m stk fse =
     (case the (uld_dyn_create_fse_dep_list_get_sections (mach0 m) stk fse) of
        (r, d, t, s) \<Rightarrow> (r, sec_adjusted_lma d, sec_adjusted_lma t))"

lemma get_sections_eq:
  assumes "uld_dyn_create_fse_dep_list_get_sections s stk fse = Some (r, d, t, s')"
  shows "fse_sections (mem s) stk fse = (r, sec_adjusted_lma d, sec_adjusted_lma t)
     \<and> (\<exists>k. s' = bump k s)"
proof -
  obtain r' d' t' k where *: "\<forall>u. mem u = mem s \<longrightarrow>
      uld_dyn_create_fse_dep_list_get_sections u stk fse = Some (r', d', t', bump k u)"
    using get_sections_ex by meson
  show ?thesis using assms * [rule_format, of s] * [rule_format, of "mach0 (mem s)"]
    by (auto simp: fse_sections_def)
qed

fun needed_deps :: "mem \<Rightarrow> u32 \<Rightarrow> u32 \<Rightarrow> u32 \<Rightarrow> u32 list \<Rightarrow> bool" where
  "needed_deps m pstore dynstr dyn [] \<longleftrightarrow> dyn = 0"
| "needed_deps m pstore dynstr dyn (d # ds) \<longleftrightarrow> dyn \<noteq> 0 \<and> d \<noteq> 0
     \<and> uld_fs_get_file_by_name m (fst_head (pstore_at m pstore)) (Ptr (dynstr + d_val (dyn_at m dyn))) = Some d
     \<and> (case uld_dyn_next_dt_needed m (dyn + 8) of Some n \<Rightarrow> needed_deps m pstore dynstr n ds | None \<Rightarrow> False)"

definition fse_needs :: "mem \<Rightarrow> uld_section \<Rightarrow> u32 \<Rightarrow> u32 \<Rightarrow> u32 list \<Rightarrow> bool" where
  "fse_needs m stk pstore fse ds \<longleftrightarrow>
     (case fse_sections m stk fse of (r, dyn, dynstr) \<Rightarrow>
        (r = 1 \<and> ds = []) \<or>
        (0 \<le> r \<and> r \<noteq> 1 \<and> (case uld_dyn_next_dt_needed m dyn of
                            Some n \<Rightarrow> needed_deps m pstore dynstr n ds | None \<Rightarrow> False)))"

definition dep_rel :: "mem \<Rightarrow> uld_section \<Rightarrow> u32 \<Rightarrow> (u32 \<times> u32) set" where
  "dep_rel m stk pstore = {(f, d). \<exists>ds. fse_needs m stk pstore f ds \<and> d \<in> set ds}"

definition load_ordered :: "mem \<Rightarrow> uld_section \<Rightarrow> u32 \<Rightarrow> u32 list \<Rightarrow> bool" where
  "load_ordered m stk pstore l \<longleftrightarrow>
     (\<forall>i<length l. \<exists>ds. fse_needs m stk pstore (l ! i) ds \<and> set ds \<subseteq> set (take i l))"

lemma needed_deps_unique:
  "needed_deps m ps str dyn ds \<Longrightarrow> needed_deps m ps str dyn ds' \<Longrightarrow> ds = ds'"
proof (induction ds arbitrary: dyn ds')
  case Nil
  then show ?case by (cases ds') auto
next
  case (Cons d ds)
  then show ?case by (cases ds') (auto split: option.splits)
qed

lemma fse_needs_unique: "fse_needs m stk ps f ds \<Longrightarrow> fse_needs m stk ps f ds' \<Longrightarrow> ds = ds'"
  by (auto simp: fse_needs_def split: prod.splits option.splits dest: needed_deps_unique)

lemma load_ordered_Nil [simp]: "load_ordered m stk ps []"
  by (simp add: load_ordered_def)

lemma load_ordered_snoc:
  "load_ordered m stk ps l \<Longrightarrow> fse_needs m stk ps f ds \<Longrightarrow> set ds \<subseteq> set l \<Longrightarrow> load_ordered m stk ps (l @ [f])"
  by (auto simp: load_ordered_def nth_append less_Suc_eq)

lemma load_ordered_dep:
  assumes "load_ordered m stk ps l" "i < length l" "(l ! i, x) \<in> dep_rel m stk ps"
  shows "x \<in> set (take i l)"
proof -
  obtain ds where "fse_needs m stk ps (l ! i) ds" "set ds \<subseteq> set (take i l)"
    using assms(1,2) by (auto simp: load_ordered_def)
  moreover obtain ds' where "fse_needs m stk ps (l ! i) ds'" "x \<in> set ds'"
    using assms(3) by (auto simp: dep_rel_def)
  ultimately show ?thesis by (auto dest: fse_needs_unique)
qed

lemma load_ordered_reach:
  assumes "load_ordered m stk ps l" "(y, x) \<in> (dep_rel m stk ps)\<^sup>+" "i < length l" "y = l ! i"
  shows "x \<in> set (take i l)"
  using assms(2,3,4)
proof (induction arbitrary: i rule: converse_trancl_induct)
  case (base y)
  then show ?case using load_ordered_dep [OF assms(1)] by simp
next
  case (step y z)
  then have "z \<in> set (take i l)" using load_ordered_dep [OF assms(1)] by simp
  then obtain j where j: "j < i" "z = l ! j" using step.prems(1) by (auto simp: in_set_conv_nth)
  then have "x \<in> set (take j l)" using step.prems(1) by (intro step.IH) auto
  then show ?case using j(1) by (meson in_mono less_imp_le set_take_subset_set_take)
qed

lemma load_ordered_acyclic:
  assumes "load_ordered m stk ps l" "f \<in> set l"
  shows "(f, f) \<notin> (dep_rel m stk ps)\<^sup>+"
proof
  assume c: "(f, f) \<in> (dep_rel m stk ps)\<^sup>+"
  obtain i where i: "first_idx (\<lambda>x. x = f) l = Some i"
    using assms(2) by (cases "first_idx (\<lambda>x. x = f) l") (auto simp: first_idx_None_iff)
  then have "f \<in> set (take i l)"
    using load_ordered_reach [OF assms(1) c] by (auto simp: first_idx_Some_iff)
  then show False using i by (auto simp: first_idx_Some_iff in_set_conv_nth)
qed

lemma trancl_dep: "d \<in> set ds \<Longrightarrow> fse_needs m stk ps f ds \<Longrightarrow> (d, x) \<in> (dep_rel m stk ps)\<^sup>* \<Longrightarrow> (f, x) \<in> (dep_rel m stk ps)\<^sup>+"
  by (rule rtrancl_into_trancl2) (auto simp: dep_rel_def)

definition visit_post :: "mem \<Rightarrow> uld_section \<Rightarrow> u32 \<Rightarrow> u32 \<Rightarrow> u32 list \<Rightarrow> u32 list \<Rightarrow> bool" where
  "visit_post m stk ps f l l' \<longleftrightarrow>
     (\<exists>ext. l' = l @ ext \<and> f \<in> set l' \<and> (f \<notin> set l \<longrightarrow> ext \<noteq> [] \<and> last ext = f)
        \<and> (\<forall>x\<in>set ext. (f, x) \<in> (dep_rel m stk ps)\<^sup>*))
     \<and> (load_ordered m stk ps l \<longrightarrow> load_ordered m stk ps l' \<and> (distinct l \<longrightarrow> distinct l'))"

definition needed_post :: "mem \<Rightarrow> uld_section \<Rightarrow> u32 \<Rightarrow> u32 \<Rightarrow> u32 list \<Rightarrow> u32 list \<Rightarrow> u32 list \<Rightarrow> bool" where
  "needed_post m stk ps f ds l l' \<longleftrightarrow>
     (\<exists>ext. l' = l @ ext @ [f] \<and> set ds \<subseteq> set (l @ ext)
        \<and> (\<forall>x\<in>set ext. \<exists>d\<in>set ds. (d, x) \<in> (dep_rel m stk ps)\<^sup>*)
        \<and> (load_ordered m stk ps l \<longrightarrow> load_ordered m stk ps (l @ ext) \<and> (distinct l \<longrightarrow> distinct (l @ ext))))"

lemma visit_post_of_needed:
  assumes "needed_post m stk ps f ds l l'" "fse_needs m stk ps f ds" "f \<notin> set l"
  shows "visit_post m stk ps f l l'"
proof -
  obtain ext where e: "l' = l @ ext @ [f]" "set ds \<subseteq> set (l @ ext)"
    "\<forall>x\<in>set ext. \<exists>d\<in>set ds. (d, x) \<in> (dep_rel m stk ps)\<^sup>*"
    "load_ordered m stk ps l \<longrightarrow> load_ordered m stk ps (l @ ext) \<and> (distinct l \<longrightarrow> distinct (l @ ext))"
    using assms(1) by (auto simp: needed_post_def)
  have plus: "\<forall>x\<in>set ext. (f, x) \<in> (dep_rel m stk ps)\<^sup>+"
    using e(3) assms(2) by (auto intro: trancl_dep)
  have "f \<notin> set ext" if "load_ordered m stk ps l"
    using load_ordered_acyclic [of m stk ps "l @ ext" f] e(4) plus that by auto
  moreover have "load_ordered m stk ps (l @ ext @ [f])" if "load_ordered m stk ps l"
    using load_ordered_snoc [of m stk ps "l @ ext" f ds] e(2,4) that assms(2) by auto
  ultimately show ?thesis
    unfolding visit_post_def using e assms(3) plus
    by (intro conjI exI [of _ "ext @ [f]"]) (auto intro: trancl_into_rtrancl)
qed

lemma needed_post_step:
  assumes "visit_post m stk ps d l l1" "needed_post m stk ps f ds l1 l'"
  shows "needed_post m stk ps f (d # ds) l l'"
proof -
  obtain e1 where 1: "l1 = l @ e1" "d \<in> set l1" "\<forall>x\<in>set e1. (d, x) \<in> (dep_rel m stk ps)\<^sup>*"
    "load_ordered m stk ps l \<longrightarrow> load_ordered m stk ps l1 \<and> (distinct l \<longrightarrow> distinct l1)"
    using assms(1) by (auto simp: visit_post_def)
  obtain e2 where 2: "l' = l1 @ e2 @ [f]" "set ds \<subseteq> set (l1 @ e2)"
    "\<forall>x\<in>set e2. \<exists>d\<in>set ds. (d, x) \<in> (dep_rel m stk ps)\<^sup>*"
    "load_ordered m stk ps l1 \<longrightarrow> load_ordered m stk ps (l1 @ e2) \<and> (distinct l1 \<longrightarrow> distinct (l1 @ e2))"
    using assms(2) by (auto simp: needed_post_def)
  show ?thesis unfolding needed_post_def using 1 2
    by (intro exI [of _ "e1 @ e2"]) auto
qed

definition dep_post :: "uld_section \<Rightarrow> u32 \<Rightarrow> dep_call \<Rightarrow> u32 list \<Rightarrow> machine \<Rightarrow> int \<times> u32 list \<times> machine \<Rightarrow> bool" where
  "dep_post stk ps call l s out \<longleftrightarrow>
     (case out of (ret, l', s') \<Rightarrow> (\<exists>k. s' = bump k s) \<and> ret \<le> 0 \<and> (ret = 0 \<longrightarrow>
        (case call of
           Visit f \<Rightarrow> visit_post (mem s) stk ps f l l'
         | Needed f dyn str \<Rightarrow> \<exists>ds. needed_deps (mem s) ps str dyn ds \<and> needed_post (mem s) stk ps f ds l l')))"

lemma bump_ex_trans: "\<exists>j. s1 = bump j s \<Longrightarrow> \<exists>k. s2 = bump k s1 \<Longrightarrow> \<exists>k. s2 = bump k s"
  by (metis bump_simps(4))

lemma dep_finish_post:
  "dep_finish size0 f l s = Some (ret, l', s') \<Longrightarrow> s' = s \<and> ret \<le> 0 \<and> (ret = 0 \<longrightarrow> l' = l @ [f])"
  by (auto simp: dep_finish_def split: if_splits)

lemma dep_visit_post:
  assumes IH: "\<And>call l s y. run stk ps size0 call l s = Some y \<Longrightarrow> dep_post stk ps call l s y"
    and nin: "f \<notin> set l"
    and run: "Option.bind (uld_dyn_create_fse_dep_list_get_sections s stk f)
        (\<lambda>(ret, dyn_sec, dynstr_sec, s1).
           if ret < 0 then Some (ret, l, s1)
           else if ret = 1 then dep_finish size0 f l s1
           else Option.bind (uld_dyn_next_dt_needed (mem s1) (sec_adjusted_lma dyn_sec))
             (\<lambda>dyn. run stk ps size0 (Needed f dyn (sec_adjusted_lma dynstr_sec)) l s1)) = Some out"
  shows "dep_post stk ps (Visit f) l s out"
proof -
  obtain r d t s1 where g: "uld_dyn_create_fse_dep_list_get_sections s stk f = Some (r, d, t, s1)"
    using run by (cases "uld_dyn_create_fse_dep_list_get_sections s stk f") auto
  obtain k where k: "s1 = bump k s"
    and sec: "fse_sections (mem s) stk f = (r, sec_adjusted_lma d, sec_adjusted_lma t)"
    using get_sections_eq [OF g] by blast
  obtain ret l' s' where out: "out = (ret, l', s')" by (metis prod_cases3)
  consider "r < 0" | "r = 1" | "0 \<le> r" "r \<noteq> 1" by linarith
  then show ?thesis
  proof cases
    case 1
    then show ?thesis using run g k by (auto simp: dep_post_def)
  next
    case 2
    then have "dep_finish size0 f l s1 = Some (ret, l', s')" using run g out by simp
    then have fin: "s' = s1" "ret \<le> 0" "ret = 0 \<longrightarrow> l' = l @ [f]" by (auto dest: dep_finish_post)
    have "fse_needs (mem s) stk ps f []" using sec 2 by (simp add: fse_needs_def)
    then have "needed_post (mem s) stk ps f [] l l' \<longrightarrow> visit_post (mem s) stk ps f l l'"
      using visit_post_of_needed nin by blast
    then show ?thesis using fin k out by (auto simp: dep_post_def needed_post_def)
  next
    case 3
    then obtain dyn where dyn: "uld_dyn_next_dt_needed (mem s) (sec_adjusted_lma d) = Some dyn"
      and rec: "run stk ps size0 (Needed f dyn (sec_adjusted_lma t)) l s1 = Some out"
      using run g k by (cases "uld_dyn_next_dt_needed (mem s) (sec_adjusted_lma d)") auto
    have "dep_post stk ps (Needed f dyn (sec_adjusted_lma t)) l s1 out" by (rule IH [OF rec])
    then have post: "(\<exists>j. s' = bump j s1) \<and> ret \<le> 0" "ret = 0 \<longrightarrow> (\<exists>ds. needed_deps (mem s) ps (sec_adjusted_lma t) dyn ds
          \<and> needed_post (mem s) stk ps f ds l l')"
      using out k by (auto simp: dep_post_def)
    have "fse_needs (mem s) stk ps f ds" if "needed_deps (mem s) ps (sec_adjusted_lma t) dyn ds" for ds
      using that sec 3 dyn by (simp add: fse_needs_def)
    then show ?thesis using post k out nin bump_ex_trans [of s1 s s']
      by (auto simp: dep_post_def intro: visit_post_of_needed)
  qed
qed

lemma dep_needed_post:
  assumes IH: "\<And>call l s y. run stk ps size0 call l s = Some y \<Longrightarrow> dep_post stk ps call l s y"
    and run: "(if dyn = 0 then dep_finish size0 f l s
          else Option.bind
            (uld_fs_get_file_by_name (mem s) (fst_head (pstore_at (mem s) ps))
               (Ptr (dynstr + d_val (dyn_at (mem s) dyn))))
            (\<lambda>dep_fse.
               if dep_fse = 0 then Some (- 1, l, s)
               else Option.bind (run stk ps size0 (Visit dep_fse) l s)
                 (\<lambda>(ret, l1, s1).
                    if ret \<noteq> 0 then Some (ret, l1, s1)
                    else Option.bind (uld_dyn_next_dt_needed (mem s1) (dyn + 8))
                      (\<lambda>dyn'. run stk ps size0 (Needed f dyn' dynstr) l1 s1)))) = Some out"
  shows "dep_post stk ps (Needed f dyn dynstr) l s out"
proof -
  obtain ret l' s' where out: "out = (ret, l', s')" by (metis prod_cases3)
  let ?look = "uld_fs_get_file_by_name (mem s) (fst_head (pstore_at (mem s) ps))
               (Ptr (dynstr + d_val (dyn_at (mem s) dyn)))"
  consider "dyn = 0" | "dyn \<noteq> 0" "?look = Some 0" | d where "dyn \<noteq> 0" "?look = Some d" "d \<noteq> 0"
    using run by (cases ?look) (auto split: if_splits)
  then show ?thesis
  proof cases
    case 1
    then have "dep_finish size0 f l s = Some (ret, l', s')" using run out by simp
    then have "s' = s" "ret \<le> 0" "ret = 0 \<longrightarrow> l' = l @ [f]" by (auto dest: dep_finish_post)
    then show ?thesis using 1 out
      by (auto simp: dep_post_def needed_post_def intro!: exI [of _ 0] exI [of _ "[]"])
  next
    case 2
    then show ?thesis using run by (auto simp: dep_post_def intro: exI [of _ 0])
  next
    case 3
    then obtain r1 l1 s1 where v: "run stk ps size0 (Visit d) l s = Some (r1, l1, s1)"
      using run by (cases "run stk ps size0 (Visit d) l s") auto
    have "dep_post stk ps (Visit d) l s (r1, l1, s1)" by (rule IH [OF v])
    then obtain k where k: "s1 = bump k s" "r1 \<le> 0" and vp: "r1 = 0 \<longrightarrow> visit_post (mem s) stk ps d l l1"
      by (auto simp: dep_post_def)
    show ?thesis
    proof (cases "r1 = 0")
      case False
      then show ?thesis using run 3 v k by (auto simp: dep_post_def)
    next
      case True
      then obtain n where n: "uld_dyn_next_dt_needed (mem s) (dyn + 8) = Some n"
        and rec: "run stk ps size0 (Needed f n dynstr) l1 s1 = Some out"
        using run 3 v k by (cases "uld_dyn_next_dt_needed (mem s) (dyn + 8)") auto
      have "dep_post stk ps (Needed f n dynstr) l1 s1 out" by (rule IH [OF rec])
      then have post: "(\<exists>j. s' = bump j s1) \<and> ret \<le> 0" "ret = 0 \<longrightarrow> (\<exists>ds. needed_deps (mem s) ps dynstr n ds
          \<and> needed_post (mem s) stk ps f ds l1 l')"
        using out k by (auto simp: dep_post_def)
      have "\<exists>ds. needed_deps (mem s) ps dynstr dyn ds \<and> needed_post (mem s) stk ps f ds l l'" if r0: "ret = 0"
      proof -
        obtain ds where "needed_deps (mem s) ps dynstr n ds" "needed_post (mem s) stk ps f ds l1 l'"
          using post(2) r0 by blast
        then show ?thesis using 3 n vp True
          by (intro exI [of _ "d # ds"]) (auto intro: needed_post_step)
      qed
      then show ?thesis using post k out bump_ex_trans [of s1 s s'] by (auto simp: dep_post_def)
    qed
  qed
qed

lemma dep_run_post:
  assumes "dep_run stk ps size0 call l s = Some out"
  shows "dep_post stk ps call l s out"
proof (rule dep_run.raw_induct [OF _ assms, where P = "\<lambda>stk ps size0 call l s out. dep_post stk ps call l s out"])
  fix run stk ps size0 call l s out
  assume IH: "\<And>stk ps size0 call l s y. run stk ps size0 call l s = Some y \<Longrightarrow> dep_post stk ps call l s y"
    and run: "(case call of
        Visit fse \<Rightarrow>
          if fse \<in> set l then Some (0, l, s)
          else Option.bind (uld_dyn_create_fse_dep_list_get_sections s stk fse)
            (\<lambda>(ret, dyn_sec, dynstr_sec, s1).
               if ret < 0 then Some (ret, l, s1)
               else if ret = 1 then dep_finish size0 fse l s1
               else Option.bind (uld_dyn_next_dt_needed (mem s1) (sec_adjusted_lma dyn_sec))
                 (\<lambda>dyn. run stk ps size0
                          (Needed fse dyn (sec_adjusted_lma dynstr_sec)) l s1))
      | Needed fse dyn dynstr \<Rightarrow>
          if dyn = 0 then dep_finish size0 fse l s
          else Option.bind
            (uld_fs_get_file_by_name (mem s) (fst_head (pstore_at (mem s) ps))
               (Ptr (dynstr + d_val (dyn_at (mem s) dyn))))
            (\<lambda>dep_fse.
               if dep_fse = 0 then Some (- 1, l, s)
               else Option.bind (run stk ps size0 (Visit dep_fse) l s)
                 (\<lambda>(ret, dep_list1, s1).
                    if ret \<noteq> 0 then Some (ret, dep_list1, s1)
                    else Option.bind (uld_dyn_next_dt_needed (mem s1) (dyn + 8))
                      (\<lambda>dyn'. run stk ps size0 (Needed fse dyn' dynstr) dep_list1 s1)))) = Some out"
  show "dep_post stk ps call l s out"
  proof (cases call)
    case (Visit f)
    show ?thesis
    proof (cases "f \<in> set l")
      case True
      then show ?thesis using run Visit
        by (auto simp: dep_post_def visit_post_def intro: exI [of _ 0])
    next
      case False
      then show ?thesis using run Visit dep_visit_post [OF IH False] by simp
    qed
  next
    case (Needed f dyn str)
    then show ?thesis using run dep_needed_post [OF IH] by simp
  qed
qed

definition dep_graph_ok :: "mem \<Rightarrow> uld_section \<Rightarrow> u32 \<Rightarrow> u32 set \<Rightarrow> (u32 \<Rightarrow> nat) \<Rightarrow> bool" where
  "dep_graph_ok m stk ps F rank \<longleftrightarrow> finite F \<and>
     (\<forall>f\<in>F. \<exists>ds. fse_needs m stk ps f ds \<and> set ds \<subseteq> F \<and> (\<forall>d\<in>set ds. rank d < rank f))"

lemma dep_graph_step:
  assumes "dep_graph_ok m stk ps F rank" "f \<in> F" "(f, x) \<in> dep_rel m stk ps"
  shows "x \<in> F \<and> rank x < rank f"
  using assms by (auto simp: dep_graph_ok_def dep_rel_def dest: fse_needs_unique)

lemma dep_graph_reach:
  assumes "dep_graph_ok m stk ps F rank" "(f, x) \<in> (dep_rel m stk ps)\<^sup>*" "f \<in> F"
  shows "x \<in> F \<and> rank x \<le> rank f"
  using assms(2,3)
proof (induction rule: rtrancl_induct)
  case base
  then show ?case by simp
next
  case (step y z)
  then show ?case using dep_graph_step [OF assms(1), of y z] by auto
qed

definition dep_inv :: "mem \<Rightarrow> uld_section \<Rightarrow> u32 \<Rightarrow> u32 set \<Rightarrow> u32 list \<Rightarrow> bool" where
  "dep_inv m stk ps F l \<longleftrightarrow> load_ordered m stk ps l \<and> distinct l \<and> set l \<subseteq> F"

lemma dep_finish_ok:
  assumes "dep_inv m stk ps F l" "finite F" "f \<in> F" "f \<notin> set l" "int (card F) \<le> size0"
  shows "dep_finish size0 f l s = Some (0, l @ [f], s)"
proof -
  have "card (set l) < card F"
    using assms by (intro psubset_card_mono) (auto simp: dep_inv_def)
  then have "length l < card F" using assms(1) by (simp add: dep_inv_def distinct_card)
  then show ?thesis using assms(5) by (auto simp: dep_finish_def)
qed

lemma visit_post_inv:
  assumes "dep_graph_ok m stk ps F rank" "visit_post m stk ps f l l'" "dep_inv m stk ps F l" "f \<in> F"
  shows "dep_inv m stk ps F l' \<and> (\<forall>x\<in>set l'. x \<in> set l \<or> rank x \<le> rank f)"
proof -
  obtain ext where "l' = l @ ext" "\<forall>x\<in>set ext. (f, x) \<in> (dep_rel m stk ps)\<^sup>*"
    using assms(2) by (auto simp: visit_post_def)
  then show ?thesis
    using assms dep_graph_reach [OF assms(1)] by (fastforce simp: dep_inv_def visit_post_def)
qed

lemma dep_needed_total:
  assumes G: "dep_graph_ok m stk ps F rank" and card: "int (card F) \<le> size0" and f: "f \<in> F"
    and V: "\<And>d l s. d \<in> F \<Longrightarrow> rank d < rank f \<Longrightarrow> mem s = m \<Longrightarrow> dep_inv m stk ps F l
        \<Longrightarrow> \<exists>l' s'. dep_run stk ps size0 (Visit d) l s = Some (0, l', s')"
    and ds: "needed_deps m ps str dyn ds" "set ds \<subseteq> F" "\<forall>d\<in>set ds. rank d < rank f"
    and s: "mem s = m" and l: "dep_inv m stk ps F l" "f \<notin> set l"
  shows "\<exists>l' s'. dep_run stk ps size0 (Needed f dyn str) l s = Some (0, l', s')"
  using ds s l
proof (induction ds arbitrary: dyn l s)
  case Nil
  then have "dep_run stk ps size0 (Needed f dyn str) l s = Some (0, l @ [f], s)"
    using G card f dep_finish_ok by (subst dep_run.simps) (auto simp: dep_graph_ok_def)
  then show ?case by blast
next
  case (Cons d ds)
  then obtain l1 s1 where v: "dep_run stk ps size0 (Visit d) l s = Some (0, l1, s1)"
    using V [of d s l] by auto
  then have post: "dep_post stk ps (Visit d) l s (0, l1, s1)" by (rule dep_run_post)
  then have m1: "mem s1 = m" using Cons.prems by (auto simp: dep_post_def)
  have vp: "visit_post m stk ps d l l1" using post Cons.prems by (auto simp: dep_post_def)
  have inv: "dep_inv m stk ps F l1" "f \<notin> set l1"
    using visit_post_inv [OF G vp] Cons.prems by fastforce+
  obtain n where n: "uld_dyn_next_dt_needed m (dyn + 8) = Some n" "needed_deps m ps str n ds"
    using Cons.prems(1) by (auto split: option.splits)
  obtain l' s' where "dep_run stk ps size0 (Needed f n str) l1 s1 = Some (0, l', s')"
    using Cons.IH [OF n(2) _ _ m1 inv] Cons.prems by auto
  then have "dep_run stk ps size0 (Needed f dyn str) l s = Some (0, l', s')"
    using Cons.prems v n m1 by (subst dep_run.simps) auto
  then show ?case by blast
qed

lemma dep_visit_total:
  assumes G: "dep_graph_ok m stk ps F rank" and card: "int (card F) \<le> size0"
    and "f \<in> F" "mem s = m" "dep_inv m stk ps F l"
  shows "\<exists>l' s'. dep_run stk ps size0 (Visit f) l s = Some (0, l', s')"
  using assms(3-5)
proof (induction "rank f" arbitrary: f l s rule: less_induct)
  case less
  show ?case
  proof (cases "f \<in> set l")
    case True
    then show ?thesis by (subst dep_run.simps) simp
  next
    case False
    obtain ds where ds: "fse_needs m stk ps f ds" "set ds \<subseteq> F" "\<forall>d\<in>set ds. rank d < rank f"
      using G less.prems by (auto simp: dep_graph_ok_def)
    obtain r d t k where g: "uld_dyn_create_fse_dep_list_get_sections s stk f = Some (r, d, t, bump k s)"
      using get_sections_ex [of "mem s" stk f] by blast
    then have sec: "fse_sections m stk f = (r, sec_adjusted_lma d, sec_adjusted_lma t)"
      using get_sections_eq [OF g] less.prems by simp
    show ?thesis
    proof (cases "r = 1")
      case True
      then have "dep_run stk ps size0 (Visit f) l s = Some (0, l @ [f], bump k s)"
        using False g G card less.prems dep_finish_ok [of m stk ps F l f size0 "bump k s"]
        by (subst dep_run.simps) (auto simp: dep_graph_ok_def)
      then show ?thesis by blast
    next
      case r: False
      then obtain n where n: "0 \<le> r" "uld_dyn_next_dt_needed m (sec_adjusted_lma d) = Some n"
        "needed_deps m ps (sec_adjusted_lma t) n ds"
        using ds(1) sec by (auto simp: fse_needs_def split: option.splits)
      obtain l' s' where "dep_run stk ps size0 (Needed f n (sec_adjusted_lma t)) l (bump k s) = Some (0, l', s')"
        using dep_needed_total [OF G card less.prems(1) _ n(3) ds(2,3), of "bump k s" l]
          less.hyps less.prems False by auto
      then have "dep_run stk ps size0 (Visit f) l s = Some (0, l', s')"
        using False g r n less.prems by (subst dep_run.simps) auto
      then show ?thesis by blast
    qed
  qed
qed

lemma load_ordered_graph:
  assumes "load_ordered m stk ps l" "distinct l"
  shows "dep_graph_ok m stk ps (set l) (\<lambda>x. the (first_idx (\<lambda>y. y = x) l))"
proof -
  have idx: "first_idx (\<lambda>y. y = l ! i) l = Some i" if "i < length l" for i
    using assms(2) that by (auto simp: first_idx_Some_iff nth_eq_iff_index_eq)
  have "\<exists>ds. fse_needs m stk ps f ds \<and> set ds \<subseteq> set l \<and>
      (\<forall>d\<in>set ds. the (first_idx (\<lambda>y. y = d) l) < the (first_idx (\<lambda>y. y = f) l))" if f: "f \<in> set l" for f
  proof -
    obtain i where i: "i < length l" "f = l ! i" using f by (auto simp: in_set_conv_nth)
    then obtain ds where ds: "fse_needs m stk ps f ds" "set ds \<subseteq> set (take i l)"
      using assms(1) by (auto simp: load_ordered_def)
    have "the (first_idx (\<lambda>y. y = d) l) < i" if d: "d \<in> set ds" for d
    proof -
      obtain j where "j < i" "d = l ! j" using d ds(2) i(1) by (force simp: in_set_conv_nth)
      then show ?thesis using idx [of j] i(1) by simp
    qed
    then show ?thesis using ds i idx [of i] by (auto dest: in_set_takeD)
  qed
  then show ?thesis by (auto simp: dep_graph_ok_def)
qed

lemma dep_list_result:
  assumes "uld_dyn_create_fse_dep_list s stk ps fse [] n = Some (0, l, s')"
  shows "mem s' = mem s \<and> distinct l \<and> l \<noteq> [] \<and> last l = fse \<and> load_ordered (mem s) stk ps l
    \<and> set l = {x. (fse, x) \<in> (dep_rel (mem s) stk ps)\<^sup>*}"
proof -
  have post: "dep_post stk ps (Visit fse) [] s (0, l, s')"
    using assms dep_run_post by (simp add: uld_dyn_create_fse_dep_list_def)
  then have v: "visit_post (mem s) stk ps fse [] l" and m: "mem s' = mem s"
    by (auto simp: dep_post_def)
  have o: "load_ordered (mem s) stk ps l" "fse \<in> set l" using v by (auto simp: visit_post_def)
  have "x \<in> set l" if r: "(fse, x) \<in> (dep_rel (mem s) stk ps)\<^sup>*" for x
  proof (cases "x = fse")
    case True
    then show ?thesis using o by simp
  next
    case False
    then have "(fse, x) \<in> (dep_rel (mem s) stk ps)\<^sup>+" using r by (auto dest: rtranclD)
    moreover obtain i where "i < length l" "fse = l ! i" using o(2) by (auto simp: in_set_conv_nth)
    ultimately have "x \<in> set (take i l)" using load_ordered_reach [OF o(1)] by blast
    then show ?thesis by (rule in_set_takeD)
  qed
  then show ?thesis using v m by (auto simp: visit_post_def)
qed

lemma dep_list_total:
  assumes "dep_graph_ok (mem s) stk ps F rank" "fse \<in> F" "int (card F) \<le> n"
  shows "\<exists>l s'. uld_dyn_create_fse_dep_list s stk ps fse [] n = Some (0, l, s')"
  using dep_visit_total [OF assms(1,3,2), of s "[]"]
  by (simp add: uld_dyn_create_fse_dep_list_def dep_inv_def)

lemma dep_count_result:
  assumes "uld_dyn_get_fse_dep_count s stk ps fse = Some (n, s1)" "0 \<le> n"
  shows "\<exists>l s2. uld_dyn_create_fse_dep_list s1 stk ps fse [] n = Some (0, l, s2) \<and> int (length l) = n"
proof -
  obtain c where c: "uld_fs_get_file_count (mem s) (fst_head (pstore_at (mem s) ps)) = Some c"
    using assms by (cases "uld_fs_get_file_count (mem s) (fst_head (pstore_at (mem s) ps))")
      (auto simp: uld_dyn_get_fse_dep_count_def split: if_splits)
  obtain r l s2 where r: "uld_dyn_create_fse_dep_list s stk ps fse [] c = Some (r, l, s2)"
    using assms c by (cases "uld_dyn_create_fse_dep_list s stk ps fse [] c")
      (auto simp: uld_dyn_get_fse_dep_count_def split: if_splits)
  have "r \<le> 0"
    using r dep_run_post [of stk ps c "Visit fse" "[]" s "(r, l, s2)"]
    by (simp add: uld_dyn_create_fse_dep_list_def dep_post_def)
  then have n: "r = 0" "n = int (length l)" "s1 = s2"
    using assms c r by (auto simp: uld_dyn_get_fse_dep_count_def split: if_splits)
  note res = dep_list_result [OF r [unfolded n(1)]]
  then have "dep_graph_ok (mem s1) stk ps (set l) (\<lambda>x. the (first_idx (\<lambda>y. y = x) l))"
    using load_ordered_graph [of "mem s1" stk ps l] n(3) by auto
  moreover have "fse \<in> set l" using res by auto
  moreover have "int (card (set l)) \<le> n" using n(2) card_length by simp
  ultimately obtain l' s3 where 2: "uld_dyn_create_fse_dep_list s1 stk ps fse [] n = Some (0, l', s3)"
    using dep_list_total by metis
  have "set l' = set l" using dep_list_result [OF 2] res n(3) by auto
  then have "length l' = length l" using dep_list_result [OF 2] res by (metis distinct_card)
  then show ?thesis using 2 n(2) by auto
qed

lemma dep_list_cycle:
  assumes "(fse, fse) \<in> (dep_rel (mem s) stk ps)\<^sup>+"
  shows "uld_dyn_create_fse_dep_list s stk ps fse [] n \<noteq> Some (0, l, s')"
proof
  assume r: "uld_dyn_create_fse_dep_list s stk ps fse [] n = Some (0, l, s')"
  then have "load_ordered (mem s) stk ps l" "fse \<in> set l" using dep_list_result [OF r] by auto
  then show False using load_ordered_acyclic assms by blast
qed

section \<open>Properties\<close>

text \<open>C1 When the dependency list of a file is created successfully it holds, without
  duplicates, exactly the files reachable from it through DT_NEEDED entries, every file after all the
  files it needs, and the file itself last. Memory is unchanged.\<close>

theorem dep_list_order:
  assumes "uld_dyn_create_fse_dep_list s stk ps fse [] n = Some (0, l, s')"
  shows "mem s' = mem s \<and> distinct l \<and> l \<noteq> [] \<and> last l = fse \<and> load_ordered (mem s) stk ps l
    \<and> set l = {x. (fse, x) \<in> (dep_rel (mem s) stk ps)\<^sup>*}"
  by (rule dep_list_result [OF assms])

lemma zero_mem_sections:
  "uld_dyn_create_fse_dep_list_get_sections (mach0 (\<lambda>_. 0)) stk 0x200 = Some (1, stk, stk, mach0 (\<lambda>_. 0))"
  by (simp add: uld_dyn_create_fse_dep_list_get_sections_def Let_def fse_at_def ld32_def ld16_def ehdr_at_def
      elf32_get_section_by_name_shstrtab_faddr_def elf32_for_each_shdr_base_def)

lemma zero_mem_run:
  "uld_dyn_create_fse_dep_list (mach0 (\<lambda>_. 0)) stk ps 0x200 [] 1 = Some (0, [0x200], mach0 (\<lambda>_. 0))"
  by (simp add: uld_dyn_create_fse_dep_list_def dep_run.simps zero_mem_sections dep_finish_def)

theorem dep_list_order_witness:
  "uld_dyn_create_fse_dep_list (mach0 (\<lambda>_. 0)) uld_section_zero 0x100 0x200 [] 1 = Some (0, [0x200], mach0 (\<lambda>_. 0))
   \<and> load_ordered (\<lambda>_. 0) uld_section_zero 0x100 [0x200]"
  using zero_mem_run [of uld_section_zero "0x100"]
    dep_list_order [of "mach0 (\<lambda>_. 0)" uld_section_zero "0x100" "0x200" 1 "[0x200]" "mach0 (\<lambda>_. 0)"]
  by simp

text \<open>C19 The recursion ends: when the files reachable from the given one form a finite
  set closed under DT_NEEDED whose dependencies have no cycle (a rank decreases along them), and the
  list has room for them, the creation of the list returns success.\<close>

theorem dep_list_returns:
  assumes "dep_graph_ok (mem s) stk ps F rank" "fse \<in> F" "int (card F) \<le> n"
  shows "\<exists>l s'. uld_dyn_create_fse_dep_list s stk ps fse [] n = Some (0, l, s')"
  by (rule dep_list_total [OF assms])

theorem dep_list_returns_witness:
  "\<exists>l s'. uld_dyn_create_fse_dep_list (mach0 (\<lambda>_. 0)) uld_section_zero 0x100 0x200 [] 1 = Some (0, l, s')"
proof -
  have "fse_needs (\<lambda>_. 0) uld_section_zero 0x100 0x200 []"
    by (simp add: fse_needs_def fse_sections_def zero_mem_sections)
  then have "dep_graph_ok (mem (mach0 (\<lambda>_. 0))) uld_section_zero 0x100 {0x200} (\<lambda>_. 0)"
    by (auto simp: dep_graph_ok_def)
  then show ?thesis
    using dep_list_returns [of "mach0 (\<lambda>_. 0)" uld_section_zero "0x100" "{0x200}" "\<lambda>_. 0" "0x200" 1] by simp
qed

text \<open>C20 The count is the exact size of the list: when the counting pass returns a
  number, creating the list again with room for just that many entries succeeds and fills it.\<close>

theorem dep_count_exact:
  assumes "uld_dyn_get_fse_dep_count s stk ps fse = Some (n, s1)" "0 \<le> n"
  shows "\<exists>l s2. uld_dyn_create_fse_dep_list s1 stk ps fse [] n = Some (0, l, s2) \<and> int (length l) = n"
  by (rule dep_count_result [OF assms])

theorem dep_count_exact_witness:
  "\<exists>n l s2. uld_dyn_create_fse_dep_list (mach0 ((\<lambda>_. 0)(0x10d := 2))) uld_section_zero 0x100 0x200 [] n
     = Some (0, l, s2) \<and> n = 1 \<and> length l = 1"
proof -
  let ?m = "(\<lambda>_. 0 :: u8)(0x10d := 2) :: mem"
  have b: "fse_base (fse_at ?m 0x200) = 0" by (simp add: fse_at_def ld32_def)
  have e: "e_shnum (ehdr_at ?m 0) = 0" by (simp add: ehdr_at_def ld16_def)
  have g: "uld_dyn_create_fse_dep_list_get_sections (mach0 ?m) stk 0x200 = Some (1, stk, stk, mach0 ?m)" for stk
    by (simp add: uld_dyn_create_fse_dep_list_get_sections_def Let_def b e
      elf32_get_section_by_name_shstrtab_faddr_def elf32_for_each_shdr_base_def del: fun_upd_apply)
  have h: "fst_head (pstore_at ?m 0x100) = 0x200" by (simp add: pstore_at_def ld32_def)
  have nx: "fse_next (fse_at ?m 0x200) = 0" by (simp add: fse_at_def ld32_def)
  have "fs_chain ?m 0x200 [0x200]" using nx by (simp del: fun_upd_apply)
  then have c: "uld_fs_get_file_count ?m 0x200 = Some 1"
    using fs_count_loop_eq [of ?m "0x200" "[0x200]" 0] by (simp add: uld_fs_get_file_count_def del: fun_upd_apply)
  have r: "dep_run uld_section_zero 0x100 1 (Visit 0x200) [] (mach0 ?m) = Some (0, [0x200], mach0 ?m)"
    by (subst dep_run.simps) (simp add: g dep_finish_def del: fun_upd_apply)
  have "uld_dyn_get_fse_dep_count (mach0 ?m) uld_section_zero 0x100 0x200 = Some (1, mach0 ?m)"
    unfolding uld_dyn_get_fse_dep_count_def uld_dyn_create_fse_dep_list_def mem_mach0 h c
    by (simp add: r del: fun_upd_apply)
  then obtain l s2 where "uld_dyn_create_fse_dep_list (mach0 ?m) uld_section_zero 0x100 0x200 [] 1 = Some (0, l, s2)"
    "int (length l) = 1"
    using dep_count_exact [of "mach0 ?m" uld_section_zero "0x100" "0x200" 1 "mach0 ?m"] by (auto simp del: fun_upd_apply)
  then show ?thesis by (intro exI [of _ 1] exI [of _ l] exI [of _ s2]) (simp del: fun_upd_apply)
qed

lemma dep_count_mem: "uld_dyn_get_fse_dep_count s stk ps fse = Some (n, s1) \<Longrightarrow> mem s1 = mem s"
  unfolding uld_dyn_get_fse_dep_count_def uld_dyn_create_fse_dep_list_def
  by (auto split: if_splits elim!: bind_SomeE dest!: dep_run_post simp: dep_post_def)

lemma dep_sec_count_mem: "dep_sec_count_loop s l tmask cnt n = Some (c, s1) \<Longrightarrow> mem s1 = mem s"
  by (induction n arbitrary: s cnt) (auto elim!: bind_SomeE dest!: get_sec_count_mem)

lemma get_dep_list_sec_count_mem:
  "uld_dyn_get_dep_list_sec_count s l n tmask = Some (c, s1) \<Longrightarrow> mem s1 = mem s"
  unfolding uld_dyn_get_dep_list_sec_count_def by (auto split: if_splits dest: dep_sec_count_mem)

section \<open>The memory of the loaded files\<close>

definition uf_block :: "uld_file \<Rightarrow> u32 \<times> u32" where
  "uf_block uf = (uf_membase uf, uf_memsz uf)"

lemma create_file_loop_keeps:
  "create_file_loop s ehdr tmask secs snum uf l = Some (uf', s')
    \<Longrightarrow> uf_block uf' = uf_block uf \<and> uf_fse uf' = uf_fse uf"
proof (induction l arbitrary: s secs snum uf)
  case (Cons i l)
  have "uf_block (set_secs uf i xs) = uf_block uf \<and> uf_fse (set_secs uf i xs) = uf_fse uf" for xs
    by (simp add: set_secs_def uf_block_def)
  then show ?case using Cons.prems by (auto split: if_splits elim!: bind_SomeE dest!: Cons.IH)
qed simp

lemma create_file_keeps:
  "uld_load_create_file s fse secs snum tmask uld_file_zero = Some (r, uf, s')
    \<Longrightarrow> uf_block uf = (0, 0) \<and> (r = 0 \<longrightarrow> uf_fse uf = fse)"
  unfolding uld_load_create_file_def
  by (auto simp: Let_def uld_file_zero_def uf_block_def split: if_splits elim!: bind_SomeE
      dest!: create_file_loop_keeps)

text \<open>Loading one file takes the next block or none.\<close>

lemma load_file_result:
  assumes "uld_load_file bss_end s stk fse secs snum tmask mb al uld_file_zero = Some (0, mb', al', uf, s')"
  shows "uf_fse uf = fse \<and> (uf_block uf = (0, 0) \<and> (mb', al') = (mb, al)
    \<or> uf_block uf = (mb', al') \<and> mb' = uld_load_get_next_membase bss_end mb al)"
proof -
  obtain r uf1 s1 where cf: "uld_load_create_file s fse secs snum tmask uld_file_zero = Some (r, uf1, s1)"
    using assms unfolding uld_load_file_def by (elim bind_SomeE) (auto split: prod.splits)
  have r: "r = 0"
  proof (rule ccontr)
    assume "r \<noteq> 0"
    then show False using assms cf unfolding uld_load_file_def by simp
  qed
  have b: "uf_block uf1 = (0, 0)" "uf_fse uf1 = fse" using create_file_keeps [OF cf] r by simp_all
  show ?thesis
  proof (cases "uf_mem uf1 = []")
    case True
    then show ?thesis using assms cf b r unfolding uld_load_file_def by simp
  next
    case False
    obtain ret al1 ml s2 where al: "uld_load_alloc_mem_sections s1 (fse_base (fse_at (mem s1) fse)) 0
        (uld_load_get_next_membase bss_end mb al) al (uf_mem uf1) = (ret, al1, ml, s2)"
      by (metis prod_cases4)
    then have "ret = 0" using assms cf r False unfolding uld_load_file_def by (auto simp: Let_def split: if_splits)
    then show ?thesis using assms cf r False al b(2) unfolding uld_load_file_def
      by (auto simp: Let_def uf_block_def elim!: bind_SomeE)
  qed
qed

lemma load_loop_run:
  "load_dep_loop bss_end stk s avail mb al deps = Some (0, ufs, mb', al', s')
    \<Longrightarrow> alloc_run (uld_load_get_next_membase bss_end) (mb, al) (map uf_block ufs) (mb', al') \<and> map uf_fse ufs = deps"
proof (induction deps arbitrary: s avail mb al ufs)
  case (Cons fse deps)
  obtain r mb1 al1 uf s1 where lf: "uld_load_file bss_end s stk fse (replicate (nat avail) uld_section_zero) avail
      ULD_DYN_LOAD_SECTION_TYPE_MASK mb al uld_file_zero = Some (r, mb1, al1, uf, s1)"
    using Cons.prems unfolding load_dep_loop.simps by (elim bind_SomeE) (auto split: prod.splits)
  then have r: "r = 0" using Cons.prems by (auto split: if_splits)
  then obtain ufs' where rest: "load_dep_loop bss_end stk s1 (avail - uld_file_get_sec_count uf) mb1 al1 deps
      = Some (0, ufs', mb', al', s')" and ufs: "ufs = uf # ufs'"
    using Cons.prems lf by (auto elim!: bind_SomeE)
  show ?case
    using load_file_result [OF lf [unfolded r]] Cons.IH [OF rest] unfolding ufs
    by (auto intro: alloc_skip alloc_take)
qed simp

lemma load_list_files:
  "uld_dyn_load_fse_dep_list bss_end s stk deps sec_count mb al = Some (0, ufs, mb', al', s') \<Longrightarrow> map uf_fse ufs = deps"
  unfolding uld_dyn_load_fse_dep_list_def Let_def
  by (auto split: if_splits elim!: bind_SomeE dest!: load_loop_run)

text \<open>C2 When a dependency list has been loaded, and no block reaches the end of the address space,
  the memory blocks recorded for any two of its files (base and size) are disjoint, and all of them lie above the
  loader's own data and inside the area that is reported as allocated: what the linker allocates behind that area
  overlaps no block. (When a file has gaps between its memory sections its recorded size misses them, see
  \<open>alloc_mem_loaded\<close>; the statement is about the recorded blocks.)\<close>

theorem loaded_files_disjoint:
  assumes "uld_dyn_load_fse_dep_list bss_end s stk dep_list sec_count membase0 allocated0
      = Some (0, ufile_list, membase, allocated, s')"
    and "unat bss_end + 16 \<le> 2 ^ 32" "unat membase0 + 16 \<le> 2 ^ 32"
    and "\<forall>uf\<in>set ufile_list. unat (uf_membase uf) + unat (uf_memsz uf) + 8 \<le> 2 ^ 32"
  shows "(\<forall>i j. i < j \<and> j < length ufile_list \<longrightarrow>
        rng (uf_membase (ufile_list ! i)) (unat (uf_memsz (ufile_list ! i)))
        \<inter> rng (uf_membase (ufile_list ! j)) (unat (uf_memsz (ufile_list ! j))) = {})
    \<and> (\<forall>uf\<in>set ufile_list. rng (uf_membase uf) (unat (uf_memsz uf)) \<subseteq> rng membase (unat allocated))
    \<and> bss_end \<le> membase"
proof -
  define mb1 where "mb1 = uld_load_get_next_membase bss_end membase0 0"
  obtain mb' al' where run: "load_dep_loop bss_end stk s sec_count mb1 0 dep_list = Some (0, ufile_list, mb', al', s')"
      and r: "membase = mb1" "allocated = mb' - mb1 + al'"
    using assms(1) unfolding uld_dyn_load_fse_dep_list_def Let_def mb1_def [symmetric]
    by (auto split: if_splits elim!: bind_SomeE)
  have "bss_end \<le> mb1" "unat mb1 + 8 \<le> 2 ^ 32"
    using next_membase_bounds [of bss_end membase0 0] assms(2,3)
    by (cases "bss_end \<le> membase0"; simp add: mb1_def)+
  then have start: "bss_end \<le> fst (mb1, 0 :: u32)" "block_end (mb1, 0) + 8 \<le> 2 ^ 32"
    by (simp_all add: block_end_def)
  have blocks: "\<forall>blk\<in>set (map uf_block ufile_list). block_end blk + 8 \<le> 2 ^ 32"
    using assms(4) by (auto simp: block_end_def uf_block_def)
  note alloc = load_loop_run [OF run, THEN conjunct1]
  note above = membase.run_above [OF alloc start blocks]
  have sub: "rng (uf_membase uf) (unat (uf_memsz uf)) \<subseteq> rng membase (unat allocated)" if "uf \<in> set ufile_list" for uf
  proof
    fix a assume "a \<in> rng (uf_membase uf) (unat (uf_memsz uf))"
    then have a: "unat mb1 \<le> unat a" "unat a < unat mb' + unat al'"
      using above that by (auto simp: block_rng_def uf_block_def block_end_def)
    have "unat mb' + unat al' < 2 ^ 32" using above by (simp add: block_end_def)
    then have e: "unat (mb' + al') = unat mb' + unat al'" by (simp add: unat_word_ariths)
    have l: "unat (mb' + al' - mb1) = unat mb' + unat al' - unat mb1"
      using a e by (subst unat_sub) (simp_all add: word_le_nat_alt)
    have d: "unat (a - mb1) = unat a - unat mb1" using a by (intro unat_sub) (simp add: word_le_nat_alt)
    have "allocated = mb' + al' - mb1" using r by simp
    then have "unat (a - membase) < unat allocated" using a unfolding r(1) d by (simp only: l)
    then show "a \<in> rng membase (unat allocated)" by (simp only: rng_iff)
  qed
  have "rng (uf_membase (ufile_list ! i)) (unat (uf_memsz (ufile_list ! i)))
        \<inter> rng (uf_membase (ufile_list ! j)) (unat (uf_memsz (ufile_list ! j))) = {}"
    if "i < j" "j < length ufile_list" for i j
    using membase.run_disjoint [OF alloc start blocks that(1)] that by (simp add: block_rng_def uf_block_def)
  then show ?thesis using sub \<open>bss_end \<le> mb1\<close> r(1) by blast
qed

text \<open>A file with one eight-byte aligned \<open>.bss\<close> of 16 bytes and an empty fixup table, loaded twice.\<close>

definition bss_mem :: mem where
  "bss_mem = (\<lambda>_. 0)(0x130 := 3, 0x12e := 40, 0x120 := 52, 0x15d := 1, 0x160 := 8, 0x164 := 3, 0x170 := 16,
     0x200 := 46, 0x201 := 98, 0x202 := 115, 0x203 := 115, 0x185 := 1, 0x184 := 8, 0x208 := 46, 0x209 := 114, 0x20a := 111,
     0x20b := 102, 0x20c := 105, 0x20d := 120, 0x20e := 117, 0x20f := 112, 0x301 := 1, 0x308 := 16, 0x309 := 1,
     0x314 := 104, 0x315 := 101, 0x316 := 108, 0x317 := 108, 0x318 := 111, 0x319 := 95, 0x31a := 119, 0x31b := 111,
     0x31c := 114, 0x31d := 108, 0x31e := 100, 0x31f := 46, 0x320 := 101, 0x321 := 108, 0x322 := 102,
     0x400 := 2, 0x405 := 1, 0x408 := 16, 0x409 := 1, 0x40d := 3)"

lemma bss_mem_ehdr:
  "e_shnum (ehdr_at bss_mem 0x100) = 3" "e_shentsize (ehdr_at bss_mem 0x100) = 40" "e_phnum (ehdr_at bss_mem 0x100) = 0"
  "e_shoff (ehdr_at bss_mem 0x100) = 52" "e_shstrndx (ehdr_at bss_mem 0x100) = 0" "e_type (ehdr_at bss_mem 0x100) = 0"
  "fse_base (fse_at bss_mem 0x300) = 0x100"
  by (simp_all add: ehdr_at_def fse_at_def ld32_def ld16_def) (simp_all add: bss_mem_def)

lemma bss_mem_shdr: "shdr_at bss_mem 0x15c = \<lparr>sh_name = 0x100, sh_type = 8, sh_flags = 3, sh_addr = 0,
   sh_offset = 0, sh_size = 16, sh_link = 0, sh_info = 0, sh_addralign = 0, sh_entsize = 0\<rparr>"
   "shdr_at bss_mem 0x184 = \<lparr>sh_name = 0x108, sh_type = 0, sh_flags = 0, sh_addr = 0,
   sh_offset = 0, sh_size = 0, sh_link = 0, sh_info = 0, sh_addralign = 0, sh_entsize = 0\<rparr>"
   "sh_offset (shdr_at bss_mem 0x134) = 0"
  by (simp_all add: shdr_at_def ld32_def) (simp_all add: bss_mem_def)

lemma bss_mem_list: "elf32_for_each_shdr bss_mem 0x100 = [(1, 0x15c), (2, 0x184)]" "elf32_for_each_phdr bss_mem 0x100 = []"
  by (simp_all add: elf32_for_each_shdr_def elf32_for_each_shdr_base_eq elf32_for_each_phdr_def elf32_for_each_phdr_base_def bss_mem_ehdr upt_rec
      elf32_get_section_by_index_def Let_def)

lemma bss_mem_name: "cs_is bss_mem (Ptr 0x200) [46, 98, 115, 115]"
   "cs_is bss_mem (Ptr 0x208) [46, 114, 111, 102, 105, 120, 117, 112]"
  by (simp_all add: cs_is_Ptr_Cons) (simp_all add: cs_is_def bss_mem_def)

lemmas bss_cmp = bss_mem_name [THEN uld_strcmp_bytes, OF cs_is_Lit [THEN iffD2]]

definition bss_sec :: uld_section where
  "bss_sec = \<lparr>sec_ehdr = 0x100, sec_phdr = 0, sec_shdr = 0x15c, sec_name = 0x200, sec_lma = 0,
     sec_adjusted_lma = 0, sec_faddr = 0x100, sec_adjusted_vma = 0x100, sec_flags = ULD_SECTION_FLAG_VALID OR ULD_SECTION_FLAG_TYPE_MEM, sec_phidx = ELF_SEC_HAS_NO_SEGMENT,
     sec_shidx = 1\<rparr>"

lemma bss_mem_type:
  "mem s = bss_mem \<Longrightarrow> uld_section_get_type s 0x15c 0x200 = Some (ULD_SECTION_FLAG_TYPE_MEM, s)"
  "mem s = bss_mem \<Longrightarrow> uld_section_get_type s 0x184 0x208 = Some (ULD_SECTION_FLAG_TYPE_OTHER, s)"
  "uld_section_is_mem_sec_fixup_by_name bss_mem (Ptr 0x200) = Some False"
  "uld_section_is_mem_sec_fixup_by_name bss_mem (Ptr 0x208) = Some False"
  by (simp_all add: uld_section_get_type_def uld_section_is_mem_sec_by_name_def uld_section_is_mem_sec_fixup_by_name_def
    uld_section_mem_name_list_def bss_mem_shdr elf_consts Let_def
    str_in_list_eq [OF _ bss_mem_name(1), of "[[46, 103, 111, 116], [46, 103, 111, 116, 46, 112, 108, 116],
      [46, 100, 97, 116, 97], [46, 98, 115, 115]]", simplified]
    str_in_list_eq [OF _ bss_mem_name(1), of "[[46, 103, 111, 116], [46, 103, 111, 116, 46, 112, 108, 116],
      [46, 100, 97, 116, 97]]", simplified]
    str_in_list_eq [OF _ bss_mem_name(2), of "[[46, 103, 111, 116], [46, 103, 111, 116, 46, 112, 108, 116],
      [46, 100, 97, 116, 97]]", simplified])

lemma bss_create: "uld_load_create_section (mach0 bss_mem) st 0x100 0 0x15c 1 0x100 = Some (0, bss_sec, mach0 bss_mem)"
  by (simp add: uld_load_create_section_def Let_def bss_mem_ehdr elf32_get_section_name_shstrtab_faddr_def bss_mem_shdr create_section_addrs_def 
  elf32_get_segment_by_section_def elf32_get_section_lma_def bss_mem_list elf_consts create_section_flags_def
  bss_mem_type bss_sec_def  elf32_adjust_lma_def  elf32_adjust_vma_def elf32_get_section_flash_addr_def ULD_SECTION_FLAG_NONE_def)



definition rof_sec :: uld_section where
  "rof_sec = \<lparr>sec_ehdr = 0x100, sec_phdr = 0, sec_shdr = 0x184, sec_name = 0x208, sec_lma = 0,
     sec_adjusted_lma = 0, sec_faddr = 0x100, sec_adjusted_vma = 0x100, sec_flags = ULD_SECTION_FLAG_VALID OR ULD_SECTION_FLAG_TYPE_OTHER,
     sec_phidx = ELF_SEC_HAS_NO_SEGMENT, sec_shidx = 2\<rparr>"

lemma bss_create_rof: "\<exists>sec. uld_load_create_section (mach0 bss_mem) st 0x100 0x100 0x184 2 0 = Some (0, sec, mach0 bss_mem)
  \<and> sec_shdr sec = 0x184 \<and> sec_adjusted_lma sec = 0"
  by (simp add: uld_load_create_section_def Let_def bss_mem_ehdr elf32_get_section_name_def elf32_get_section_by_index_def elf32_get_section_name_shstrtab_faddr_def bss_mem_shdr create_section_addrs_def 
  elf32_get_segment_by_section_def elf32_get_section_lma_def bss_mem_list elf_consts create_section_flags_def
  bss_mem_type bss_sec_def  elf32_adjust_lma_def  elf32_adjust_vma_def elf32_get_section_flash_addr_def ULD_SECTION_FLAG_NONE_def)

lemma bss_secs:
  "uld_load_create_sec_list (mach0 bss_mem) 0x100 0 [uld_section_zero, uld_section_zero] 2 ULD_SECTION_FLAG_TYPE_MEM
   = Some (1, [bss_sec\<lparr>sec_flags := sec_flags bss_sec OR ULD_SECTION_FLAG_LAST\<rparr>, uld_section_zero], mach0 bss_mem)"
  "uld_load_create_sec_list (mach0 bss_mem) 0x100 0 [uld_section_zero] 1 ULD_SECTION_FLAG_TYPE_MEM
   = Some (1, [bss_sec\<lparr>sec_flags := sec_flags bss_sec OR ULD_SECTION_FLAG_LAST\<rparr>], mach0 bss_mem)"
  "uld_load_create_sec_list (mach0 bss_mem) 0x100 0 [uld_section_zero] 1 ULD_SECTION_FLAG_TYPE_FLASH
   = Some (0, [uld_section_zero], mach0 bss_mem)"
  "uld_load_create_sec_list (mach0 bss_mem) 0x100 0 [] 0 ty = Some (- 1, [], mach0 bss_mem)"
  by (simp_all add: uld_load_create_sec_list_def Let_def bss_mem_ehdr bss_mem_list elf32_get_section_by_index_def
      elf32_get_section_flash_addr_def bss_mem_shdr elf32_get_section_name_shstrtab_faddr_def bss_mem_type bss_create
      sec_insert_slot_def sec_flag_defs)

lemma bss_rof: "elf32_get_section_by_name bss_mem 0x100 0x100 (Lit (map of_char ''.rofixup'')) = Some 0x184"
  "elf32_get_shidx_by_section bss_mem 0x100 0x100 0x184 = 2"
proof -
  have l: "elf32_for_each_shdr_base bss_mem 0x100 0x100 = [(1, 0x15c), (2, 0x184)]"
    by (simp add: elf32_for_each_shdr_base_eq bss_mem_ehdr upt_rec elf32_get_section_by_index_def Let_def)
  show "elf32_get_section_by_name bss_mem 0x100 0x100 (Lit (map of_char ''.rofixup'')) = Some 0x184"
    by (simp add: elf32_get_section_by_name_def l elf32_get_section_name_def elf32_get_section_name_shstrtab_faddr_def
        bss_mem_ehdr bss_cmp bss_mem_shdr elf32_get_section_by_index_def elf32_get_section_flash_addr_def)
  show "elf32_get_shidx_by_section bss_mem 0x100 0x100 0x184 = 2"
    by (simp add: elf32_get_shidx_by_section_def bss_mem_ehdr signed_divide_int_def)
qed

lemma bss_fixup:
  assumes "sec_name sec = 0x200" "sec_flags sec AND ULD_SECTION_FLAG_STATUS_MEM_NEEDS_FIXUP = 0"
  shows "uld_rofixup_apply_mem_fixups (mach0 bss_mem) st 0x100 0 [] [sec] mb =
    Some (0, [sec\<lparr>sec_flags := sec_flags sec OR ULD_SECTION_FLAG_STATUS_MEM_FIXUP_DONE\<rparr>], mach0 bss_mem)"
proof -
  obtain rof where "uld_load_create_section (mach0 bss_mem) st 0x100 0x100 0x184 2 0 = Some (0, rof, mach0 bss_mem)"
    "sec_shdr rof = 0x184" "sec_adjusted_lma rof = 0" using bss_create_rof by blast
  moreover have "fixup_loop f need lo hi l rof 0 (mach0 bss_mem) = Some (0, mach0 bss_mem)" if "sec_shdr rof = 0x184" "sec_adjusted_lma rof = 0" for f need lo hi l
    using that by (subst fixup_loop.simps) (simp add: bss_mem_shdr)
  ultimately show ?thesis using assms bss_rof
    by (simp add: uld_rofixup_apply_mem_fixups_def uld_rofixup_apply_fixups_def fixup_limits_def
     uld_section_find_in_list_by_name_def uld_section_find_in_list_def bss_cmp
     uld_strcmp_bytes [OF cs_is_Lit [THEN iffD2] bss_mem_name(1)] ULD_SECTION_FLAG_NONE_def)
qed

lemma bss_mem_set:
  assumes "a \<in> {0x1000, 0x1010}"
  shows "uld_memset bss_mem a 0 16 = bss_mem"
proof -
  have z: "bss_mem x = 0" if "0x500 \<le> x" for x
  proof (cases "x < 0x500")
    case False
    then have "x \<noteq> v" if "v < 0x500" for v using that by blast
    then show ?thesis by (simp add: bss_mem_def)
  qed (use that in simp)
  have "0x500 \<le> a + of_nat i" if "i < 16" for i
    using assms that by (auto simp: word_le_nat_alt unat_word_ariths unat_of_nat)
  then have "replicate 16 0 = bytes bss_mem a 16" using z by (intro nth_equalityI) (auto simp: bytes_def)
  moreover have "(16 :: nat) \<le> 2 ^ 32" by simp
  ultimately show ?thesis using wr_bytes_same [of 16 bss_mem a] uld_memset_wr_bytes [of 16 bss_mem a 0] by metis
qed

lemma bss_alloc:
  assumes "a \<in> {0x1000, 0x1010}" "sec_shdr sec = 0x15c" "sec_flags sec AND ULD_SECTION_FLAG_TYPE_MEM \<noteq> 0"
  shows "uld_load_alloc_mem_sections (mach0 bss_mem) 0x100 0 a al [sec]
    = (0, 16, [sec\<lparr>sec_adjusted_vma := a, sec_flags := sec_flags sec OR ULD_SECTION_FLAG_STATUS_MEM_LOADED\<rparr>], mach0 bss_mem)"
proof -
  have m: "uld_memset bss_mem a 0 (Suc 15) = bss_mem" using bss_mem_set [OF assms(1)] by (simp add: eval_nat_numeral)
  have "unat (16 :: u32) = Suc 15" by simp
  then show ?thesis
    using assms m by (auto simp: uld_load_alloc_mem_sections_def bss_mem_shdr elf_consts mach0_def)
qed

definition bss_one :: uld_section where
  "bss_one = bss_sec\<lparr>sec_flags := sec_flags bss_sec OR ULD_SECTION_FLAG_LAST\<rparr>"

lemma bss_one: "sec_shdr bss_one = 0x15c" "sec_name bss_one = 0x200" "sec_flags bss_one AND ULD_SECTION_FLAG_TYPE_MEM \<noteq> 0"
  "(sec_flags bss_one OR ULD_SECTION_FLAG_STATUS_MEM_LOADED) AND ULD_SECTION_FLAG_STATUS_MEM_NEEDS_FIXUP = 0"
  by (simp_all add: bss_one_def bss_sec_def sec_flag_defs)

lemma bss_create_file:
  "uld_load_create_file (mach0 bss_mem) 0x300 [uld_section_zero, uld_section_zero] 2 ULD_DYN_LOAD_SECTION_TYPE_MASK uld_file_zero
   = Some (0, uld_file_zero\<lparr>uf_fse := 0x300, uf_mem := [bss_one]\<rparr>, mach0 bss_mem)"
  "uld_load_create_file (mach0 bss_mem) 0x300 [uld_section_zero] 1 ULD_DYN_LOAD_SECTION_TYPE_MASK uld_file_zero
   = Some (0, uld_file_zero\<lparr>uf_fse := 0x300, uf_mem := [bss_one]\<rparr>, mach0 bss_mem)"
  by (simp_all add: uld_load_create_file_def bss_mem_ehdr sec_idx_lut_def uld_file_idx_to_sec_type_def
    ULD_DYN_LOAD_SECTION_TYPE_MASK_def ULD_FILE_FLAG_NONE_def bss_one_def sec_flag_defs bss_secs [unfolded sec_flag_defs] set_secs_def elf_consts Let_def)
    (simp_all add: uld_file_zero_def)


lemma bss_load:
  assumes "a \<in> {0x1000, 0x1010}" "uld_load_get_next_membase 0x1000 mb al = a" "k \<in> {1, 2}"
  shows "\<exists>uf. uld_load_file 0x1000 (mach0 bss_mem) st 0x300 (replicate k uld_section_zero) (int k)
      ULD_DYN_LOAD_SECTION_TYPE_MASK mb al uld_file_zero = Some (0, a, 16, uf, mach0 bss_mem)
    \<and> uf_block uf = (a, 16) \<and> uld_file_get_sec_count uf = 1 \<and> uf_secs uf = [[], uf_mem uf, []]
    \<and> map sec_name (uf_mem uf) = [0x200]"
proof -
  have "uld_load_create_file (mach0 bss_mem) 0x300 (replicate k uld_section_zero) (int k) ULD_DYN_LOAD_SECTION_TYPE_MASK
      uld_file_zero = Some (0, uld_file_zero\<lparr>uf_fse := 0x300, uf_mem := [bss_one]\<rparr>, mach0 bss_mem)"
    using assms(3) bss_create_file by (auto simp: numeral_2_eq_2)
  then show ?thesis using assms(2) bss_alloc [OF assms(1) bss_one(1,3)] bss_one
    by (simp add: uld_load_file_def Let_def bss_mem_ehdr uf_block_def uld_file_get_sec_count_def uf_secs_def)
       (simp add: uld_file_zero_def bss_fixup)
qed

lemma bss_dep_list:
  "\<exists>uf1 uf2. uld_dyn_load_fse_dep_list 0x1000 (mach0 bss_mem) st [0x300, 0x300] 2 0 0
      = Some (0, [uf1, uf2], 0x1000, 32, mach0 bss_mem) \<and> uf_block uf1 = (0x1000, 16) \<and> uf_block uf2 = (0x1010, 16)"
proof -
  have n: "uld_load_get_next_membase 0x1000 0 0 = 0x1000" "uld_load_get_next_membase 0x1000 0x1000 0 = 0x1000"
     "uld_load_get_next_membase 0x1000 0x1000 16 = 0x1010"
    by (simp_all add: uld_load_get_next_membase_def ULD_LOAD_MEMBASE_ALIGNMENT_def align_up_def)
  obtain uf1 where 1: "uld_load_file 0x1000 (mach0 bss_mem) st 0x300 [uld_section_zero, uld_section_zero] 2
      ULD_DYN_LOAD_SECTION_TYPE_MASK 0x1000 0 uld_file_zero = Some (0, 0x1000, 16, uf1, mach0 bss_mem)"
      "uf_block uf1 = (0x1000, 16)" "uld_file_get_sec_count uf1 = 1"
    using bss_load [OF _ n(2), of 2 st] by (auto simp: numeral_2_eq_2)
  obtain uf2 where 2: "uld_load_file 0x1000 (mach0 bss_mem) st 0x300 [uld_section_zero] 1
      ULD_DYN_LOAD_SECTION_TYPE_MASK 0x1000 16 uld_file_zero = Some (0, 0x1010, 16, uf2, mach0 bss_mem)"
      "uf_block uf2 = (0x1010, 16)"
    using bss_load [OF _ n(3), of 1 st] by auto
  show ?thesis using 1 2 by (auto simp: uld_dyn_load_fse_dep_list_def n numeral_2_eq_2)
qed

theorem loaded_files_disjoint_witness:
  "\<exists>uf1 uf2 s'. uld_dyn_load_fse_dep_list 0x1000 (mach0 bss_mem) uld_section_zero [0x300, 0x300] 2 0 0
      = Some (0, [uf1, uf2], 0x1000, 32, s')
    \<and> rng (uf_membase uf1) (unat (uf_memsz uf1)) \<inter> rng (uf_membase uf2) (unat (uf_memsz uf2)) = {}
    \<and> rng (uf_membase uf2) (unat (uf_memsz uf2)) \<subseteq> rng 0x1000 32"
proof -
  obtain uf1 uf2 where r: "uld_dyn_load_fse_dep_list 0x1000 (mach0 bss_mem) uld_section_zero [0x300, 0x300] 2 0 0
      = Some (0, [uf1, uf2], 0x1000, 32, mach0 bss_mem)" and b: "uf_block uf1 = (0x1000, 16)" "uf_block uf2 = (0x1010, 16)"
    using bss_dep_list by blast
  have "\<forall>uf\<in>set [uf1, uf2]. unat (uf_membase uf) + unat (uf_memsz uf) + 8 \<le> 2 ^ 32" using b by (auto simp: uf_block_def)
  then have l: "unat (0x1000 :: u32) + 16 \<le> 2 ^ 32" "unat (0 :: u32) + 16 \<le> 2 ^ 32"
      "\<forall>uf\<in>set [uf1, uf2]. unat (uf_membase uf) + unat (uf_memsz uf) + 8 \<le> 2 ^ 32" by simp_all
  note * = loaded_files_disjoint [OF r l]
  have "rng (uf_membase uf1) (unat (uf_memsz uf1)) \<inter> rng (uf_membase uf2) (unat (uf_memsz uf2)) = {}"
    using * [THEN conjunct1, rule_format, of 0 1] by simp
  moreover have "rng (uf_membase uf2) (unat (uf_memsz uf2)) \<subseteq> rng 0x1000 32" using * by simp
  ultimately show ?thesis using r by blast
qed

end
