(* ===== verification/DynLink.thy ===== *)
theory DynLink
  imports DynSym
begin

text \<open>The link step of \<open>src/uld_dyn.c\<close>: resolution of dynamic relocations and the writes they cause.\<close>

definition ULD_DYN_ALLOC_ALIGNMENT :: nat where "ULD_DYN_ALLOC_ALIGNMENT = 2"

record uld_dyn_resolution =
  res_ptr :: u32
  res_membase :: u32
  res_match_sym :: u32
  res_file_idx :: int

type_synonym link_sections =
  "uld_section option \<times> uld_section option \<times> uld_section option \<times> uld_section option"

definition ufile_at :: "uld_file list \<Rightarrow> int \<Rightarrow> uld_file option" where
  "ufile_at ufile_list i = (if 0 \<le> i \<and> nat i < length ufile_list then Some (ufile_list ! nat i) else None)"

definition uld_dyn_get_link_sections :: "mem \<Rightarrow> uld_file \<Rightarrow> link_sections option" where
  "uld_dyn_get_link_sections m uf = do {
     hash_sec \<leftarrow> uld_file_get_sec_hash m uf;
     rel_dyn_sec \<leftarrow> uld_file_get_sec_rel_dyn m uf;
     dynsym_sec \<leftarrow> uld_file_get_sec_dynsym m uf;
     dynstr_sec \<leftarrow> uld_file_get_sec_dynstr m uf;
     Some (hash_sec, rel_dyn_sec, dynsym_sec, dynstr_sec) }"

definition uld_dyn_update_relative :: "machine \<Rightarrow> uld_file \<Rightarrow> u32 \<Rightarrow> (int \<times> machine) option" where
  "uld_dyn_update_relative s uf rel = do {
     rel_ptr \<leftarrow> uld_file_lma_to_adjusted_vma (mem s) uf (r_offset (rel_at (mem s) rel));
     if rel_ptr = 0 then Some (- 1, swbkpt s)
     else do {
       adj_ptr \<leftarrow> uld_file_lma_to_adjusted_vma (mem s) uf (ld32 (mem s) rel_ptr);
       Some (0, s\<lparr>mem := st32 (mem s) rel_ptr adj_ptr\<rparr>) } }"

datatype check_result = Accept machine | Reject int uld_dyn_resolution machine

definition resolve_check_sym ::
    "machine \<Rightarrow> uld_file \<Rightarrow> u32 \<Rightarrow> u8 \<Rightarrow> u32 \<Rightarrow> int \<Rightarrow> uld_dyn_resolution \<Rightarrow> check_result option" where
  "resolve_check_sym s uf rel rel_type match_sym file_idx res =
     (let m = mem s; esym = sym_at m match_sym; match_sym_type = ELF32_ST_TYPE (st_info esym)
      in if rel_type = R_ARM_ABS32 then Some (Accept s)
         else if rel_type = R_ARM_GLOB_DAT
         then Some (if match_sym_type \<noteq> STT_OBJECT then Reject (- 1) res (swbkpt s) else Accept s)
         else if rel_type = R_ARM_FUNCDESC \<or> rel_type = R_ARM_FUNCDESC_VALUE
         then if match_sym_type = STT_SECTION \<and> rel_type = R_ARM_FUNCDESC_VALUE
              then case uld_file_get_sec_by_index uf (uint (st_shndx esym)) ULD_SECTION_FLAG_TYPE_ALL of
                     None \<Rightarrow> Some (Reject (- 1) res (swbkpt s))
                   | Some ij \<Rightarrow> do {
                       adj_vma \<leftarrow> uld_file_lma_to_adjusted_vma m uf (r_offset (rel_at m rel));
                       Some (Reject 0 (res\<lparr>res_ptr := ld32 m adj_vma + sec_lma (uf_sec uf ij),
                                           res_membase := uf_membase uf,
                                           res_file_idx := file_idx\<rparr>) s) }
              else if match_sym_type \<noteq> STT_FUNC then Some (Reject (- 1) res (swbkpt s))
              else Some (Accept s)
         else Some (Accept (swbkpt s)))"

definition search_rel_skip :: "u8 \<Rightarrow> u8 \<Rightarrow> bool" where
  "search_rel_skip rel_type search_type \<longleftrightarrow>
     (rel_type = R_ARM_FUNCDESC \<and> search_type \<noteq> R_ARM_FUNCDESC_VALUE) \<or>
     (rel_type = R_ARM_FUNCDESC_VALUE \<and> search_type = R_ARM_FUNCDESC)"

definition search_rel_hit ::
    "machine \<Rightarrow> uld_file \<Rightarrow> u32 \<Rightarrow> int \<Rightarrow> uld_dyn_resolution \<Rightarrow> (uld_dyn_resolution \<times> machine) option" where
  "search_rel_hit s uf search_rel file_idx res =
     (let m = mem s; off = r_offset (rel_at m search_rel);
          search_type = ELF32_R_TYPE (r_info (rel_at m search_rel));
          res1 = res\<lparr>res_membase := 0, res_file_idx := file_idx\<rparr>
      in do {
        r \<leftarrow> uld_section_find_in_list_by_lma m (uf_mem uf) off;
        let s1 = (if r = None then swbkpt s else s);
        let adj_vma = (case r of None \<Rightarrow> 0
                       | Some i \<Rightarrow> uld_section_lma_to_adjusted_vma m (uf_mem uf ! i) off);
        Some (if search_type = R_ARM_ABS32 \<or> search_type = R_ARM_GLOB_DAT
              then (res1\<lparr>res_ptr := ld32 m adj_vma\<rparr>, s1)
              else if search_type = R_ARM_FUNCDESC then (res1\<lparr>res_ptr := ld32 m adj_vma\<rparr>, s1)
              else if search_type = R_ARM_FUNCDESC_VALUE then (res1\<lparr>res_ptr := adj_vma\<rparr>, s1)
              else (res1, swbkpt s1)) })"

fun resolve_search_rels ::
    "machine \<Rightarrow> uld_file \<Rightarrow> uld_section option \<Rightarrow> u32 \<Rightarrow> u8 \<Rightarrow> u32 \<Rightarrow> u32 \<Rightarrow> u32 \<Rightarrow> int \<Rightarrow> uld_dyn_resolution
       \<Rightarrow> nat \<Rightarrow> (bool \<times> uld_dyn_resolution \<times> machine) option" where
  "resolve_search_rels s uf rel_dyn_sec rel rel_type rel_sym match_sym match_sym_idx file_idx res 0 =
     Some (False, res, s)"
| "resolve_search_rels s uf rel_dyn_sec rel rel_type rel_sym match_sym match_sym_idx file_idx res (Suc n) =
     (case rel_dyn_sec of
        None \<Rightarrow> None
      | Some rds \<Rightarrow>
          let search_rel = uld_dyn_get_rel_dyn_by_index_sec (of_nat n) rds;
              info = r_info (rel_at (mem s) search_rel)
          in if ELF32_R_SYM info \<noteq> match_sym_idx
             then resolve_search_rels s uf rel_dyn_sec rel rel_type rel_sym match_sym match_sym_idx
                    file_idx res n
             else let same = (match_sym = rel_sym);
                      s1 = (if same \<and> search_rel \<ge> rel \<and> rel_type \<noteq> R_ARM_FUNCDESC then swbkpt s else s)
                  in if same \<and> search_rel_skip rel_type (ELF32_R_TYPE info)
                     then resolve_search_rels s1 uf rel_dyn_sec rel rel_type rel_sym match_sym
                            match_sym_idx file_idx res n
                     else do { (res', s2) \<leftarrow> search_rel_hit s1 uf search_rel file_idx res;
                               Some (True, res', s2) })"

datatype resolve_step = Next uld_dyn_resolution machine | Done int uld_dyn_resolution machine

definition resolve_in_file ::
    "machine \<Rightarrow> uld_file \<Rightarrow> u32 \<Rightarrow> u8 \<Rightarrow> u32 \<Rightarrow> u32 \<Rightarrow> link_sections \<Rightarrow> int \<Rightarrow> int \<Rightarrow> uld_dyn_resolution
       \<Rightarrow> resolve_step option" where
  "resolve_in_file s uf rel rel_type rel_sym match_sym secs rd_idx file_idx res = do {
     checked \<leftarrow> resolve_check_sym s uf rel rel_type match_sym file_idx res;
     case checked of
       Reject ret res' s' \<Rightarrow> Some (Done ret res' s')
     | Accept s1 \<Rightarrow>
         let esym = sym_at (mem s1) match_sym;
             has = elf32_sym_has_section_index esym;
             res1 = (if has then res\<lparr>res_membase := uf_membase uf, res_ptr := st_value esym,
                                     res_file_idx := file_idx\<rparr>
                     else if rel_type = R_ARM_GLOB_DAT
                     then res\<lparr>res_file_idx := file_idx, res_match_sym := match_sym\<rparr>
                     else res)
         in if has \<and> rel_type \<noteq> R_ARM_FUNCDESC then Some (Done 0 res1 s1)
            else case secs of
              (hash_sec, rel_dyn_sec, None, dynstr_sec) \<Rightarrow> None
            | (hash_sec, rel_dyn_sec, Some dynsym_sec, dynstr_sec) \<Rightarrow>
                let rd = (if rd_idx < 0
                          then case rel_dyn_sec of Some rds \<Rightarrow> uld_dyn_get_rel_dyn_count_sec (mem s1) rds
                                                 | None \<Rightarrow> 0
                          else nat rd_idx)
                in do {
                  (found, res2, s2) \<leftarrow> resolve_search_rels s1 uf rel_dyn_sec rel rel_type rel_sym match_sym
                    (uld_dyn_get_sym_index match_sym dynsym_sec) file_idx res1 rd;
                  Some (if found then Done 0 res2 s2 else Next res2 s2) } }"

definition resolve_find_match ::
    "mem \<Rightarrow> uld_file \<Rightarrow> u32 \<Rightarrow> (u32 \<times> link_sections) option option" where
  "resolve_find_match m uf rel_sym_name = do {
     secs \<leftarrow> uld_dyn_get_link_sections m uf;
     case secs of
       (Some hash_sec, rel_dyn_sec, Some dynsym_sec, Some dynstr_sec) \<Rightarrow> do {
         match_sym \<leftarrow> uld_dyn_find_dynsym_elf_hash_sec m (Ptr rel_sym_name) (Some hash_sec)
                        (Some dynstr_sec) (Some dynsym_sec);
         Some (if match_sym = 0 then None else Some (match_sym, secs)) }
     | _ \<Rightarrow> Some None }"

fun resolve_files ::
    "machine \<Rightarrow> uld_file list \<Rightarrow> u32 \<Rightarrow> u8 \<Rightarrow> u32 \<Rightarrow> u32 \<Rightarrow> (int \<times> u32 \<times> link_sections) \<Rightarrow> uld_dyn_resolution \<Rightarrow> nat
       \<Rightarrow> (int \<times> uld_dyn_resolution \<times> machine) option" where
  "resolve_files s ufile_list rel rel_type rel_sym rel_sym_name cur res 0 =
     (if res_ptr res = 0
      then Some (- 1, res, if rel_type \<noteq> R_ARM_GLOB_DAT then swbkpt s else s)
      else Some (0, res, s))"
| "resolve_files s ufile_list rel rel_type rel_sym rel_sym_name (rd_idx, match_sym0, secs0) res (Suc n) =
     (case ufile_at ufile_list (int n) of
        None \<Rightarrow> None
      | Some uf \<Rightarrow> do {
          match \<leftarrow> (if rd_idx < 0 then resolve_find_match (mem s) uf rel_sym_name
                    else Some (Some (match_sym0, secs0)));
          case match of
            None \<Rightarrow> resolve_files s ufile_list rel rel_type rel_sym rel_sym_name
                      (rd_idx, match_sym0, secs0) res n
          | Some (match_sym, secs) \<Rightarrow> do {
              step \<leftarrow> resolve_in_file s uf rel rel_type rel_sym match_sym secs rd_idx (int n) res;
              case step of
                Done ret res' s' \<Rightarrow> Some (ret, res', s')
              | Next res' s' \<Rightarrow> resolve_files s' ufile_list rel rel_type rel_sym rel_sym_name
                                  (- 1, match_sym, secs) res' n } })"

definition uld_dyn_resolve_rel ::
    "machine \<Rightarrow> uld_file list \<Rightarrow> u32 \<Rightarrow> int \<Rightarrow> int \<Rightarrow> uld_dyn_resolution
       \<Rightarrow> (int \<times> uld_dyn_resolution \<times> machine) option" where
  "uld_dyn_resolve_rel s ufile_list rel file_idx rd_idx0 res0 =
     (let m = mem s; res = res0\<lparr>res_ptr := 0\<rparr>; info = r_info (rel_at m rel)
      in do {
        uf \<leftarrow> ufile_at ufile_list file_idx;
        secs \<leftarrow> uld_dyn_get_link_sections m uf;
        case secs of
          (hash_sec, rel_dyn_sec, Some dynsym_sec, Some dynstr_sec) \<Rightarrow>
            let rel_sym = uld_dyn_get_dynsym_by_index_sec (ELF32_R_SYM info) dynsym_sec;
                rel_sym_name = uld_dyn_get_sym_name m rel_sym dynstr_sec;
                rel_type = ELF32_R_TYPE info;
                rd_idx = (if rel_type = R_ARM_FUNCDESC then - 1 else rd_idx0)
            in resolve_files s ufile_list rel rel_type rel_sym rel_sym_name
                 (rd_idx, rel_sym, secs) res (nat (file_idx + 1))
        | _ \<Rightarrow> None })"

definition uld_dyn_write_reso_abs32 ::
    "machine \<Rightarrow> uld_file list \<Rightarrow> int \<Rightarrow> u32 \<Rightarrow> uld_dyn_resolution \<Rightarrow> (int \<times> machine) option" where
  "uld_dyn_write_reso_abs32 s ufile_list file_idx rel res = do {
     rel_ufile \<leftarrow> ufile_at ufile_list file_idx;
     rel_dst \<leftarrow> uld_file_lma_to_adjusted_vma (mem s) rel_ufile (r_offset (rel_at (mem s) rel));
     if rel_dst = 0 then Some (- 1, swbkpt s)
     else do {
       ptr \<leftarrow> (if res_membase res \<noteq> 0
               then do { res_ufile \<leftarrow> ufile_at ufile_list (res_file_idx res);
                         uld_file_lma_to_adjusted_vma (mem s) res_ufile (res_ptr res) }
               else Some (res_ptr res));
       Some (0, s\<lparr>mem := st32 (mem s) rel_dst ptr\<rparr>) } }"

definition uld_dyn_write_reso_glob_dat ::
    "machine \<Rightarrow> uld_file list \<Rightarrow> int \<Rightarrow> u32 \<Rightarrow> uld_dyn_resolution \<Rightarrow> u32 \<Rightarrow> u32
       \<Rightarrow> (int \<times> u32 \<times> u32 \<times> machine) option" where
  "uld_dyn_write_reso_glob_dat s ufile_list file_idx rel res dl_alloc_base dl_alloc_size = do {
     rel_ufile \<leftarrow> ufile_at ufile_list file_idx;
     rel_dst \<leftarrow> uld_file_lma_to_adjusted_vma (mem s) rel_ufile (r_offset (rel_at (mem s) rel));
     if rel_dst = 0 then Some (- 1, dl_alloc_base, dl_alloc_size, swbkpt s)
     else if res_ptr res = 0
     then let s1 = (if res_file_idx res = file_idx then swbkpt s else s);
              ptr = dl_alloc_base;
              sz = st_size (sym_at (mem s1) (res_match_sym res));
              dl_alloc_base' = align_up (ptr + sz) ULD_DYN_ALLOC_ALIGNMENT;
              s2 = s1\<lparr>mem := uld_memset (mem s1) ptr 0 (unat sz)\<rparr>
          in Some (0, dl_alloc_base', dl_alloc_size + (dl_alloc_base' - ptr),
                   s2\<lparr>mem := st32 (mem s2) rel_dst ptr\<rparr>)
     else do {
       ptr \<leftarrow> (if res_membase res \<noteq> 0
               then do { res_ufile \<leftarrow> ufile_at ufile_list (res_file_idx res);
                         uld_file_lma_to_adjusted_vma (mem s) res_ufile (res_ptr res) }
               else Some (res_ptr res));
       Some (0, dl_alloc_base, dl_alloc_size, s\<lparr>mem := st32 (mem s) rel_dst ptr\<rparr>) } }"

definition uld_dyn_write_reso_funcdesc_value_dst ::
    "machine \<Rightarrow> u32 \<Rightarrow> uld_file list \<Rightarrow> uld_dyn_resolution \<Rightarrow> machine option" where
  "uld_dyn_write_reso_funcdesc_value_dst s dst ufile_list res = do {
     res_ufile \<leftarrow> ufile_at ufile_list (res_file_idx res);
     ptr \<leftarrow> uld_file_lma_to_adjusted_vma (mem s) res_ufile (res_ptr res);
     Some (s\<lparr>mem := st32 (st32 (mem s) dst ptr) (dst + 4) (res_membase res)\<rparr>) }"

definition uld_dyn_write_reso_funcdesc ::
    "machine \<Rightarrow> uld_file list \<Rightarrow> int \<Rightarrow> u32 \<Rightarrow> uld_dyn_resolution \<Rightarrow> u32 \<Rightarrow> u32
       \<Rightarrow> (int \<times> u32 \<times> u32 \<times> machine) option" where
  "uld_dyn_write_reso_funcdesc s ufile_list file_idx rel res dl_alloc_base dl_alloc_size = do {
     rel_ufile \<leftarrow> ufile_at ufile_list file_idx;
     rel_dst \<leftarrow> uld_file_lma_to_adjusted_vma (mem s) rel_ufile (r_offset (rel_at (mem s) rel));
     if rel_dst = 0 then Some (- 1, dl_alloc_base, dl_alloc_size, swbkpt s)
     else if res_membase res \<noteq> 0
     then do {
       s1 \<leftarrow> uld_dyn_write_reso_funcdesc_value_dst s dl_alloc_base ufile_list res;
       Some (0, dl_alloc_base + 8, dl_alloc_size + 8,
             s1\<lparr>mem := st32 (mem s1) rel_dst dl_alloc_base\<rparr>) }
     else Some (0, dl_alloc_base, dl_alloc_size, s\<lparr>mem := st32 (mem s) rel_dst (res_ptr res)\<rparr>) }"

definition uld_dyn_write_reso_funcdesc_value ::
    "machine \<Rightarrow> uld_file list \<Rightarrow> int \<Rightarrow> u32 \<Rightarrow> uld_dyn_resolution \<Rightarrow> (int \<times> machine) option" where
  "uld_dyn_write_reso_funcdesc_value s ufile_list file_idx rel res = do {
     rel_ufile \<leftarrow> ufile_at ufile_list file_idx;
     rel_dst \<leftarrow> uld_file_lma_to_adjusted_vma (mem s) rel_ufile (r_offset (rel_at (mem s) rel));
     if rel_dst = 0 then Some (- 1, swbkpt s)
     else if res_membase res \<noteq> 0
     then do { s1 \<leftarrow> uld_dyn_write_reso_funcdesc_value_dst s rel_dst ufile_list res; Some (0, s1) }
     else let m1 = st32 (mem s) rel_dst (ld32 (mem s) (res_ptr res));
              m2 = st32 m1 (rel_dst + 4) (ld32 m1 (res_ptr res + 4))
          in Some (0, s\<lparr>mem := m2\<rparr>) }"


record link_state =
  ls_mach :: machine
  ls_res :: uld_dyn_resolution
  ls_base :: u32
  ls_size :: u32

definition link_one :: "uld_file list \<Rightarrow> int \<Rightarrow> uld_file \<Rightarrow> u32 \<Rightarrow> nat \<Rightarrow> link_state \<Rightarrow> (int option \<times> link_state) option" where
  "link_one ufile_list file_idx uf rel rd_idx l =
     (let s = ls_mach l; rel_type = ELF32_R_TYPE (r_info (rel_at (mem s) rel))
      in if rel_type = R_ARM_ABS32 then do {
           (ret, res, s1) \<leftarrow> uld_dyn_resolve_rel s ufile_list rel file_idx (int rd_idx) (ls_res l);
           if ret = 0 then do {
             (r, s2) \<leftarrow> uld_dyn_write_reso_abs32 s1 ufile_list file_idx rel res;
             Some (Some ret, l\<lparr>ls_mach := s2, ls_res := res\<rparr>) }
           else Some (Some ret, l\<lparr>ls_mach := s1, ls_res := res\<rparr>) }
         else if rel_type = R_ARM_RELATIVE then do {
           (ret, s1) \<leftarrow> uld_dyn_update_relative s uf rel;
           Some (Some ret, l\<lparr>ls_mach := s1\<rparr>) }
         else if rel_type = R_ARM_GLOB_DAT then do {
           (ret0, res, s1) \<leftarrow> uld_dyn_resolve_rel s ufile_list rel file_idx (int rd_idx) (ls_res l);
           (ret, base, sz, s2) \<leftarrow> uld_dyn_write_reso_glob_dat s1 ufile_list file_idx rel res
                                   (ls_base l) (ls_size l);
           Some (Some ret, l\<lparr>ls_mach := s2, ls_res := res, ls_base := base, ls_size := sz\<rparr>) }
         else if rel_type = R_ARM_FUNCDESC then do {
           (ret, res, s1) \<leftarrow> uld_dyn_resolve_rel s ufile_list rel file_idx (int rd_idx) (ls_res l);
           if ret = 0 then do {
             (r, base, sz, s2) \<leftarrow> uld_dyn_write_reso_funcdesc s1 ufile_list file_idx rel res
                                  (ls_base l) (ls_size l);
             Some (Some ret, l\<lparr>ls_mach := s2, ls_res := res, ls_base := base, ls_size := sz\<rparr>) }
           else Some (Some ret, l\<lparr>ls_mach := s1, ls_res := res\<rparr>) }
         else if rel_type = R_ARM_FUNCDESC_VALUE then do {
           (ret, res, s1) \<leftarrow> uld_dyn_resolve_rel s ufile_list rel file_idx (int rd_idx) (ls_res l);
           if ret = 0 then do {
             (r, s2) \<leftarrow> uld_dyn_write_reso_funcdesc_value s1 ufile_list file_idx rel res;
             Some (Some ret, l\<lparr>ls_mach := s2, ls_res := res\<rparr>) }
           else Some (Some ret, l\<lparr>ls_mach := s1, ls_res := res\<rparr>) }
         else Some (None, l\<lparr>ls_mach := swbkpt s\<rparr>))"

lemma rel_count_lt: "unat (sh_size x) div 8 < 2 ^ 29"
  using unat_lt32 [of "sh_size x"] by simp

function link_rels ::
    "uld_file list \<Rightarrow> int \<Rightarrow> uld_file \<Rightarrow> uld_section \<Rightarrow> u32 \<Rightarrow> nat \<Rightarrow> link_state \<Rightarrow> (int \<times> link_state) option" where
  "link_rels ufile_list file_idx uf rel_dyn_sec rel rd_idx l =
     (if rd_idx < uld_dyn_get_rel_dyn_count_sec (mem (ls_mach l)) rel_dyn_sec
      then case link_one ufile_list file_idx uf rel rd_idx l of
             None \<Rightarrow> None
           | Some (None, l') \<Rightarrow> Some (- 1, l')
           | Some (Some ret, l') \<Rightarrow>
               if ret \<noteq> 0 then Some (- 1, l'\<lparr>ls_mach := swbkpt (ls_mach l')\<rparr>)
               else link_rels ufile_list file_idx uf rel_dyn_sec (rel + 8) (Suc rd_idx) l'
      else Some (0, l))"
  by pat_completeness auto
termination
  by (relation "measure (\<lambda>(ufile_list, file_idx, uf, rel_dyn_sec, rel, rd_idx, l). 2 ^ 29 - rd_idx)")
     (auto simp: uld_dyn_get_rel_dyn_count_sec_def dest!: less_trans [OF _ rel_count_lt])

fun link_files :: "uld_file list \<Rightarrow> nat \<Rightarrow> uld_file list \<Rightarrow> link_state \<Rightarrow> (int \<times> link_state) option" where
  "link_files ufile_list file_idx [] l = Some (0, l)"
| "link_files ufile_list file_idx (uf # rest) l = do {
     secs \<leftarrow> uld_dyn_get_link_sections (mem (ls_mach l)) uf;
     case secs of
       (hash_sec, None, dynsym_sec, dynstr_sec) \<Rightarrow> link_files ufile_list (Suc file_idx) rest l
     | (hash_sec, Some rel_dyn_sec, Some dynsym_sec, Some dynstr_sec) \<Rightarrow> do {
         (ret, l1) \<leftarrow> link_rels ufile_list (int file_idx) uf rel_dyn_sec
                        (sec_adjusted_lma rel_dyn_sec) 0 l;
         if ret \<noteq> 0 then Some (ret, l1) else link_files ufile_list (Suc file_idx) rest l1 }
     | _ \<Rightarrow> Some (- 1, l) }"

definition uld_dyn_link_file_list ::
    "machine \<Rightarrow> uld_dyn_resolution \<Rightarrow> uld_file list \<Rightarrow> u32 \<Rightarrow> (int \<times> link_state) option" where
  "uld_dyn_link_file_list s res ufile_list dl_alloc_base =
     (let l = \<lparr>ls_mach = s, ls_res = res, ls_base = dl_alloc_base, ls_size = 0\<rparr>
      in if ufile_list = [] \<or> dl_alloc_base = 0 then Some (- 1, l)
         else link_files ufile_list 0 ufile_list l)"

section \<open>Resolution\<close>

lemma search_rel_hit_idx:
  assumes "search_rel_hit s uf search_rel file_idx res = Some (res', s')"
  shows "mem s' = mem s \<and> res_file_idx res' = file_idx"
  using assms unfolding search_rel_hit_def Let_def
  by (elim bind_SomeE) (auto split: if_splits)

lemma resolve_search_rels_idx:
  "resolve_search_rels s uf rds rel ty rel_sym match_sym idx file_idx res n = Some (found, res', s') \<Longrightarrow>
    mem s' = mem s \<and> (if found then res_file_idx res' = file_idx else res' = res)"
proof (induction n arbitrary: s)
  case (Suc n)
  then show ?case
    by (cases rds) (auto simp: Let_def split: if_splits elim!: bind_SomeE dest!: Suc.IH search_rel_hit_idx)
qed simp

lemma resolve_check_sym_idx:
  assumes "resolve_check_sym s uf rel ty match_sym file_idx res = Some c"
  shows "case c of Accept s' \<Rightarrow> mem s' = mem s
    | Reject ret res' s' \<Rightarrow> mem s' = mem s \<and> (ret = 0 \<longrightarrow> res_file_idx res' = file_idx)"
  using assms unfolding resolve_check_sym_def Let_def
  by (auto split: if_splits option.splits elim!: bind_SomeE)

lemma resolve_in_file_idx:
  assumes "resolve_in_file s uf rel ty rel_sym match_sym secs rd_idx file_idx res = Some step"
  shows "case step of Done ret res' s' \<Rightarrow> mem s' = mem s \<and> (ret = 0 \<longrightarrow> res_file_idx res' = file_idx)
    | Next res' s' \<Rightarrow> mem s' = mem s \<and> (res' = res \<or> res_file_idx res' = file_idx)"
proof -
  obtain c where c: "resolve_check_sym s uf rel ty match_sym file_idx res = Some c"
    using assms unfolding resolve_in_file_def by (elim bind_SomeE)
  note chk = resolve_check_sym_idx [OF c]
  show ?thesis
  proof (cases c)
    case (Reject ret res' s')
    then show ?thesis using assms c chk unfolding resolve_in_file_def by auto
  next
    case (Accept s1)
    then show ?thesis using assms c chk unfolding resolve_in_file_def
      by (auto simp: Let_def split: if_splits prod.splits option.splits elim!: bind_SomeE
          dest!: resolve_search_rels_idx)
  qed
qed

definition in_scope :: "int \<Rightarrow> uld_dyn_resolution \<Rightarrow> bool" where
  "in_scope k res \<longleftrightarrow> 0 \<le> res_file_idx res \<and> res_file_idx res \<le> k"

lemma resolve_files_scope:
  assumes "resolve_files s ufile_list rel ty rel_sym rel_sym_name cur res n = Some (ret, res', s')"
    and "int n \<le> k + 1" and "res_ptr res = 0 \<or> in_scope k res"
  shows "mem s' = mem s \<and> (ret = 0 \<longrightarrow> in_scope k res')"
  using assms
proof (induction n arbitrary: s cur res)
  case 0
  then show ?case by (auto split: if_splits)
next
  case (Suc n)
  obtain rd_idx match_sym0 secs0 where cur: "cur = (rd_idx, match_sym0, secs0)" by (cases cur) auto
  obtain uf where uf: "ufile_at ufile_list (int n) = Some uf" using Suc.prems(1) cur by (auto split: option.splits)
  obtain match where m: "(if rd_idx < 0 then resolve_find_match (mem s) uf rel_sym_name
      else Some (Some (match_sym0, secs0))) = Some match"
    using Suc.prems(1) unfolding cur resolve_files.simps uf option.case by (elim bind_SomeE)
  show ?case
  proof (cases match)
    case None
    then have "resolve_files s ufile_list rel ty rel_sym rel_sym_name cur res n = Some (ret, res', s')"
      using Suc.prems(1) m uf cur by simp
    then show ?thesis using Suc.prems(2,3) by (intro Suc.IH) auto
  next
    case (Some ms)
    obtain match_sym secs where ms: "ms = (match_sym, secs)" by (cases ms)
    obtain step where st: "resolve_in_file s uf rel ty rel_sym match_sym secs rd_idx (int n) res = Some step"
      and rest: "(case step of Done ret res' s' \<Rightarrow> Some (ret, res', s')
        | Next res' s' \<Rightarrow> resolve_files s' ufile_list rel ty rel_sym rel_sym_name (- 1, match_sym, secs) res' n)
        = Some (ret, res', s')"
      using Suc.prems(1) m uf cur Some ms by (auto elim!: bind_SomeE)
    note idx = resolve_in_file_idx [OF st]
    show ?thesis
    proof (cases step)
      case (Done ret1 res1 s1)
      then show ?thesis using rest idx Suc.prems(2) by (auto simp: in_scope_def)
    next
      case (Next res1 s1)
      then have "mem s' = mem s1 \<and> (ret = 0 \<longrightarrow> in_scope k res')"
        using rest idx Suc.prems(2,3)
        by (intro Suc.IH [where cur = "(- 1, match_sym, secs)" and res = res1]) (auto simp: in_scope_def)
      then show ?thesis using Next idx by simp
    qed
  qed
qed

lemma resolve_rel_scope:
  assumes "uld_dyn_resolve_rel s ufile_list rel file_idx rd_idx res0 = Some (ret, res, s')"
  shows "mem s' = mem s \<and> (ret = 0 \<longrightarrow> in_scope file_idx res)"
proof -
  obtain uf where "ufile_at ufile_list file_idx = Some uf"
    using assms unfolding uld_dyn_resolve_rel_def Let_def by (elim bind_SomeE)
  then have f: "0 \<le> file_idx" by (auto simp: ufile_at_def split: if_splits)
  show ?thesis
    using assms f unfolding uld_dyn_resolve_rel_def Let_def
    by (auto split: prod.splits option.splits elim!: bind_SomeE dest!: resolve_files_scope [where k = file_idx])
qed

section \<open>Writing a resolution\<close>

text \<open>The words at the place of a relocation, which is null when it lies in no section.\<close>

definition place_of :: "u32 \<Rightarrow> nat \<Rightarrow> u32 set" where
  "place_of dst w = (if dst = 0 then {} else rng dst w)"

lemma place_of_st32:
  assumes "agrees_off (place_of dst w \<union> A) m m'" "dst \<noteq> 0" "4 \<le> w"
  shows "agrees_off (place_of dst w \<union> A) m (st32 m' dst v)"
  using assms rng_mono [of 4 w dst] by (auto simp: place_of_def intro!: agrees_off_st32)

lemma place_of_st32_4: "dst \<noteq> 0 \<Longrightarrow> agrees_off (place_of dst 4) m (st32 m dst v)"
  using place_of_st32 [of dst 4 "{}" m m v] by (simp add: agrees_off_refl)

lemma write_dst_frame:
  assumes "uld_dyn_write_reso_funcdesc_value_dst s p ufile_list res = Some s'" "rng p 8 \<subseteq> R"
  shows "agrees_off R (mem s) (mem s')"
proof -
  have "rng p 4 \<subseteq> R" "rng (p + 4) 4 \<subseteq> R" using assms(2) rng_48 [of p] by blast+
  then show ?thesis using assms(1) unfolding uld_dyn_write_reso_funcdesc_value_dst_def
    by (auto elim!: bind_SomeE intro!: agrees_off_st32)
qed

lemma write_abs32_frame:
  assumes "uld_dyn_write_reso_abs32 s ufile_list file_idx rel res = Some (r, s')"
    and "ufile_at ufile_list file_idx = Some uf"
    and "uld_file_lma_to_adjusted_vma (mem s) uf (r_offset (rel_at (mem s) rel)) = Some dst"
  shows "agrees_off (place_of dst 4) (mem s) (mem s')"
  using assms unfolding uld_dyn_write_reso_abs32_def
  by (auto split: if_splits elim!: bind_SomeE intro!: place_of_st32_4)

lemma relative_frame:
  assumes "uld_dyn_update_relative s uf rel = Some (r, s')"
    and "uld_file_lma_to_adjusted_vma (mem s) uf (r_offset (rel_at (mem s) rel)) = Some dst"
  shows "agrees_off (place_of dst 4) (mem s) (mem s')"
  using assms unfolding uld_dyn_update_relative_def
  by (auto split: if_splits elim!: bind_SomeE intro!: place_of_st32_4)

lemma write_funcdesc_value_frame:
  assumes "uld_dyn_write_reso_funcdesc_value s ufile_list file_idx rel res = Some (r, s')"
    and "ufile_at ufile_list file_idx = Some uf"
    and "uld_file_lma_to_adjusted_vma (mem s) uf (r_offset (rel_at (mem s) rel)) = Some dst"
  shows "agrees_off (place_of dst 8) (mem s) (mem s')"
proof (cases "dst = 0")
  case True
  then show ?thesis using assms unfolding uld_dyn_write_reso_funcdesc_value_def by (auto elim!: bind_SomeE)
next
  case False
  then have "agrees_off (place_of dst 8) (mem s) (mem s1)"
    if "uld_dyn_write_reso_funcdesc_value_dst s dst ufile_list res = Some s1" for s1
    using write_dst_frame [OF that] by (simp add: place_of_def)
  then show ?thesis
    using assms False rng_48 [of dst] unfolding uld_dyn_write_reso_funcdesc_value_def Let_def
    by (auto simp: place_of_def split: if_splits elim!: bind_SomeE intro!: agrees_off_st32)
qed

lemma write_funcdesc_frame:
  assumes "uld_dyn_write_reso_funcdesc s ufile_list file_idx rel res base sz = Some (r, base', sz', s')"
    and "ufile_at ufile_list file_idx = Some uf"
    and "uld_file_lma_to_adjusted_vma (mem s) uf (r_offset (rel_at (mem s) rel)) = Some dst"
  shows "if dst \<noteq> 0 \<and> res_membase res \<noteq> 0
    then base' = base + 8 \<and> sz' = sz + 8 \<and> agrees_off (place_of dst 4 \<union> rng base 8) (mem s) (mem s')
    else base' = base \<and> sz' = sz \<and> agrees_off (place_of dst 4) (mem s) (mem s')"
proof (cases "dst \<noteq> 0 \<and> res_membase res \<noteq> 0")
  case True
  then obtain s1 where s1: "uld_dyn_write_reso_funcdesc_value_dst s base ufile_list res = Some s1"
      and r: "base' = base + 8" "sz' = sz + 8" "mem s' = st32 (mem s1) dst base"
    using assms unfolding uld_dyn_write_reso_funcdesc_def by (auto elim!: bind_SomeE)
  have "agrees_off (place_of dst 4 \<union> rng base 8) (mem s) (mem s1)" using write_dst_frame [OF s1] by simp
  then show ?thesis using True r by (simp add: place_of_st32)
next
  case False
  then show ?thesis
    using assms unfolding uld_dyn_write_reso_funcdesc_def
    by (auto split: if_splits elim!: bind_SomeE intro!: place_of_st32_4)
qed

lemma write_glob_dat_frame:
  assumes "uld_dyn_write_reso_glob_dat s ufile_list file_idx rel res base sz = Some (r, base', sz', s')"
    and "ufile_at ufile_list file_idx = Some uf"
    and "uld_file_lma_to_adjusted_vma (mem s) uf (r_offset (rel_at (mem s) rel)) = Some dst"
  shows "if dst \<noteq> 0 \<and> res_ptr res = 0
    then base' = align_up (base + st_size (sym_at (mem s) (res_match_sym res))) 2 \<and> sz' = sz + (base' - base)
       \<and> agrees_off (place_of dst 4 \<union> rng base (unat (st_size (sym_at (mem s) (res_match_sym res))))) (mem s) (mem s')
    else base' = base \<and> sz' = sz \<and> agrees_off (place_of dst 4) (mem s) (mem s')"
proof (cases "dst \<noteq> 0 \<and> res_ptr res = 0")
  case True
  let ?n = "st_size (sym_at (mem s) (res_match_sym res))"
  have r: "base' = align_up (base + ?n) 2" "sz' = sz + (base' - base)"
      "mem s' = st32 (uld_memset (mem s) base 0 (unat ?n)) dst base"
    using assms True unfolding uld_dyn_write_reso_glob_dat_def Let_def ULD_DYN_ALLOC_ALIGNMENT_def
    by (auto elim!: bind_SomeE)
  have "agrees_off (place_of dst 4 \<union> rng base (unat ?n)) (mem s) (uld_memset (mem s) base 0 (unat ?n))"
    using unat_lt32 [of ?n] by (intro agrees_off_memset) auto
  then show ?thesis using True r by (simp add: place_of_st32)
next
  case False
  then show ?thesis
    using assms unfolding uld_dyn_write_reso_glob_dat_def
    by (auto split: if_splits elim!: bind_SomeE intro!: place_of_st32_4)
qed

text \<open>Whether linking a relocation allocates a descriptor or an object, and how many bytes of it.\<close>

definition desc_new :: "u8 \<Rightarrow> u32 \<Rightarrow> int option \<Rightarrow> uld_dyn_resolution \<Rightarrow> bool" where
  "desc_new ty dst r res \<longleftrightarrow> ty = R_ARM_FUNCDESC \<and> dst \<noteq> 0 \<and> r = Some 0 \<and> res_membase res \<noteq> 0"

definition obj_new :: "u8 \<Rightarrow> u32 \<Rightarrow> uld_dyn_resolution \<Rightarrow> bool" where
  "obj_new ty dst res \<longleftrightarrow> ty = R_ARM_GLOB_DAT \<and> dst \<noteq> 0 \<and> res_ptr res = 0"

definition new_bytes :: "u8 \<Rightarrow> u32 \<Rightarrow> int option \<Rightarrow> mem \<Rightarrow> uld_dyn_resolution \<Rightarrow> nat" where
  "new_bytes ty dst r m res = (if desc_new ty dst r res then 8
     else if obj_new ty dst res then unat (st_size (sym_at m (res_match_sym res))) else 0)"

lemma link_one_frame:
  fixes l l' :: link_state and rel dst :: u32 and r :: "int option"
  defines "m \<equiv> mem (ls_mach l)" and "ty \<equiv> ELF32_R_TYPE (r_info (rel_at (mem (ls_mach l)) rel))"
  assumes "link_one ufile_list file_idx uf rel rd_idx l = Some (r, l')"
    and "ufile_at ufile_list file_idx = Some uf"
    and "uld_file_lma_to_adjusted_vma m uf (r_offset (rel_at m rel)) = Some dst"
  defines "n \<equiv> new_bytes ty dst r m (ls_res l')"
  shows "agrees_off (place_of dst (if ty = R_ARM_FUNCDESC_VALUE then 8 else 4) \<union> rng (ls_base l) n) m (mem (ls_mach l'))
    \<and> ls_base l' = (if obj_new ty dst (ls_res l') then align_up (ls_base l + of_nat n) 2 else ls_base l + of_nat n)
    \<and> ls_size l' = ls_size l + (ls_base l' - ls_base l)"
proof -
  note one = assms(3) [unfolded link_one_def Let_def, folded ty_def]
  note res = resolve_rel_scope [THEN conjunct1]
  consider "ty = R_ARM_GLOB_DAT" | "ty = R_ARM_FUNCDESC" | "ty = R_ARM_FUNCDESC_VALUE"
    | "ty \<notin> {R_ARM_GLOB_DAT, R_ARM_FUNCDESC, R_ARM_FUNCDESC_VALUE}" by blast
  then show ?thesis
  proof cases
    case 1
    then obtain ret0 reso s1 ret base sz s2 where
      s1: "uld_dyn_resolve_rel (ls_mach l) ufile_list rel file_idx (int rd_idx) (ls_res l) = Some (ret0, reso, s1)"
      and w: "uld_dyn_write_reso_glob_dat s1 ufile_list file_idx rel reso (ls_base l) (ls_size l) = Some (ret, base, sz, s2)"
      and l': "r = Some ret" "l' = l\<lparr>ls_mach := s2, ls_res := reso, ls_base := base, ls_size := sz\<rparr>"
      using one by (auto simp: rel_type_defs elim!: bind_SomeE)
    have ms: "mem s1 = m" using res [OF s1] by (simp add: m_def)
    show ?thesis
      using write_glob_dat_frame [OF w assms(4)] assms(5) 1 l'
      by (auto simp: ms n_def new_bytes_def desc_new_def obj_new_def rel_type_defs split: if_splits)
  next
    case 2
    then obtain ret reso s1 where
      s1: "uld_dyn_resolve_rel (ls_mach l) ufile_list rel file_idx (int rd_idx) (ls_res l) = Some (ret, reso, s1)"
      and r: "r = Some ret"
      and l': "if ret = 0 then \<exists>r2 base sz s2. uld_dyn_write_reso_funcdesc s1 ufile_list file_idx rel reso (ls_base l) (ls_size l)
            = Some (r2, base, sz, s2) \<and> l' = l\<lparr>ls_mach := s2, ls_res := reso, ls_base := base, ls_size := sz\<rparr>
          else l' = l\<lparr>ls_mach := s1, ls_res := reso\<rparr>"
      using one by (auto simp: rel_type_defs split: if_splits elim!: bind_SomeE)
    have ms: "mem s1 = m" using res [OF s1] by (simp add: m_def)
    show ?thesis
    proof (cases "ret = 0")
      case True
      then obtain r2 base sz s2 where w: "uld_dyn_write_reso_funcdesc s1 ufile_list file_idx rel reso (ls_base l) (ls_size l)
            = Some (r2, base, sz, s2)" "l' = l\<lparr>ls_mach := s2, ls_res := reso, ls_base := base, ls_size := sz\<rparr>"
        using l' by auto
      show ?thesis
        using write_funcdesc_frame [OF w(1) assms(4)] assms(5) 2 w(2) r True
        by (auto simp: ms n_def new_bytes_def desc_new_def obj_new_def rel_type_defs split: if_splits)
    next
      case False
      then show ?thesis using l' r ms by (simp add: n_def new_bytes_def desc_new_def obj_new_def 2 rel_type_defs)
    qed
  next
    case 3
    then have "agrees_off (place_of dst 8) m (mem (ls_mach l')) \<and> ls_base l' = ls_base l \<and> ls_size l' = ls_size l"
      using one assms(4,5)
      by (auto simp: rel_type_defs m_def split: if_splits elim!: bind_SomeE dest!: res write_funcdesc_value_frame)
    then show ?thesis using 3 by (simp add: n_def new_bytes_def desc_new_def obj_new_def rel_type_defs)
  next
    case 4
    then have "agrees_off (place_of dst 4) m (mem (ls_mach l')) \<and> ls_base l' = ls_base l \<and> ls_size l' = ls_size l"
      using one assms(4,5)
      by (auto simp: rel_type_defs m_def split: if_splits elim!: bind_SomeE dest!: res write_abs32_frame relative_frame)
    then show ?thesis using 4 by (simp add: n_def new_bytes_def desc_new_def obj_new_def)
  qed
qed

section \<open>The allocation counter\<close>

lemma ufile_vma_total: "\<exists>r. uld_file_lma_to_adjusted_vma m uf lma = Some r"
  by (simp add: uld_file_lma_to_adjusted_vma_def lma_map_eq)

definition dl_start :: "link_state \<Rightarrow> u32" where "dl_start l = ls_base l - ls_size l"

lemma dl_start_mach [simp]: "dl_start (l\<lparr>ls_mach := s\<rparr>) = dl_start l"
  by (simp add: dl_start_def)

lemma link_one_start:
  assumes "link_one ufile_list file_idx uf rel rd_idx l = Some (r, l')" "ufile_at ufile_list file_idx = Some uf"
  shows "dl_start l' = dl_start l"
proof -
  obtain dst where "uld_file_lma_to_adjusted_vma (mem (ls_mach l)) uf (r_offset (rel_at (mem (ls_mach l)) rel)) = Some dst"
    using ufile_vma_total by blast
  from link_one_frame [OF assms this] show ?thesis by (simp add: dl_start_def)
qed

lemma link_rels_start:
  assumes "ufile_at ufile_list file_idx = Some uf"
  shows "link_rels ufile_list file_idx uf rds rel rd_idx l = Some (ret, l') \<Longrightarrow> dl_start l' = dl_start l"
  using assms
proof (induction ufile_list file_idx uf rds rel rd_idx l rule: link_rels.induct)
  case (1 ufile_list file_idx uf rds rel rd_idx l)
  show ?case
  proof (cases "rd_idx < uld_dyn_get_rel_dyn_count_sec (mem (ls_mach l)) rds")
    case False
    then show ?thesis using "1.prems"(1) by (subst (asm) link_rels.simps) simp
  next
    case True
    then obtain r l1 where l1: "link_one ufile_list file_idx uf rel rd_idx l = Some (r, l1)"
      using "1.prems"(1) by (subst (asm) link_rels.simps) (auto split: option.splits)
    note st = link_one_start [OF l1 "1.prems"(2)]
    show ?thesis
    proof (cases "r = Some 0")
      case True
      then have "link_rels ufile_list file_idx uf rds (rel + 8) (Suc rd_idx) l1 = Some (ret, l')"
        using "1.prems"(1) l1 \<open>rd_idx < _\<close> by (subst (asm) link_rels.simps) simp
      then show ?thesis using "1.IH" [OF \<open>rd_idx < _\<close> l1] True "1.prems"(2) st by simp
    next
      case False
      then show ?thesis using "1.prems"(1) l1 \<open>rd_idx < _\<close> st
        by (subst (asm) link_rels.simps) (auto split: option.splits if_splits)
    qed
  qed
qed

lemma link_files_start:
  "rest = drop k ufile_list \<Longrightarrow> link_files ufile_list k rest l = Some (ret, l') \<Longrightarrow> dl_start l' = dl_start l"
proof (induction rest arbitrary: k l)
  case (Cons uf rest)
  have k: "k < length ufile_list" using Cons.prems(1) by (metis drop_all list.distinct(1) not_less)
  then have uf: "ufile_at ufile_list (int k) = Some uf" and rest: "rest = drop (Suc k) ufile_list"
    using Cons.prems(1) [folded Cons_nth_drop_Suc [OF k]] k by (auto simp: ufile_at_def)
  note IH = Cons.IH [OF rest] and rels = link_rels_start [OF uf]
  obtain secs where secs: "uld_dyn_get_link_sections (mem (ls_mach l)) uf = Some secs"
    using Cons.prems(2) unfolding link_files.simps by (elim bind_SomeE)
  obtain h r y t where e: "secs = (h, r, y, t)" by (cases secs)
  show ?case
  proof (cases r)
    case None
    then show ?thesis using Cons.prems(2) secs e IH by simp
  next
    case (Some rds)
    show ?thesis
    proof (cases "y = None \<or> t = None")
      case True
      then show ?thesis using Cons.prems(2) secs e Some by (auto split: option.splits)
    next
      case False
      then obtain ret1 l1 where l1: "link_rels ufile_list (int k) uf rds (sec_adjusted_lma rds) 0 l = Some (ret1, l1)"
          "(if ret1 \<noteq> 0 then Some (ret1, l1) else link_files ufile_list (Suc k) rest l1) = Some (ret, l')"
        using Cons.prems(2) secs e Some by (auto elim!: bind_SomeE)
      then show ?thesis using rels [OF l1(1)] IH [of l1] by (auto split: if_splits)
    qed
  qed
qed simp

lemma link_list_start:
  assumes "uld_dyn_link_file_list s res ufile_list dl_alloc_base = Some (ret, l)"
  shows "dl_start l = dl_alloc_base"
proof -
  let ?l = "\<lparr>ls_mach = s, ls_res = res, ls_base = dl_alloc_base, ls_size = 0\<rparr>"
  have "dl_start ?l = dl_alloc_base" by (simp add: dl_start_def)
  then show ?thesis
    using assms link_files_start [of ufile_list 0 ufile_list ?l ret l]
    unfolding uld_dyn_link_file_list_def Let_def by (auto split: if_splits)
qed

section \<open>Properties\<close>

text \<open>C21 Resolving a relocation of a file changes no memory, and a resolution that is found belongs to
  the file itself or to one that was loaded before it, so to one of its dependencies.\<close>

theorem resolve_scope:
  assumes "uld_dyn_resolve_rel s ufile_list rel file_idx rd_idx res0 = Some (ret, res, s')"
  shows "mem s' = mem s \<and> (ret = 0 \<longrightarrow> 0 \<le> res_file_idx res \<and> res_file_idx res \<le> file_idx)"
  using resolve_rel_scope [OF assms] by (simp add: in_scope_def)

text \<open>C8 Linking one relocation changes at most the word at the place the relocation names (two words
  for a descriptor in place) and the \<open>n\<close> bytes it allocates at the allocation pointer; when the place is in no section
  nothing is changed. The \<open>n\<close> bytes are the eight of a function descriptor whose function was resolved, or those of an object
  that no file defines, with the size of its symbol, and none otherwise. The allocation pointer goes to the end of
  these bytes, for an object to the next multiple of four, and the allocated size grows by as much.\<close>

theorem reloc_writes_only:
  fixes l l' :: link_state and rel dst :: u32 and r :: "int option"
  defines "m \<equiv> mem (ls_mach l)" and "ty \<equiv> ELF32_R_TYPE (r_info (rel_at (mem (ls_mach l)) rel))"
    and "res \<equiv> ls_res l'"
  assumes "link_one ufile_list file_idx uf rel rd_idx l = Some (r, l')"
    and "ufile_at ufile_list file_idx = Some uf"
    and "uld_file_lma_to_adjusted_vma m uf (r_offset (rel_at m rel)) = Some dst"
  defines "desc \<equiv> ty = R_ARM_FUNCDESC \<and> dst \<noteq> 0 \<and> r = Some 0 \<and> res_membase res \<noteq> 0"
    and "obj \<equiv> ty = R_ARM_GLOB_DAT \<and> dst \<noteq> 0 \<and> res_ptr res = 0"
  defines "n \<equiv> if desc then 8 else if obj then unat (st_size (sym_at m (res_match_sym res))) else 0"
    and "width \<equiv> if dst = 0 then 0 else if ty = R_ARM_FUNCDESC_VALUE then 8 else 4"
  shows "(\<forall>a. a \<notin> rng dst width \<union> rng (ls_base l) n \<longrightarrow> mem (ls_mach l') a = m a)
    \<and> ls_base l' = (if obj then align_up (ls_base l + of_nat n) 2 else ls_base l + of_nat n)
    \<and> ls_size l' = ls_size l + (ls_base l' - ls_base l)"
proof -
  have "place_of dst (if ty = R_ARM_FUNCDESC_VALUE then 8 else 4) = rng dst width" by (simp add: place_of_def width_def)
  then show ?thesis
    using link_one_frame [OF assms(4,5), of dst] assms(6)
    unfolding new_bytes_def desc_new_def obj_new_def agrees_off_def m_def ty_def res_def desc_def obj_def n_def by auto
qed

text \<open>C22 However the linking of a list of files ends, the allocation pointer has advanced from the
  base it was given by exactly the size that was counted.\<close>

theorem dl_alloc_counted:
  assumes "uld_dyn_link_file_list s res ufile_list dl_alloc_base = Some (ret, l)"
  shows "ls_base l = dl_alloc_base + ls_size l"
  using link_list_start [OF assms] by (simp add: dl_start_def algebra_simps)

text \<open>C23 A function descriptor for a resolved function is allocated in eight bytes of the allocation
  area: the relocated word points to it, and it holds the adjusted address of the function followed by the memory
  base of the file that defines it.\<close>

theorem funcdesc_built:
  assumes w: "uld_dyn_write_reso_funcdesc s ufile_list file_idx rel res base sz = Some (r, base', sz', s')"
    and uf: "ufile_at ufile_list file_idx = Some uf"
    and dst: "uld_file_lma_to_adjusted_vma (mem s) uf (r_offset (rel_at (mem s) rel)) = Some dst" "dst \<noteq> 0"
    and mb: "res_membase res \<noteq> 0" and apart: "rng dst 4 \<inter> rng base 8 = {}"
  shows "\<exists>res_uf ptr. ufile_at ufile_list (res_file_idx res) = Some res_uf
    \<and> uld_file_lma_to_adjusted_vma (mem s) res_uf (res_ptr res) = Some ptr
    \<and> r = 0 \<and> base' = base + 8 \<and> sz' = sz + 8
    \<and> ld32 (mem s') dst = base \<and> ld32 (mem s') base = ptr \<and> ld32 (mem s') (base + 4) = res_membase res"
proof -
  have a: "rng dst 4 \<inter> rng base 4 = {}" "rng dst 4 \<inter> rng (base + 4) 4 = {}"
    using apart rng_48 [of base] by blast+
  have b: "rng (base + 4) 4 \<inter> rng base 4 = {}" using rng_disjoint_words [of base] by (simp add: Int_commute)
  obtain s1 where s1: "uld_dyn_write_reso_funcdesc_value_dst s base ufile_list res = Some s1"
      and r: "r = 0" "base' = base + 8" "sz' = sz + 8" "s' = s1\<lparr>mem := st32 (mem s1) dst base\<rparr>"
    using w uf dst mb unfolding uld_dyn_write_reso_funcdesc_def by (auto elim!: bind_SomeE)
  then obtain res_uf ptr where p: "ufile_at ufile_list (res_file_idx res) = Some res_uf"
      "uld_file_lma_to_adjusted_vma (mem s) res_uf (res_ptr res) = Some ptr"
      "mem s1 = st32 (st32 (mem s) base ptr) (base + 4) (res_membase res)"
    unfolding uld_dyn_write_reso_funcdesc_value_dst_def by (auto elim!: bind_SomeE)
  show ?thesis using p r by (auto simp: ld32_st32_other a b)
qed

section \<open>A linked file\<close>

text \<open>One section of 16 bytes at \<open>0x8000\<close>, placed at \<open>0x9000\<close>, with its header at \<open>0x200\<close>; one relocation at \<open>0x700\<close> for the
  address \<open>0x8004\<close>; a symbol table at \<open>0x2000\<close> whose symbol 1 is defined at \<open>0x8008\<close>.\<close>

definition link_sym_mem :: "u8 \<Rightarrow> u8 \<Rightarrow> u8 \<Rightarrow> u8 \<Rightarrow> mem" where
  "link_sym_mem ty sz info shndx = (\<lambda>a. 0)(0x204 := 1, 0x214 := 16, 0x254 := 8, 0x700 := 4, 0x701 := 0x80, 0x704 := ty, 0x705 := 1,
     0x800 := 46, 0x801 := 100, 0x802 := 121, 0x803 := 110, 0x804 := 115, 0x805 := 121, 0x806 := 109,
     0x810 := 46, 0x811 := 100, 0x812 := 121, 0x813 := 110, 0x814 := 115, 0x815 := 116, 0x816 := 114,
     0x830 := 46, 0x831 := 114, 0x832 := 101, 0x833 := 108, 0x834 := 46, 0x835 := 100, 0x836 := 121, 0x837 := 110,
     0x2014 := 8, 0x2015 := 0x80, 0x2018 := sz, 0x201c := info, 0x201e := shndx, 0x9004 := 8, 0x9005 := 0x80)"

abbreviation link_mem :: "u8 \<Rightarrow> mem" where
  "link_mem ty \<equiv> link_sym_mem ty 0 0 1"

definition link_res :: uld_dyn_resolution where
  "link_res = \<lparr>res_ptr = 0, res_membase = 0, res_match_sym = 0, res_file_idx = 0\<rparr>"

definition link_file :: uld_file where
  "link_file = uld_file_zero\<lparr>uf_membase := 0x5000, uf_flash := [
     uld_section_zero\<lparr>sec_shdr := 0x200, sec_lma := 0x8000, sec_adjusted_vma := 0x9000, sec_name := 0x820\<rparr>,
     uld_section_zero\<lparr>sec_name := 0x800, sec_adjusted_lma := 0x2000\<rparr>,
     uld_section_zero\<lparr>sec_name := 0x810, sec_adjusted_lma := 0x3000\<rparr>,
     uld_section_zero\<lparr>sec_name := 0x830, sec_shdr := 0x240, sec_adjusted_lma := 0x700\<rparr>]\<rparr>"

lemma link_mem_shdr: "sh_type (shdr_at (link_sym_mem ty z f n) 0x200) = 1" "sh_size (shdr_at (link_sym_mem ty z f n) 0x200) = 16"
  by (simp_all add: shdr_at_def ld32_def) (simp_all add: link_sym_mem_def)

lemma link_mem_rel:
  assumes "ty \<in> {R_ARM_ABS32, R_ARM_RELATIVE, R_ARM_FUNCDESC, R_ARM_GLOB_DAT}"
  shows "r_offset (rel_at (link_sym_mem ty z f n) 0x700) = 0x8004" "ELF32_R_TYPE (r_info (rel_at (link_sym_mem ty z f n) 0x700)) = ty"
    "ELF32_R_SYM (r_info (rel_at (link_sym_mem ty z f n) 0x700)) = 1"
  using assms
  by (auto simp: rel_at_def ld32_def link_sym_mem_def ELF32_R_TYPE_def ELF32_R_SYM_def rel_type_defs)

lemma link_file_map: "uld_file_lma_to_adjusted_vma (link_sym_mem ty z f n) link_file 0x8004 = Some 0x9004"
    "uld_file_lma_to_adjusted_vma (link_sym_mem ty z f n) link_file 0x8008 = Some 0x9008"
  by (simp_all add: uld_file_lma_to_adjusted_vma_def lma_map_eq sec_holding_def link_file_def uld_file_zero_def
      in_extent_def link_mem_shdr uld_section_lma_to_adjusted_ma_def Let_def uld_section_zero_def elf_consts)

lemma link_names: "cs_is (link_sym_mem ty z f n) (Ptr 0x820) []"
    "cs_is (link_sym_mem ty z f n) (Ptr 0x800) [46, 100, 121, 110, 115, 121, 109]"
    "cs_is (link_sym_mem ty z f n) (Ptr 0x810) [46, 100, 121, 110, 115, 116, 114]"
    "cs_is (link_sym_mem ty z f n) (Ptr 0x830) [46, 114, 101, 108, 46, 100, 121, 110]"
  by (simp_all add: cs_is_Ptr_Cons) (simp_all add: cs_is_def link_sym_mem_def)

lemma link_file_secs: "uld_dyn_get_link_sections (link_sym_mem ty z f n) link_file
    = Some (None, Some (uf_flash link_file ! 3), Some (uf_flash link_file ! 1), Some (uf_flash link_file ! 2))"
proof -
  note nm = link_names [of ty z f n, THEN uld_strcmp_bytes, OF cs_is_Lit [THEN iffD2]]
  show ?thesis
    unfolding uld_dyn_get_link_sections_def uld_file_get_sec_hash_def uld_file_get_sec_rel_dyn_def
      uld_file_get_sec_dynsym_def uld_file_get_sec_dynstr_def uld_file_get_sec_def uld_file_get_sec_by_name_def
    by (simp add: uf_secs_def link_file_def uld_file_zero_def uld_section_zero_def uld_file_idx_to_sec_type_def
        sec_flag_defs nm uf_sec_def)
qed

theorem resolve_scope_witness:
  "\<exists>res. uld_dyn_resolve_rel (mach0 (link_mem R_ARM_ABS32)) [link_file] 0x700 0 0 link_res = Some (0, res, mach0 (link_mem R_ARM_ABS32))
    \<and> res_file_idx res = 0"
proof -
  let ?m = "link_mem R_ARM_ABS32"
  have shn: "st_shndx (sym_at (link_mem ty) 0x2010) = 1" for ty
    by (simp add: sym_at_def ld16_def link_sym_mem_def)
  have "\<exists>res. uld_dyn_resolve_rel (mach0 ?m) [link_file] 0x700 0 0 link_res = Some (0, res, mach0 ?m)"
    by (simp add: uld_dyn_resolve_rel_def ufile_at_def link_file_secs link_mem_rel Let_def
        uld_dyn_get_dynsym_by_index_sec_def resolve_in_file_def resolve_check_sym_def
        elf32_sym_has_section_index_def shn rel_type_defs) (simp add: link_file_def shn)
  then show ?thesis using resolve_scope [of "mach0 ?m" "[link_file]" "0x700" 0 0 link_res 0] by fastforce
qed

lemma link_one_relative:
  "link_one [link_file] 0 link_file 0x700 0 \<lparr>ls_mach = mach0 (link_mem R_ARM_RELATIVE), ls_res = link_res, ls_base = base, ls_size = 0\<rparr>
    = Some (Some 0, \<lparr>ls_mach = mach0 (st32 (link_mem R_ARM_RELATIVE) 0x9004 0x9008), ls_res = link_res, ls_base = base, ls_size = 0\<rparr>)"
proof -
  have v: "ld32 (link_mem ty) 0x9004 = 0x8008" for ty by (simp add: ld32_def link_sym_mem_def)
  have r: "r_offset (rel_at (link_mem 23) 0x700) = 0x8004" "ELF32_R_TYPE (r_info (rel_at (link_mem 23) 0x700)) = 23"
    using link_mem_rel [of R_ARM_RELATIVE] by (simp_all add: rel_type_defs)
  show ?thesis
    by (simp add: link_one_def uld_dyn_update_relative_def Let_def link_file_map v r rel_type_defs mach0_def)
qed

text \<open>An undefined object of six bytes: eight are taken from the allocation area, at the next multiple of four.\<close>

lemma link_one_object:
  fixes base :: u32
  defines "m \<equiv> link_sym_mem R_ARM_GLOB_DAT 6 1 0"
  shows "\<exists>s' res. link_one [link_file] 0 link_file 0x700 0 \<lparr>ls_mach = mach0 m, ls_res = link_res, ls_base = base, ls_size = 0\<rparr>
      = Some (Some 0, \<lparr>ls_mach = s', ls_res = res, ls_base = align_up (base + 6) 2, ls_size = align_up (base + 6) 2 - base\<rparr>)
    \<and> res_ptr res = 0 \<and> res_match_sym res = 0x2010"
proof -
  have e: "st_shndx (sym_at m 0x2010) = 0" "st_info (sym_at m 0x2010) = 1" "st_size (sym_at m 0x2010) = 6"
    by (simp_all add: m_def sym_at_def ld16_def ld32_def link_sym_mem_def)
  have r: "r_offset (rel_at m 0x700) = 0x8004" "ELF32_R_TYPE (r_info (rel_at m 0x700)) = R_ARM_GLOB_DAT"
      "ELF32_R_SYM (r_info (rel_at m 0x700)) = 1"
    using link_mem_rel [of R_ARM_GLOB_DAT] by (simp_all add: m_def)
  note f = link_file_map [of R_ARM_GLOB_DAT 6 1 0, folded m_def] link_file_secs [of R_ARM_GLOB_DAT 6 1 0, folded m_def]
  have a: "sec_adjusted_lma (uf_flash link_file ! Suc 0) = 0x2000" by (simp add: link_file_def)
  have o: "ELF32_ST_TYPE 1 = STT_OBJECT" by (simp add: ELF32_ST_TYPE_def STT_OBJECT_def)
  have "\<exists>res. uld_dyn_resolve_rel (mach0 m) [link_file] 0x700 0 0 link_res = Some (- 1, res, mach0 m)
      \<and> res_ptr res = 0 \<and> res_match_sym res = 0x2010 \<and> res_file_idx res = 0"
    by (simp add: uld_dyn_resolve_rel_def ufile_at_def f r Let_def mach0_def uld_dyn_get_dynsym_by_index_sec_def a
        resolve_in_file_def resolve_check_sym_def elf32_sym_has_section_index_def e o rel_type_defs)
  then show ?thesis
    by (auto simp: link_one_def r uld_dyn_write_reso_glob_dat_def ufile_at_def f Let_def e ULD_DYN_ALLOC_ALIGNMENT_def
        rel_type_defs mach0_def)
qed

theorem reloc_writes_only_witness:
  "let l = \<lparr>ls_mach = mach0 (link_sym_mem R_ARM_GLOB_DAT 6 1 0), ls_res = link_res, ls_base = 0xA000, ls_size = 0\<rparr>
   in \<exists>l'. link_one [link_file] 0 link_file 0x700 0 l = Some (Some 0, l') \<and> ls_base l' = 0xA008 \<and> ls_size l' = 8
     \<and> (\<forall>a. a \<notin> rng 0x9004 4 \<union> rng 0xA000 6 \<longrightarrow> mem (ls_mach l') a = mem (ls_mach l) a)"
proof -
  let ?m = "link_sym_mem R_ARM_GLOB_DAT 6 1 0"
  let ?l = "\<lparr>ls_mach = mach0 ?m, ls_res = link_res, ls_base = 0xA000, ls_size = 0\<rparr>"
  have u: "ufile_at [link_file] 0 = Some link_file" by (simp add: ufile_at_def)
  have r: "ELF32_R_TYPE (r_info (rel_at ?m 0x700)) = R_ARM_GLOB_DAT" "r_offset (rel_at ?m 0x700) = 0x8004"
    using link_mem_rel [of R_ARM_GLOB_DAT] by simp_all
  have d: "uld_file_lma_to_adjusted_vma (mem (ls_mach ?l)) link_file (r_offset (rel_at (mem (ls_mach ?l)) 0x700)) = Some 0x9004"
    by (simp add: mach0_def r link_file_map)
  have e: "st_size (sym_at ?m 0x2010) = 6" by (simp add: sym_at_def ld32_def link_sym_mem_def)
  have al: "align_up (0xA000 + 6) 2 = (0xA008 :: u32)" by (simp add: align_up_def)
  obtain l' where run: "link_one [link_file] 0 link_file 0x700 0 ?l = Some (Some 0, l')"
      and res: "res_ptr (ls_res l') = 0" "res_match_sym (ls_res l') = 0x2010"
    using link_one_object [of "0xA000"] by fastforce
  have ne: "R_ARM_GLOB_DAT \<noteq> R_ARM_FUNCDESC" "R_ARM_GLOB_DAT \<noteq> R_ARM_FUNCDESC_VALUE" by (simp_all add: rel_type_defs)
  have m: "mem (ls_mach ?l) = ?m" "ls_base ?l = 0xA000" "ls_size ?l = 0" by (simp_all add: mach0_def)
  show ?thesis
    using reloc_writes_only [OF run u d] run al unfolding m r(1) res e Let_def by (simp add: ne)
qed

lemma link_rels_one:
  "link_rels [link_file] 0 link_file (uf_flash link_file ! 3) 0x700 0 \<lparr>ls_mach = mach0 (link_mem R_ARM_RELATIVE), ls_res = link_res, ls_base = base, ls_size = 0\<rparr>
    = Some (0, \<lparr>ls_mach = mach0 (st32 (link_mem R_ARM_RELATIVE) 0x9004 0x9008), ls_res = link_res, ls_base = base, ls_size = 0\<rparr>)"
proof -
  let ?m = "link_mem R_ARM_RELATIVE"
  have one: "uld_dyn_get_rel_dyn_count_sec ?m (uf_flash link_file ! 3) = 1"
    by (simp add: uld_dyn_get_rel_dyn_count_sec_def link_file_def shdr_at_def ld32_def link_sym_mem_def)
  have "shdr_at (st32 ?m 0x9004 v) 0x240 = shdr_at ?m 0x240" for v
    by (rule shdr_at_agree [of "rng 0x9004 4", symmetric])
      (auto simp: agrees_off_def st32_outside intro!: rng_disjoint_linear)
  then have one': "uld_dyn_get_rel_dyn_count_sec (st32 ?m 0x9004 v) (uf_flash link_file ! 3) = 1" for v
    using one by (simp add: uld_dyn_get_rel_dyn_count_sec_def link_file_def)
  show ?thesis
    by (subst link_rels.simps) (simp add: one link_one_relative, subst link_rels.simps, simp add: one')
qed

theorem dl_alloc_counted_witness:
  "\<exists>l. uld_dyn_link_file_list (mach0 (link_mem R_ARM_RELATIVE)) link_res [link_file] 0xA000 = Some (0, l)
    \<and> ld32 (mem (ls_mach l)) 0x9004 = 0x9008 \<and> ls_base l = 0xA000 + ls_size l"
proof -
  have "sec_adjusted_lma (uf_flash link_file ! 3) = 0x700" by (simp add: link_file_def)
  then obtain l where l: "uld_dyn_link_file_list (mach0 (link_mem R_ARM_RELATIVE)) link_res [link_file] 0xA000 = Some (0, l)"
      "ld32 (mem (ls_mach l)) 0x9004 = 0x9008"
    by (simp add: uld_dyn_link_file_list_def link_file_secs link_rels_one del: link_rels.simps)
  then show ?thesis using dl_alloc_counted by blast
qed

theorem funcdesc_built_witness:
  "\<exists>s'. uld_dyn_write_reso_funcdesc (mach0 (link_mem R_ARM_FUNCDESC)) [link_file] 0 0x700
      \<lparr>res_ptr = 0x8008, res_membase = 0x5000, res_match_sym = 0, res_file_idx = 0\<rparr> 0xA000 0
    = Some (0, 0xA008, 8, s') \<and> ld32 (mem s') 0x9004 = 0xA000 \<and> ld32 (mem s') 0xA000 = 0x9008
    \<and> ld32 (mem s') 0xA004 = 0x5000"
proof -
  let ?s = "mach0 (link_mem R_ARM_FUNCDESC)"
  let ?r = "\<lparr>res_ptr = 0x8008, res_membase = 0x5000, res_match_sym = 0, res_file_idx = 0\<rparr>"
  have rel: "r_offset (rel_at (link_mem R_ARM_FUNCDESC) 0x700) = 0x8004" by (simp add: link_mem_rel)
  have uf: "ufile_at [link_file] 0 = Some link_file" by (simp add: ufile_at_def)
  obtain r b z s' where w: "uld_dyn_write_reso_funcdesc ?s [link_file] 0 0x700 ?r 0xA000 0 = Some (r, b, z, s')"
    by (simp add: uld_dyn_write_reso_funcdesc_def uld_dyn_write_reso_funcdesc_value_dst_def uf rel link_file_map)
  have "rng 0x9004 4 \<inter> rng 0xA000 8 = {}" by (rule rng_disjoint_linear) simp_all
  with funcdesc_built [OF w uf, of "0x9004"] w show ?thesis by (simp add: rel link_file_map uf)
qed

end
