(* ===== verification/Reloc.thy ===== *)
theory Reloc
  imports Rofixup
begin

text \<open>\<open>src/uld_reloc.c\<close>: moving a file in flash; what a move does to the flash lock, what it writes, and what the
  entry and the table are afterwards.\<close>

definition uld_reloc_flash_fixup_mem_sections :: "cstr list" where
  "uld_reloc_flash_fixup_mem_sections =
     [Lit (map of_char ''.got''), Lit (map of_char ''.got.plt''), Lit (map of_char ''.data'')]"

fun prepare_mem_loop :: "mem \<Rightarrow> uld_section list \<Rightarrow> uld_section list option" where
  "prepare_mem_loop m [] = Some []"
| "prepare_mem_loop m (sec # rest) = do {
     found \<leftarrow> str_in_list m uld_reloc_flash_fixup_mem_sections (Ptr (sec_name sec));
     rest' \<leftarrow> prepare_mem_loop m rest;
     Some ((if found
            then sec\<lparr>sec_flags := sec_flags sec OR ULD_SECTION_FLAG_STATUS_FLASH_NEEDS_FIXUP\<rparr>
            else sec) # rest') }"

definition uld_reloc_prepare_flash_fixups :: "mem \<Rightarrow> uld_file \<Rightarrow> (int \<times> uld_file) option" where
  "uld_reloc_prepare_flash_fixups m uf =
     (if uf_flash uf = [] then Some (- 1, uf)
      else do {
        mem_list \<leftarrow> prepare_mem_loop m (uf_mem uf);
        Some (0, uf\<lparr>uf_flash := map (\<lambda>sec. sec\<lparr>sec_flags :=
                       sec_flags sec OR ULD_SECTION_FLAG_STATUS_FLASH_NEEDS_FIXUP\<rparr>) (uf_flash uf),
                    uf_mem := mem_list\<rparr>) })"

definition move_overlaps :: "u32 \<Rightarrow> u32 \<Rightarrow> u32 \<Rightarrow> bool" where
  "move_overlaps new_base base len =
     (let new_end = new_base + len - 1; fse_end = base + len - 1
      in (new_base \<ge> base \<and> new_base \<le> fse_end) \<or> (new_end \<ge> base \<and> new_end \<le> fse_end))"

definition reloc_done :: "bool \<Rightarrow> machine \<Rightarrow> machine" where
  "reloc_done was_locked s = (if was_locked then cpu_flash_unlock s else s)"

definition uld_reloc_move_fse ::
    "machine \<Rightarrow> uld_section \<Rightarrow> uld_section list \<Rightarrow> uld_file \<Rightarrow> u32 \<Rightarrow> u32 \<Rightarrow> u32 \<Rightarrow> (int \<times> machine) option" where
  "uld_reloc_move_fse s stk stk_list stk_file pstore fse new_base =
     (if fse = 0 \<or> new_base = 0 then Some (- 1, s)
      else let s1 = (if new_base \<noteq> align_up new_base 3 then swbkpt s else s);
               f = fse_at (mem s1) fse
           in if move_overlaps new_base (fse_base f) (fse_size f) then Some (- 1, s1)
      else do {
        (ret, uf, s2) \<leftarrow> uld_load_create_file s1 fse stk_list (int ULD_FILE_SECTION_MAX)
                          ULD_SECTION_FLAG_TYPE_ALL stk_file;
        if ret \<noteq> 0 then Some (ret, reloc_done False s2)
        else do {
          let was_locked = cpu_flash_is_locked s2;
          let s3 = (if was_locked then cpu_flash_unlock s2 else s2);
          let f = fse_at (mem s3) fse;
          let (ret, s4) = cpu_flash_write s3 new_base (fse_base f) (unat (fse_size f));
          if ret \<noteq> 0 then Some (ret, reloc_done was_locked s4)
          else do {
            (ret, uf') \<leftarrow> uld_reloc_prepare_flash_fixups (mem s4) uf;
            if ret \<noteq> 0 then Some (ret, reloc_done was_locked s4)
            else do {
              (ret, fl, ml, s5) \<leftarrow> uld_rofixup_apply_flash_fixups s4 stk new_base 0
                                    (uf_flash uf') (uf_mem uf');
              if ret \<noteq> 0 then Some (ret, reloc_done was_locked s5)
              else do {
                let (ret, s6) = write_u32 s5 fse new_base;
                if ret \<noteq> 0 then Some (ret, reloc_done was_locked s6)
                else do {
                  let (r1, c1, s7) = uld_crc_update_fse s6 fse;
                  let (r2, c2, s8) = uld_crc_update_fst s7 pstore;
                  Some (ret, reloc_done was_locked s8) } } } } } })"

section \<open>The overlap check\<close>

lemma move_overlaps_exact:
  assumes "unat new_base + unat len \<le> 2 ^ 32" "unat base + unat len \<le> 2 ^ 32" "len \<noteq> 0"
  shows "move_overlaps new_base base len \<longleftrightarrow> rng new_base (unat len) \<inter> rng base (unat len) \<noteq> {}"
proof -
  have l: "0 < unat len" using assms(3) by (simp add: unat_gt_0)
  have e: "unat (p + len - 1) = unat p + unat len - 1" if "unat p + unat len \<le> 2 ^ 32" for p
  proof -
    have "p + len - 1 = p + of_nat (unat len - 1)" using l by (simp add: of_nat_diff)
    moreover have "unat p + (unat len - 1) < 2 ^ 32" using that l by linarith
    ultimately have "unat (p + len - 1) = unat p + (unat len - 1)" by (simp only: unat_add_of_nat)
    then show ?thesis using l by linarith
  qed
  have "move_overlaps new_base base len \<longleftrightarrow>
      unat base \<le> unat new_base \<and> unat new_base < unat base + unat len \<or>
      unat base \<le> unat new_base + unat len - 1 \<and> unat new_base + unat len - 1 < unat base + unat len"
    using l unfolding move_overlaps_def Let_def word_le_nat_alt e [OF assms(1)] e [OF assms(2)] by linarith
  also have "\<dots> \<longleftrightarrow> unat base < unat new_base + unat len \<and> unat new_base < unat base + unat len"
    using l by linarith
  also have "\<dots> \<longleftrightarrow> rng new_base (unat len) \<inter> rng base (unat len) \<noteq> {}"
  proof
    assume o: "unat base < unat new_base + unat len \<and> unat new_base < unat base + unat len"
    let ?a = "if unat base \<le> unat new_base then new_base else base"
    have "?a \<in> rng new_base (unat len) \<inter> rng base (unat len)"
      using o l assms(1,2) by (auto simp: rng_linear)
    then show "rng new_base (unat len) \<inter> rng base (unat len) \<noteq> {}" by blast
  next
    assume "rng new_base (unat len) \<inter> rng base (unat len) \<noteq> {}"
    then show "unat base < unat new_base + unat len \<and> unat new_base < unat base + unat len"
      using assms(1,2) by (auto simp: rng_linear)
  qed
  finally show ?thesis .
qed

section \<open>The flash lock\<close>

lemma create_section_quiet:
  "uld_load_create_section s sec0 ehdr base shdr i str = Some (r, sec, s') \<Longrightarrow> quiet s s'"
  using create_section_ex [of "mem s" sec0 ehdr base shdr i str] by auto

lemma get_type_quiet: "uld_section_get_type s shdr name = Some (ty, s') \<Longrightarrow> quiet s s'"
  by (auto simp: get_type_eq)

lemma sec_list_loop_quiet:
  "sec_list_loop s ehdr base str snum tmask arr cnt l = Some (arr', cnt', s') \<Longrightarrow> quiet s s'"
proof (induction l arbitrary: s arr cnt)
  case (Cons x l)
  obtain idx shdr where x: "x = (idx, shdr)" by (cases x)
  show ?case using Cons.prems unfolding x sec_list_loop.simps Let_def
    by (auto split: if_splits elim!: bind_SomeE dest!: get_type_quiet create_section_quiet Cons.IH
        simp: quiet_def)
qed simp

lemma create_sec_list_quiet:
  "uld_load_create_sec_list s ehdr base arr snum tmask = Some (n, arr', s') \<Longrightarrow> quiet s s'"
  unfolding uld_load_create_sec_list_def Let_def
  by (auto split: if_splits elim!: bind_SomeE dest!: sec_list_loop_quiet)

lemma create_file_loop_quiet:
  "create_file_loop s ehdr tmask arr snum uf l = Some (uf', s') \<Longrightarrow> quiet s s'"
proof (induction l arbitrary: s arr snum uf)
  case (Cons i l)
  show ?case using Cons.prems unfolding create_file_loop.simps
    by (auto split: if_splits elim!: bind_SomeE dest!: create_sec_list_quiet Cons.IH simp: quiet_def)
qed simp

lemma create_file_quiet:
  "uld_load_create_file s fse arr snum tmask uf0 = Some (r, uf, s') \<Longrightarrow> quiet s s'"
  unfolding uld_load_create_file_def Let_def
  by (auto split: if_splits elim!: bind_SomeE dest!: create_file_loop_quiet)

text \<open>The fixups write, but do not touch the lock.\<close>

definition keeps_lock :: "do_fixup_t \<Rightarrow> bool" where
  "keeps_lock f \<longleftrightarrow> (\<forall>s a i ret adj new s'. f s a i = Some (ret, adj, new, s') \<longrightarrow> flash_lock s' = flash_lock s)"

lemma fixup_loop_lock:
  assumes "fixup_loop f need lo hi secs rofixup addr s = Some (ret, s')" "keeps_lock f"
  shows "flash_lock s' = flash_lock s"
proof -
  have "case r of (ret, s') \<Rightarrow> flash_lock s' = flash_lock s"
    if "fixup_loop f need lo hi secs rofixup addr s = Some r" for r
  proof (rule fixup_loop.raw_induct [where P = "\<lambda>f need lo hi secs rofixup addr s r. keeps_lock f \<longrightarrow>
        (case r of (ret, s') \<Rightarrow> flash_lock s' = flash_lock s)", OF _ that, THEN mp], goal_cases)
    case (1 loop f need lo hi secs rofixup addr s r)
    note IH = 1(1) and run = 1(2)
    show ?case
    proof
      assume k: "keeps_lock f"
      show "case r of (ret, s') \<Rightarrow> flash_lock s' = flash_lock s"
        using run IH k unfolding keeps_lock_def
        by (fastforce split: if_splits option.splits elim!: bind_SomeE)
    qed
  qed (rule assms(2))
  then show ?thesis using assms(1) by fastforce
qed

lemma do_flash_fixup_lock: "keeps_lock (uld_rofixup_do_flash_fixup base flash_list mem_list sec_list)"
  unfolding keeps_lock_def uld_rofixup_do_flash_fixup_def Let_def
  by (auto split: if_splits option.splits elim!: bind_SomeE)

lemma apply_fixups_lock:
  assumes "uld_rofixup_apply_fixups s stk ehdr base secs need dn f = Some (ret, secs', s')" "keeps_lock f"
  shows "flash_lock s' = flash_lock s"
  using assms(1) unfolding uld_rofixup_apply_fixups_def Let_def
  by (auto split: if_splits prod.splits elim!: bind_SomeE dest!: create_section_quiet fixup_loop_lock [OF _ assms(2)]
      simp: quiet_def)

lemma apply_flash_fixups_lock:
  assumes "uld_rofixup_apply_flash_fixups s stk ehdr base fl ml = Some (ret, fl', ml', s')"
  shows "flash_lock s' = flash_lock s"
  using assms unfolding uld_rofixup_apply_flash_fixups_def Let_def
  by (auto split: if_splits elim!: bind_SomeE dest!: apply_fixups_lock [OF _ do_flash_fixup_lock])

lemma flash_write_lock:
  "cpu_flash_write s dest src n = (ret, s') \<Longrightarrow> flash_lock s' = flash_lock s"
  "write_u32 s p v = (ret, s') \<Longrightarrow> flash_lock s' = flash_lock s"
  "uld_crc_update_fse s fse = (ret, c, s') \<Longrightarrow> flash_lock s' = flash_lock s"
  "uld_crc_update_fst s ps = (ret, c, s') \<Longrightarrow> flash_lock s' = flash_lock s"
  by (auto simp: cpu_flash_write_def write_u32_def uld_crc_update_fse_def uld_crc_update_fst_def Let_def
      split: if_splits)

lemma reloc_done_lock [simp]: "flash_lock (reloc_done b s) \<longleftrightarrow> \<not> b \<and> flash_lock s"
  by (simp add: reloc_done_def cpu_flash_unlock_def)

lemma move_fse_unlocks:
  assumes run: "uld_reloc_move_fse s stk stk_list stk_file ps fse new_base = Some (ret, s')"
    and ok: "fse \<noteq> 0" "new_base \<noteq> 0" "\<not> move_overlaps new_base (fse_base (fse_at (mem s) fse)) (fse_size (fse_at (mem s) fse))"
  shows "\<not> flash_lock s'"
proof -
  define s1 where "s1 = (if new_base \<noteq> align_up new_base 3 then swbkpt s else s)"
  have s1: "quiet s s1" by (simp add: s1_def)
  obtain r uf s2 where cf: "uld_load_create_file s1 fse stk_list (int ULD_FILE_SECTION_MAX) ULD_SECTION_FLAG_TYPE_ALL stk_file
      = Some (r, uf, s2)"
    using run ok s1 unfolding uld_reloc_move_fse_def Let_def s1_def [symmetric] quiet_def
    by (auto elim!: bind_SomeE)
  have r: "r = 0" using cf ok(1)
    by (auto simp: uld_load_create_file_def Let_def ULD_FILE_SECTION_MAX_def elim!: bind_SomeE)
  define s3 where "s3 = (if cpu_flash_is_locked s2 then cpu_flash_unlock s2 else s2)"
  have s3: "\<not> flash_lock s3" by (simp add: s3_def cpu_flash_is_locked_def cpu_flash_unlock_def)
  show ?thesis
    using run ok s1 cf s3 r unfolding uld_reloc_move_fse_def Let_def s1_def [symmetric] s3_def [symmetric]
    by (auto simp: quiet_def cpu_flash_is_locked_def split: if_splits prod.splits elim!: bind_SomeE
        dest!: flash_write_lock apply_flash_fixups_lock)
qed

section \<open>What the flash fixups write\<close>

text \<open>A fixup function that names slots of a region only, on the sections marked for it.\<close>

definition slots_in :: "u32 set \<Rightarrow> mem \<Rightarrow> u32 \<Rightarrow> uld_section list \<Rightarrow> do_fixup_t \<Rightarrow> bool" where
  "slots_in A m need secs f \<longleftrightarrow> (\<forall>s addr i ret adj new s'. agrees_off A m (mem s) \<longrightarrow> i < length secs \<longrightarrow>
     sec_flags (secs ! i) AND need = need \<longrightarrow>
     in_extent (mem s) (ld32 (mem s) addr) (sec_lma (secs ! i)) (secs ! i) \<longrightarrow>
     f s addr i = Some (ret, adj, new, s') \<longrightarrow> mem s' = mem s \<and> (ret = 0 \<longrightarrow> rng adj 4 \<subseteq> A))"

lemma fixup_loop_frame:
  assumes "fixup_loop f need lo hi secs rofixup addr s = Some (ret, s')" "agrees_off A m (mem s)" "slots_in A m need secs f"
  shows "agrees_off A m (mem s')"
proof -
  have "case r of (ret, s') \<Rightarrow> agrees_off A m (mem s')"
    if "fixup_loop f need lo hi secs rofixup addr s = Some r" for r
  proof (rule fixup_loop.raw_induct [where P = "\<lambda>f need lo hi secs rofixup addr s r. slots_in A m need secs f \<longrightarrow>
        agrees_off A m (mem s) \<longrightarrow> (case r of (ret, s') \<Rightarrow> agrees_off A m (mem s'))", OF _ that, THEN mp, THEN mp], goal_cases)
    case (1 loop f need lo hi secs rofixup addr s r)
    note IH = 1(1) and run = 1(2)
    show ?case
    proof (intro impI)
      assume k: "slots_in A m need secs f" and a: "agrees_off A m (mem s)"
      show "case r of (ret, s') \<Rightarrow> agrees_off A m (mem s')"
      proof (cases "loop f need lo hi secs rofixup (addr + 4) s = Some r")
        case True
        then show ?thesis using IH k a by blast
      next
        case False
        show ?thesis
        proof (cases "addr < sec_adjusted_lma rofixup + sh_size (shdr_at (mem s) (sec_shdr rofixup))")
          case True
          obtain i where i: "first_idx (\<lambda>sec. sec_flags sec AND need = need
                \<and> in_extent (mem s) (ld32 (mem s) addr) (sec_lma sec) sec) secs = Some i"
            using run False True unfolding uld_section_find_in_list_by_lma_flag_def find_in_list_by_lma_eq
            by (auto split: if_splits option.splits)
          then obtain ret adj new s1 where f: "f s addr i = Some (ret, adj, new, s1)"
            using run False True unfolding uld_section_find_in_list_by_lma_flag_def find_in_list_by_lma_eq
            by (auto split: if_splits option.splits elim!: bind_SomeE)
          have m1: "mem s1 = mem s" "ret = 0 \<longrightarrow> rng adj 4 \<subseteq> A"
            using k a first_idx_hit [OF i] f unfolding slots_in_def by blast+
          have w: "agrees_off A m (st32 (mem s1) adj new)" if "ret = 0"
            using m1 a that by (simp add: agrees_off_st32)
          show ?thesis
            using run False True i f m1 a w IH k unfolding uld_section_find_in_list_by_lma_flag_def find_in_list_by_lma_eq
            by (cases "ret = 0"; cases "ret < 0") (auto split: if_splits)
        qed (use run a in auto)
      qed
    qed
  qed (rule assms)+
  then show ?thesis using assms(1) by fastforce
qed

lemma apply_fixups_frame:
  assumes "uld_rofixup_apply_fixups s stk ehdr base secs need dn f = Some (ret, secs', s')"
    "agrees_off A m (mem s)" "slots_in A m need secs f"
  shows "agrees_off A m (mem s')"
  using assms(1,2) unfolding uld_rofixup_apply_fixups_def Let_def
  by (auto split: if_splits prod.splits elim!: bind_SomeE dest!: create_section_quiet fixup_loop_frame [OF _ _ assms(3)]
      simp: quiet_def)


text \<open>A section whose header is outside a region and whose image, when the file begins at \<open>base\<close>, is inside it.\<close>

definition lands_in :: "u32 set \<Rightarrow> mem \<Rightarrow> u32 \<Rightarrow> uld_section \<Rightarrow> bool" where
  "lands_in A m base sec \<longleftrightarrow> rng (sec_shdr sec) 40 \<inter> A = {} \<and>
     rng (elf32_adjust_lma m (sec_shdr sec) base) (unat (sh_size (shdr_at m (sec_shdr sec))) + 3) \<subseteq> A"

lemma lands_in_flags [simp]: "lands_in A m base (sec\<lparr>sec_flags := fl\<rparr>) = lands_in A m base sec"
  by (simp add: lands_in_def)

lemma flash_fixup_slots:
  assumes "\<forall>sec\<in>set secs. sec_flags sec AND need = need \<longrightarrow> lands_in A m base sec"
  shows "slots_in A m need secs (uld_rofixup_do_flash_fixup base fl ml secs)"
  unfolding slots_in_def
proof (intro allI impI)
  fix s addr i ret adj new s'
  assume a: "agrees_off A m (mem s)" and i: "i < length secs" "sec_flags (secs ! i) AND need = need"
    and e: "in_extent (mem s) (ld32 (mem s) addr) (sec_lma (secs ! i)) (secs ! i)"
    and f: "uld_rofixup_do_flash_fixup base fl ml secs s addr i = Some (ret, adj, new, s')"
  have l: "lands_in A m base (secs ! i)" using assms i by simp
  then have h: "shdr_at (mem s) (sec_shdr (secs ! i)) = shdr_at m (sec_shdr (secs ! i))"
    using shdr_at_agree [OF a] by (simp add: lands_in_def)
  then have b: "elf32_adjust_lma (mem s) (sec_shdr (secs ! i)) base = elf32_adjust_lma m (sec_shdr (secs ! i)) base"
    by (simp add: elf32_adjust_lma_def)
  have "adj = ld32 (mem s) addr - sec_lma (secs ! i) + elf32_adjust_lma m (sec_shdr (secs ! i)) base" "mem s' = mem s"
    using f unfolding uld_rofixup_do_flash_fixup_def Let_def b
    by (auto split: if_splits option.splits elim!: bind_SomeE)
  then show "mem s' = mem s \<and> (ret = 0 \<longrightarrow> rng adj 4 \<subseteq> A)"
    using slot_in_image [OF e] l unfolding lands_in_def h by blast
qed

lemma apply_flash_fixups_frame:
  assumes "uld_rofixup_apply_flash_fixups s stk ehdr 0 fl ml = Some (ret, fl', ml', s')" "agrees_off A m (mem s)"
    "\<forall>sec\<in>set fl \<union> set ml. sec_flags sec AND ULD_SECTION_FLAG_STATUS_FLASH_NEEDS_FIXUP
        = ULD_SECTION_FLAG_STATUS_FLASH_NEEDS_FIXUP \<longrightarrow> lands_in A m ehdr sec"
  shows "agrees_off A m (mem s')"
proof -
  note slots = flash_fixup_slots [of _ ULD_SECTION_FLAG_STATUS_FLASH_NEEDS_FIXUP A m ehdr]
  have s: "slots_in A m ULD_SECTION_FLAG_STATUS_FLASH_NEEDS_FIXUP fl (uld_rofixup_do_flash_fixup ehdr f l fl)"
    "slots_in A m ULD_SECTION_FLAG_STATUS_FLASH_NEEDS_FIXUP ml (uld_rofixup_do_flash_fixup ehdr f l ml)" for f l
    using slots [of fl] slots [of ml] assms(3) by simp_all
  show ?thesis
    using assms(1,2) unfolding uld_rofixup_apply_flash_fixups_def Let_def
    by (auto split: if_splits elim!: bind_SomeE dest!: apply_fixups_frame [OF _ _ s(1)] apply_fixups_frame [OF _ _ s(2)])
qed

section \<open>What a move writes\<close>

text \<open>A memory section that stays as it is: \<open>.bss\<close>, with its name in a region that is kept, and not marked.\<close>

definition bss_kept :: "u32 set \<Rightarrow> mem \<Rightarrow> uld_section \<Rightarrow> bool" where
  "bss_kept A m sec \<longleftrightarrow> cs_is m (Ptr (sec_name sec)) (map of_char ''.bss'') \<and> rng (sec_name sec) 5 \<inter> A = {}
     \<and> sec_flags sec AND ULD_SECTION_FLAG_STATUS_FLASH_NEEDS_FIXUP = 0"

lemma bss_kept_name:
  assumes "bss_kept A m x"
  shows "cs_is m (Ptr (sec_name x)) [46, 98, 115, 115]" "rng (sec_name x) 5 \<inter> A = {}"
  using assms by (simp_all add: bss_kept_def)

lemma bss_name_kept:
  assumes "bss_kept A m x" "agrees_off A m m'"
  shows "cs_is m' (Ptr (sec_name x)) [46, 98, 115, 115]"
proof (rule cs_is_cong [OF bss_kept_name(1) [OF assms(1)]])
  fix a assume "a \<in> rng (sec_name x) (Suc (length [46, 98, 115, 115 :: u8]))"
  moreover have "Suc (length [46, 98, 115, 115 :: u8]) = 5" by simp
  ultimately have "a \<in> rng (sec_name x) 5" by metis
  then have "a \<notin> A" using bss_kept_name(2) [OF assms(1)] by blast
  then show "m' a = m a" using assms(2) by (simp add: agrees_off_def)
qed simp

lemma fixup_names: "uld_reloc_flash_fixup_mem_sections
    = map Lit [[46, 103, 111, 116], [46, 103, 111, 116, 46, 112, 108, 116], [46, 100, 97, 116, 97]]"
  by (simp add: uld_reloc_flash_fixup_mem_sections_def)

lemma bss_not_prepared:
  assumes "bss_kept A m x" "agrees_off A m m'"
  shows "str_in_list m' uld_reloc_flash_fixup_mem_sections (Ptr (sec_name x)) = Some False"
  unfolding fixup_names by (subst str_in_list_eq [OF _ bss_name_kept [OF assms]]) simp_all

lemma prepare_mem_lands:
  assumes "prepare_mem_loop m' ml = Some ml'" "agrees_off A m m'" "\<forall>sec\<in>set ml. lands_in A m base sec \<or> bss_kept A m sec"
    "sec \<in> set ml'" "sec_flags sec AND ULD_SECTION_FLAG_STATUS_FLASH_NEEDS_FIXUP = ULD_SECTION_FLAG_STATUS_FLASH_NEEDS_FIXUP"
  shows "lands_in A m base sec"
  using assms(1,3,4)
proof (induction ml arbitrary: ml')
  case (Cons x ml)
  obtain found rest where r: "str_in_list m' uld_reloc_flash_fixup_mem_sections (Ptr (sec_name x)) = Some found"
      "prepare_mem_loop m' ml = Some rest"
      "ml' = (if found then x\<lparr>sec_flags := sec_flags x OR ULD_SECTION_FLAG_STATUS_FLASH_NEEDS_FIXUP\<rparr> else x) # rest"
    using Cons.prems(1) by (auto elim!: bind_SomeE)
  show ?case
  proof (cases "sec \<in> set rest")
    case True
    then show ?thesis using Cons.IH [OF r(2)] Cons.prems(2) by simp
  next
    case False
    then have sec: "sec = (if found then x\<lparr>sec_flags := sec_flags x OR ULD_SECTION_FLAG_STATUS_FLASH_NEEDS_FIXUP\<rparr> else x)"
      using Cons.prems(3) r(3) by simp
    have "\<not> bss_kept A m x"
    proof
      assume b: "bss_kept A m x"
      then have "sec = x" using sec r(1) bss_not_prepared [OF b assms(2)] by simp
      then show False using b assms(5) by (simp add: bss_kept_def sec_flag_defs)
    qed
    then have "lands_in A m base x" using Cons.prems(2) by simp
    then show ?thesis unfolding sec by simp
  qed
qed simp


text \<open>The last three writes: the base of the entry, its checksum and the checksum of the table.\<close>

lemma rng_entry_words:
  "rng p 4 \<inter> rng (p + 4) 4 = {}" "rng p 4 \<inter> rng (p + 8) 4 = {}" "rng p 4 \<inter> rng (p + 12) 4 = {}" "rng p 4 \<inter> rng (p + 16) 4 = {}"
  "rng (p + 12) 4 \<inter> rng p 4 = {}" "rng (p + 12) 4 \<inter> rng (p + 4) 4 = {}" "rng (p + 12) 4 \<inter> rng (p + 8) 4 = {}"
  "rng (p + 12) 4 \<inter> rng (p + 16) 4 = {}"
  by (auto dest!: rng4_cases)

lemma fse_at_agree:
  assumes "agrees_off R m m'" "rng fse 20 \<inter> R = {}"
  shows "fse_at m' fse = fse_at m fse"
proof -
  have "ld32 m' (fse + of_nat k) = ld32 m (fse + of_nat k)" if "k \<le> 16" for k
  proof (rule ld32_cong)
    fix a assume "a \<in> rng (fse + of_nat k) 4"
    then have "a \<in> rng fse 20"
      using rng_sub [of k "k + 4" fse] rng_mono [of "k + 4" 20 fse] that by auto
    then show "m' a = m a" using assms by (auto simp: agrees_off_def)
  qed
  from this [of 0] this [of 4] this [of 8] this [of 12] this [of 16] show ?thesis by (simp add: fse_at_def)
qed

lemma pstore_at_agree:
  assumes "agrees_off R m m'" "rng ps 28 \<inter> R = {}"
  shows "pstore_at m' ps = pstore_at m ps"
proof -
  have "ld32 m' (ps + of_nat k) = ld32 m (ps + of_nat k)" if "k \<le> 24" for k
  proof (rule ld32_cong)
    fix a assume "a \<in> rng (ps + of_nat k) 4"
    then have "a \<in> rng ps 28"
      using rng_sub [of k "k + 4" ps] rng_mono [of "k + 4" 28 ps] that by auto
    then show "m' a = m a" using assms by (auto simp: agrees_off_def)
  qed
  from this [of 0] this [of 4] this [of 8] this [of 12] this [of 16] this [of 20] this [of 24]
  show ?thesis by (simp add: pstore_at_def)
qed

lemma crc_fse_agree:
  assumes "agrees_off R m m'" "rng fse 20 \<inter> R = {}" "rng (fse_base (fse_at m fse)) (unat (fse_size (fse_at m fse))) \<inter> R = {}"
  shows "uld_crc_verify_fse m' fse = uld_crc_verify_fse m fse"
proof -
  have "crc32_loop m' (fse_base (fse_at m fse)) (unat (fse_size (fse_at m fse))) c
      = crc32_loop m (fse_base (fse_at m fse)) (unat (fse_size (fse_at m fse))) c" for c
    using assms(1,3) by (intro crc32_loop_cong) (auto simp: agrees_off_def)
  then show ?thesis
    by (simp add: uld_crc_verify_fse_def uld_crc_calc_fse_def crc32_def fse_at_agree [OF assms(1,2)])
qed

lemma crc_fst_update:
  assumes "rng (ps + 24) 4 \<inter> rng (fst_table_base (pstore_at m ps)) (unat (fst_table_size (pstore_at m ps))) = {}"
  shows "fst (uld_crc_verify_fst (st32 m (ps + 24) (uld_crc_calc_fst m ps)) ps)"
proof -
  let ?m = "st32 m (ps + 24) (uld_crc_calc_fst m ps)"
  have "rng (ps + 24) 4 \<inter> rng (ps + 16) 4 = {}" "rng (ps + 24) 4 \<inter> rng (ps + 20) 4 = {}"
    by (auto dest!: rng4_cases)
  then have t: "fst_table_base (pstore_at ?m ps) = fst_table_base (pstore_at m ps)"
    "fst_table_size (pstore_at ?m ps) = fst_table_size (pstore_at m ps)" "fst_crc (pstore_at ?m ps) = uld_crc_calc_fst m ps"
    by (simp_all add: pstore_at_def ld32_st32_other)
  have "crc32_loop ?m (fst_table_base (pstore_at m ps)) (unat (fst_table_size (pstore_at m ps))) c
      = crc32_loop m (fst_table_base (pstore_at m ps)) (unat (fst_table_size (pstore_at m ps))) c" for c
    using assms by (intro crc32_loop_cong) (auto intro!: st32_outside)
  then show ?thesis by (simp add: uld_crc_verify_fst_def uld_crc_calc_fst_def [of ?m] t crc32_def Let_def)
    (simp add: uld_crc_calc_fst_def crc32_def)
qed

definition sealed :: "mem \<Rightarrow> u32 \<Rightarrow> u32 \<Rightarrow> u32 \<Rightarrow> mem" where
  "sealed m fse pstore new_base =
     (let m1 = st32 m fse new_base; m2 = st32 m1 (fse + 12) (uld_crc_calc_fse m1 fse)
      in st32 m2 (pstore + 24) (uld_crc_calc_fst m2 pstore))"

lemma sealed_entry:
  assumes "(rng fse 20 \<union> rng pstore 28) \<inter> rng new_base (unat (fse_size (fse_at m fse))) = {}"
    and "rng fse 20 \<inter> rng pstore 28 = {}"
    and "rng (pstore + 24) 4 \<inter> rng (fst_table_base (pstore_at m pstore)) (unat (fst_table_size (pstore_at m pstore))) = {}"
  shows "fst (uld_crc_verify_fse (sealed m fse pstore new_base) fse) \<and> fst (uld_crc_verify_fst (sealed m fse pstore new_base) pstore)
    \<and> (\<exists>c. fse_at (sealed m fse pstore new_base) fse = (fse_at m fse)\<lparr>fse_base := new_base, fse_crc := c\<rparr>)"
proof -
  let ?m1 = "st32 m fse new_base"
  let ?m2 = "st32 ?m1 (fse + 12) (uld_crc_calc_fse ?m1 fse)"
  have ps: "rng (pstore + 24) 4 \<subseteq> rng pstore 28" and f: "rng fse 4 \<subseteq> rng fse 20" "rng (fse + 12) 4 \<subseteq> rng fse 20"
    using rng_sub [of 24 28 pstore] rng_mono [of 4 20 fse] rng_sub [of 12 16 fse] rng_mono [of 16 20 fse] by auto
  have e1: "fse_at ?m1 fse = (fse_at m fse)\<lparr>fse_base := new_base\<rparr>"
    by (simp add: fse_at_def ld32_st32_other rng_entry_words)
  have e2: "fse_at ?m2 fse = (fse_at m fse)\<lparr>fse_base := new_base, fse_crc := uld_crc_calc_fse ?m1 fse\<rparr>"
    by (simp add: fse_at_def ld32_st32_other rng_entry_words)
  have v: "fst (uld_crc_verify_fse ?m2 fse)"
  proof -
    have "rng (fse + 12) 4 \<inter> rng (fse_base (fse_at ?m1 fse)) (unat (fse_size (fse_at ?m1 fse))) = {}"
      using assms(1) f by (auto simp: e1)
    then show ?thesis using crc_calc_fse_write [of fse ?m1 "uld_crc_calc_fse ?m1 fse"]
      by (simp add: uld_crc_verify_fse_def Let_def)
  qed
  have a: "agrees_off (rng pstore 28) ?m2 (sealed m fse pstore new_base)"
    unfolding sealed_def Let_def by (intro agrees_off_st32 agrees_off_refl ps)
  have "uld_crc_verify_fse (sealed m fse pstore new_base) fse = uld_crc_verify_fse ?m2 fse"
    using assms by (intro crc_fse_agree [OF a]) (auto simp: e2)
  moreover have "fse_at (sealed m fse pstore new_base) fse = fse_at ?m2 fse"
    using assms(2) by (intro fse_at_agree [OF a])
  moreover have "pstore_at ?m2 pstore = pstore_at m pstore"
    using assms(2) by (intro pstore_at_agree [of "rng fse 20"] agrees_off_st32 agrees_off_refl f) blast
  then have "fst (uld_crc_verify_fst (sealed m fse pstore new_base) pstore)"
    using crc_fst_update [of pstore ?m2] assms(3) by (simp add: sealed_def Let_def)
  ultimately show ?thesis using v e2 by (intro conjI exI [of _ "uld_crc_calc_fse ?m1 fse"]) simp_all
qed


definition movable :: "mem \<Rightarrow> u32 \<Rightarrow> u32 \<Rightarrow> u32 \<Rightarrow> uld_file \<Rightarrow> bool" where
  "movable m pstore fse new_base uf \<longleftrightarrow>
     (let f = fse_at m fse; ps = pstore_at m pstore; old = rng (fse_base f) (unat (fse_size f));
          new = rng new_base (unat (fse_size f)); records = rng fse 20 \<union> rng pstore 28
      in (\<forall>sec\<in>set (uf_flash uf). lands_in new m new_base sec)
       \<and> (\<forall>sec\<in>set (uf_mem uf). lands_in new m new_base sec \<or> bss_kept new m sec)
       \<and> records \<inter> new = {} \<and> records \<inter> old = {} \<and> rng fse 20 \<inter> rng pstore 28 = {}
       \<and> rng (pstore + 24) 4 \<inter> rng (fst_table_base ps) (unat (fst_table_size ps)) = {}
       \<and> unat (fse_base f) + unat (fse_size f) \<le> 2 ^ 32 \<and> unat new_base + unat (fse_size f) \<le> 2 ^ 32 \<and> fse_size f \<noteq> 0)"

lemma move_fse_image:
  fixes base len fse :: u32 and s :: machine
  defines "base \<equiv> fse_base (fse_at (mem s) fse)" and "len \<equiv> fse_size (fse_at (mem s) fse)"
  assumes run: "uld_reloc_move_fse s stk stk_list stk_file pstore fse new_base = Some (ret, s')"
    and cf: "uld_load_create_file s fse stk_list (int ULD_FILE_SECTION_MAX) ULD_SECTION_FLAG_TYPE_ALL stk_file = Some (0, uf, s2)"
    and al: "new_base = align_up new_base 3" and mv: "movable (mem s) pstore fse new_base uf"
    and ok: "fse \<noteq> 0" "new_base \<noteq> 0" "\<not> move_overlaps new_base base len"
  shows "\<exists>m5. agrees_off (rng new_base (unat len)) (mem s) m5
    \<and> mem s' = (if ret = 0 then sealed m5 fse pstore new_base else m5)"
proof -
  let ?A = "rng new_base (unat len)"
  have q: "mem s2 = mem s" using create_file_quiet [OF cf] by (simp add: quiet_def)
  define s3 where "s3 = (if cpu_flash_is_locked s2 then cpu_flash_unlock s2 else s2)"
  have s3: "\<not> flash_lock s3" "mem s3 = mem s" by (simp_all add: s3_def cpu_flash_is_locked_def cpu_flash_unlock_def q)
  define s4 where "s4 = s3\<lparr>mem := uld_memmove (mem s) new_base base (unat len)\<rparr>"
  have w: "cpu_flash_write s3 new_base base (unat len) = (0, s4)"
    using s3 by (simp add: cpu_flash_write_def s4_def)
  have room: "unat base + unat len \<le> 2 ^ 32" "unat new_base + unat len \<le> 2 ^ 32"
    using mv by (simp_all add: movable_def Let_def base_def len_def)
  then have a4: "agrees_off ?A (mem s) (mem s4)"
    by (simp add: s4_def uld_memmove_moved agrees_off_def moved_def rng_iff)
  have dn: "mem (reloc_done b x) = mem x" for b x by (simp add: reloc_done_def cpu_flash_unlock_def)
  define tail where "tail = (do {
            (ret, uf') \<leftarrow> uld_reloc_prepare_flash_fixups (mem s4) uf;
            if ret \<noteq> 0 then Some (ret, reloc_done (cpu_flash_is_locked s2) s4)
            else do {
              (ret, fl, ml, s5) \<leftarrow> uld_rofixup_apply_flash_fixups s4 stk new_base 0 (uf_flash uf') (uf_mem uf');
              if ret \<noteq> 0 then Some (ret, reloc_done (cpu_flash_is_locked s2) s5)
              else do {
                let (ret, s6) = write_u32 s5 fse new_base;
                if ret \<noteq> 0 then Some (ret, reloc_done (cpu_flash_is_locked s2) s6)
                else do {
                  let (r1, c1, s7) = uld_crc_update_fse s6 fse;
                  let (r2, c2, s8) = uld_crc_update_fst s7 pstore;
                  Some (ret, reloc_done (cpu_flash_is_locked s2) s8) } } } })"
  have tl: "tail = Some (ret, s')"
    using run ok al cf w unfolding uld_reloc_move_fse_def Let_def base_def len_def tail_def
    by (simp add: s3_def [symmetric] s3 w flip: base_def len_def)
  obtain pr uf' where pr: "uld_reloc_prepare_flash_fixups (mem s4) uf = Some (pr, uf')"
    using tl by (auto simp: tail_def elim!: bind_SomeE)
  show ?thesis
  proof (cases "pr = 0")
    case False
    then show ?thesis using tl pr a4 dn by (auto simp: tail_def)
  next
    case True
    obtain fr fl ml s5 where fx: "uld_rofixup_apply_flash_fixups s4 stk new_base 0 (uf_flash uf') (uf_mem uf') = Some (fr, fl, ml, s5)"
      using tl pr True by (auto simp: tail_def elim!: bind_SomeE)
    have secs: "\<forall>sec\<in>set (uf_flash uf). lands_in ?A (mem s) new_base sec"
        "\<forall>sec\<in>set (uf_mem uf). lands_in ?A (mem s) new_base sec \<or> bss_kept ?A (mem s) sec"
      using mv by (simp_all add: movable_def Let_def len_def)
    have lands: "lands_in ?A (mem s) new_base sec"
      if sec: "sec \<in> set (uf_flash uf') \<union> set (uf_mem uf')" "sec_flags sec AND ULD_SECTION_FLAG_STATUS_FLASH_NEEDS_FIXUP
        = ULD_SECTION_FLAG_STATUS_FLASH_NEEDS_FIXUP" for sec
    proof -
      obtain ml' where p: "prepare_mem_loop (mem s4) (uf_mem uf) = Some ml'" "uf_mem uf' = ml'"
          "uf_flash uf' = map (\<lambda>sec. sec\<lparr>sec_flags := sec_flags sec OR ULD_SECTION_FLAG_STATUS_FLASH_NEEDS_FIXUP\<rparr>) (uf_flash uf)"
        using pr True by (auto simp: uld_reloc_prepare_flash_fixups_def split: if_splits elim!: bind_SomeE)
      show ?thesis
        using sec secs(1) prepare_mem_lands [OF p(1) a4 secs(2), of sec] unfolding p(2,3) by auto
    qed
    have a5: "agrees_off ?A (mem s) (mem s5)" using apply_flash_fixups_frame [OF fx a4] lands by blast
    have l5: "\<not> flash_lock s5" using apply_flash_fixups_lock [OF fx] s3(1) by (simp add: s4_def)
    show ?thesis
    proof (cases "fr = 0")
      case False
      then show ?thesis using tl pr True fx a5 dn by (auto simp: tail_def)
    next
      case ok: True
      then have "ret = 0 \<and> mem s' = sealed (mem s5) fse pstore new_base"
        using tl pr True fx l5 dn
        by (auto simp: tail_def sealed_def write_u32_def uld_crc_update_fse_def uld_crc_update_fst_def Let_def)
      then show ?thesis using a5 by (intro exI [of _ "mem s5"]) simp
    qed
  qed
qed

text \<open>C5 Whatever a move returns, it writes only the new place of the file, the base and the
  checksum of the entry and the checksum of the table, and the old copy of the file is kept. A move that fails leaves
  the entry and the table checksum alone, so the entry still names the old copy; a move that succeeds has changed only
  the base and the checksum of the entry, and both the file at its new place and the table verify.\<close>

theorem move_leaves_file_valid:
  fixes base len fse :: u32 and s :: machine
  defines "base \<equiv> fse_base (fse_at (mem s) fse)" and "len \<equiv> fse_size (fse_at (mem s) fse)"
  assumes "uld_reloc_move_fse s stk stk_list stk_file pstore fse new_base = Some (ret, s')"
    and "uld_load_create_file s fse stk_list (int ULD_FILE_SECTION_MAX) ULD_SECTION_FLAG_TYPE_ALL stk_file = Some (0, uf, s2)"
    and "new_base = align_up new_base 3" "movable (mem s) pstore fse new_base uf"
  shows "agrees_off (rng new_base (unat len) \<union> rng fse 4 \<union> rng (fse + 12) 4 \<union> rng (pstore + 24) 4) (mem s) (mem s')
    \<and> bytes (mem s') base (unat len) = bytes (mem s) base (unat len)
    \<and> (if ret = 0
       then (\<exists>c. fse_at (mem s') fse = (fse_at (mem s) fse)\<lparr>fse_base := new_base, fse_crc := c\<rparr>)
          \<and> fst (uld_crc_verify_fse (mem s') fse) \<and> fst (uld_crc_verify_fst (mem s') pstore)
       else agrees_off (rng new_base (unat len)) (mem s) (mem s'))"
proof (cases "fse = 0 \<or> new_base = 0 \<or> move_overlaps new_base base len")
  case True
  then have "ret = - 1 \<and> mem s' = mem s"
    using assms(3,5) unfolding uld_reloc_move_fse_def Let_def base_def len_def by (auto split: if_splits)
  then show ?thesis by simp
next
  case False
  let ?A = "rng new_base (unat len)" and ?R = "rng fse 20 \<union> rng pstore 28"
  note mv = assms(6) [unfolded movable_def Let_def, folded base_def len_def]
  obtain m5 where m5: "agrees_off ?A (mem s) m5" "mem s' = (if ret = 0 then sealed m5 fse pstore new_base else m5)"
    using move_fse_image [OF assms(3-6)] False by (auto simp: base_def len_def)
  have apart: "?A \<inter> rng base (unat len) = {}"
    using move_overlaps_exact [of new_base len base] False mv by blast
  have sub: "rng fse 4 \<subseteq> rng fse 20" "rng (fse + 12) 4 \<subseteq> rng fse 20" "rng (pstore + 24) 4 \<subseteq> rng pstore 28"
    using rng_sub [of 24 28 pstore] rng_mono [of 4 20 fse] rng_sub [of 12 16 fse] rng_mono [of 16 20 fse] by auto
  have e: "fse_at m5 fse = fse_at (mem s) fse" "pstore_at m5 pstore = pstore_at (mem s) pstore"
    using mv by (intro fse_at_agree [OF m5(1)] pstore_at_agree [OF m5(1)]; blast)+
  have off: "agrees_off (?A \<union> rng fse 4 \<union> rng (fse + 12) 4 \<union> rng (pstore + 24) 4) (mem s) (mem s')"
    unfolding m5(2) sealed_def Let_def
    by (auto intro!: agrees_off_st32 agrees_off_mono [OF m5(1)])
  have "rng base (unat len) \<inter> (?A \<union> rng fse 4 \<union> rng (fse + 12) 4 \<union> rng (pstore + 24) 4) = {}"
    using apart sub mv by blast
  then have "bytes (mem s') base (unat len) = bytes (mem s) base (unat len)"
    using less_imp_le [OF unat_lt32 [of len]] by (intro agrees_off_bytes [OF off]) simp_all
  then show ?thesis using off m5 sealed_entry [of fse pstore new_base m5] mv by (auto simp: e len_def)
qed

text \<open>A file of 200 bytes at \<open>0x100\<close> with the sections \<open>.rofixup\<close> and \<open>.data\<close>; the fixup table names the word of \<open>.data\<close>,
  which points to itself. The store has room for it twice. It is moved to \<open>0x1c8\<close>.\<close>

definition mv_mem :: mem where
  "mv_mem = (\<lambda>_. 0)(0x40 := 2, 0x45 := 1, 0x48 := 0x90, 0x49 := 1, 0x4c := 0x80, 0x50 := 0x80, 0x54 := 20, 0x81 := 1, 0x88 := 200,
     0x94 := 104, 0x95 := 101, 0x96 := 108, 0x97 := 108, 0x98 := 111, 0x99 := 95, 0x9a := 119, 0x9b := 111,
     0x9c := 114, 0x9d := 108, 0x9e := 100, 0x9f := 46, 0xa0 := 101, 0xa1 := 108, 0xa2 := 102,
     0x130 := 3, 0x12e := 40, 0x120 := 52,
     0x15c := 0xac, 0x160 := 1, 0x164 := 2, 0x169 := 0x20, 0x16c := 0xbc, 0x170 := 4,
     0x184 := 0xb5, 0x188 := 1, 0x18c := 3, 0x191 := 0x30, 0x194 := 0xc0, 0x198 := 4,
     0x1ac := 46, 0x1ad := 114, 0x1ae := 111, 0x1af := 102, 0x1b0 := 105, 0x1b1 := 120, 0x1b2 := 117, 0x1b3 := 112,
     0x1b5 := 46, 0x1b6 := 100, 0x1b7 := 97, 0x1b8 := 116, 0x1b9 := 97, 0x1bd := 0x30, 0x1c0 := 0xc0, 0x1c1 := 1)"

definition mv_new :: mem where "mv_new = moved mv_mem 0x1c8 0x100 200"

lemma mv_file:
  "fse_base (fse_at mv_mem 0x80) = 0x100" "fse_size (fse_at mv_mem 0x80) = 200"
  "fst_table_base (pstore_at mv_mem 0x40) = 0x80" "fst_table_size (pstore_at mv_mem 0x40) = 20"
  by (simp_all add: fse_at_def pstore_at_def ld32_def) (simp_all add: mv_mem_def)

text \<open>The two places where the image is read, byte by byte.\<close>

definition mv_at :: "mem \<Rightarrow> u32 \<Rightarrow> bool" where
  "mv_at m b \<longleftrightarrow> b \<in> {0x100, 0x1c8} \<and> (\<forall>k<200. k \<notin> {0xc0, 0xc1, 0xc2, 0xc3} \<longrightarrow> m (b + k) = mv_mem (0x100 + k))"

lemma mv_at_byte: "mv_at m b \<Longrightarrow> k < 200 \<Longrightarrow> k \<notin> {0xc0, 0xc1, 0xc2, 0xc3} \<Longrightarrow> m (b + k) = mv_mem (0x100 + k)"
  by (simp add: mv_at_def)

lemma mv_new_byte: "k < 200 \<Longrightarrow> mv_new (0x100 + k) = mv_mem (0x100 + k) \<and> mv_new (0x1c8 + k) = mv_mem (0x100 + k)"
  by (auto simp: mv_new_def moved_def word_less_nat_alt) (unat_arith; simp)+

lemma mv_read:
  assumes "mv_at m b"
  shows "e_shnum (ehdr_at m b) = 3" "e_shentsize (ehdr_at m b) = 40" "e_phnum (ehdr_at m b) = 0"
    "e_shoff (ehdr_at m b) = 52" "e_shstrndx (ehdr_at m b) = 0" "e_type (ehdr_at m b) = 0"
    "shdr_at m (b + 0x5c) = \<lparr>sh_name = 0xac, sh_type = 1, sh_flags = 2, sh_addr = 0x2000,
      sh_offset = 0xbc, sh_size = 4, sh_link = 0, sh_info = 0, sh_addralign = 0, sh_entsize = 0\<rparr>"
    "shdr_at m (b + 0x84) = \<lparr>sh_name = 0xb5, sh_type = 1, sh_flags = 3, sh_addr = 0x3000,
      sh_offset = 0xc0, sh_size = 4, sh_link = 0, sh_info = 0, sh_addralign = 0, sh_entsize = 0\<rparr>"
    "sh_offset (shdr_at m (b + 0x34)) = 0" "ld32 m (b + 0xbc) = 0x3000"
  by (simp_all add: ehdr_at_def shdr_at_def ld32_def ld16_def mv_at_byte [OF assms] add.assoc) (simp_all add: mv_mem_def)

lemma mv_name:
  assumes "mv_at m b"
  shows "cs_is m (Ptr (b + 0xac)) [46, 114, 111, 102, 105, 120, 117, 112]" "cs_is m (Ptr (b + 0xb5)) [46, 100, 97, 116, 97]"
  by (simp_all add: cs_is_Ptr_Cons mv_at_byte [OF assms] add.assoc) (simp_all add: cs_is_def mv_at_byte [OF assms] mv_mem_def)

lemma mv_nonzero:
  assumes "mv_at m b"
  shows "b \<noteq> 0" "b + 0x34 \<noteq> 0" "b + 0x5c \<noteq> 0" "b + 0x84 \<noteq> 0" "b + 0xac \<noteq> 0" "b + 0xb5 \<noteq> 0"
  using assms by (auto simp: mv_at_def)

lemma mv_list:
  assumes "mv_at m b"
  shows "elf32_for_each_shdr m b = [(1, b + 0x5c), (2, b + 0x84)]" "elf32_for_each_shdr_base m b b = [(1, b + 0x5c), (2, b + 0x84)]"
    "elf32_for_each_phdr m b = []"
  by (simp_all add: elf32_for_each_shdr_def elf32_for_each_shdr_base_eq elf32_for_each_phdr_def elf32_for_each_phdr_base_def
      mv_read [OF assms] mv_nonzero [OF assms] upt_rec elf32_get_section_by_index_def Let_def)


lemma mv_str:
  assumes "mv_at m b"
  shows "str_in_list m (map Lit [[46, 103, 111, 116], [46, 103, 111, 116, 46, 112, 108, 116], [46, 100, 97, 116, 97],
        [46, 98, 115, 115]]) (Ptr (b + 0xac)) = Some False"
    "str_in_list m (map Lit [[46, 103, 111, 116], [46, 103, 111, 116, 46, 112, 108, 116], [46, 100, 97, 116, 97],
        [46, 98, 115, 115]]) (Ptr (b + 0xb5)) = Some True"
    "str_in_list m (map Lit [[46, 103, 111, 116], [46, 103, 111, 116, 46, 112, 108, 116], [46, 100, 97, 116, 97]])
        (Ptr (b + 0xac)) = Some False"
    "str_in_list m (map Lit [[46, 103, 111, 116], [46, 103, 111, 116, 46, 112, 108, 116], [46, 100, 97, 116, 97]])
        (Ptr (b + 0xb5)) = Some True"
  by (simp_all add: str_in_list_eq [OF _ mv_name(1) [OF assms]] str_in_list_eq [OF _ mv_name(2) [OF assms]] del: list.map)

lemma mv_type:
  assumes "mv_at (mem s) b"
  shows "uld_section_get_type s (b + 0x5c) (b + 0xac) = Some (ULD_SECTION_FLAG_TYPE_FLASH, s)"
    "uld_section_get_type s (b + 0x84) (b + 0xb5) = Some (ULD_SECTION_FLAG_TYPE_MEM, s)"
    "uld_section_is_mem_sec_fixup_by_name (mem s) (Ptr (b + 0xac)) = Some False"
    "uld_section_is_mem_sec_fixup_by_name (mem s) (Ptr (b + 0xb5)) = Some True"
  using mv_str [OF assms]
  by (simp_all add: uld_section_get_type_def uld_section_is_mem_sec_by_name_def uld_section_is_mem_sec_fixup_by_name_def
    uld_section_mem_name_list_def mv_read [OF assms] elf_consts Let_def)

definition mv_rof :: "u32 \<Rightarrow> uld_section" where
  "mv_rof b = \<lparr>sec_ehdr = b, sec_phdr = 0, sec_shdr = b + 0x5c, sec_name = b + 0xac, sec_lma = 0x2000,
     sec_adjusted_lma = b + 0xbc, sec_faddr = b + 0xbc, sec_adjusted_vma = b + 0xbc,
     sec_flags = ULD_SECTION_FLAG_VALID OR ULD_SECTION_FLAG_TYPE_FLASH, sec_phidx = ELF_SEC_HAS_NO_SEGMENT, sec_shidx = 1\<rparr>"

definition mv_data :: "u32 \<Rightarrow> uld_section" where
  "mv_data b = \<lparr>sec_ehdr = b, sec_phdr = 0, sec_shdr = b + 0x84, sec_name = b + 0xb5, sec_lma = 0x3000,
     sec_adjusted_lma = b + 0xc0, sec_faddr = b + 0xc0, sec_adjusted_vma = b + 0xc0,
     sec_flags = (ULD_SECTION_FLAG_VALID OR ULD_SECTION_FLAG_TYPE_MEM) OR ULD_SECTION_FLAG_STATUS_MEM_NEEDS_FIXUP,
     sec_phidx = ELF_SEC_HAS_NO_SEGMENT, sec_shidx = 2\<rparr>"

lemma mv_create:
  assumes "mv_at (mem s) b"
  shows "uld_load_create_section s st b 0 (b + 0x5c) 1 b = Some (0, mv_rof b, s)"
    "uld_load_create_section s st b 0 (b + 0x84) 2 b = Some (0, mv_data b, s)"
    "uld_load_create_section s st b b (b + 0x5c) 1 0 = Some (0, mv_rof b, s)"
  using mv_list [OF assms] mv_nonzero [OF assms]
  by (simp_all add: uld_load_create_section_def Let_def mv_read [OF assms] mv_type [OF assms]
    elf32_get_section_name_shstrtab_faddr_def elf32_get_section_name_def elf32_get_section_by_index_def create_section_addrs_def
    elf32_get_segment_by_section_def elf32_get_section_lma_def elf_consts create_section_flags_def
    mv_rof_def mv_data_def elf32_adjust_lma_def elf32_adjust_vma_def elf32_get_section_flash_addr_def ULD_SECTION_FLAG_NONE_def)

lemma mv_find_rof:
  assumes "mv_at m b"
  shows "elf32_get_section_by_name m b b (Lit (map of_char ''.rofixup'')) = Some (b + 0x5c)"
    "elf32_get_shidx_by_section m b b (b + 0x5c) = 1"
  using mv_list [OF assms] mv_nonzero [OF assms] mv_name(1) [OF assms, THEN uld_strcmp_bytes, OF cs_is_Lit [THEN iffD2]]
  by (simp_all add: elf32_get_section_by_name_def elf32_get_section_name_def elf32_get_section_name_shstrtab_faddr_def
        mv_read [OF assms] elf32_get_section_by_index_def elf32_get_section_flash_addr_def
        elf32_get_shidx_by_section_def signed_divide_int_def Let_def)

text \<open>The section lists of the file at \<open>0x100\<close>.\<close>

lemma mv_at_old: "mv_at mv_mem 0x100" "mv_at mv_new 0x1c8" "mv_at mv_new 0x100"
  by (simp_all add: mv_at_def mv_new_byte)

lemma mv_secs:
  fixes s :: machine
  assumes "mem s = mv_mem"
  shows "uld_load_create_sec_list s 0x100 0 (x # y # zs) 20 ULD_SECTION_FLAG_TYPE_MEM
      = Some (1, (mv_data 0x100)\<lparr>sec_flags := sec_flags (mv_data 0x100) OR ULD_SECTION_FLAG_LAST\<rparr> # y # zs, s)"
    "uld_load_create_sec_list s 0x100 0 (y # zs) 19 ULD_SECTION_FLAG_TYPE_FLASH
      = Some (1, (mv_rof 0x100)\<lparr>sec_flags := sec_flags (mv_rof 0x100) OR ULD_SECTION_FLAG_LAST\<rparr> # zs, s)"
    "uld_load_create_sec_list s 0x100 0 zs 18 ULD_SECTION_FLAG_TYPE_OTHER = Some (0, zs, s)"
proof -
  have a: "mv_at (mem s) 0x100" using assms mv_at_old by simp
  note [simp] = mv_read [OF a, simplified] mv_list [OF a, simplified] mv_type [OF a, simplified] mv_create [OF a, simplified]
  show "uld_load_create_sec_list s 0x100 0 (x # y # zs) 20 ULD_SECTION_FLAG_TYPE_MEM
      = Some (1, (mv_data 0x100)\<lparr>sec_flags := sec_flags (mv_data 0x100) OR ULD_SECTION_FLAG_LAST\<rparr> # y # zs, s)"
    "uld_load_create_sec_list s 0x100 0 (y # zs) 19 ULD_SECTION_FLAG_TYPE_FLASH
      = Some (1, (mv_rof 0x100)\<lparr>sec_flags := sec_flags (mv_rof 0x100) OR ULD_SECTION_FLAG_LAST\<rparr> # zs, s)"
    "uld_load_create_sec_list s 0x100 0 zs 18 ULD_SECTION_FLAG_TYPE_OTHER = Some (0, zs, s)"
    by (simp_all add: uld_load_create_sec_list_def Let_def elf32_get_section_by_index_def
      elf32_get_section_flash_addr_def elf32_get_section_name_shstrtab_faddr_def sec_insert_slot_def sec_flag_defs)
qed


definition mv_uf :: uld_file where
  "mv_uf = uld_file_zero\<lparr>uf_fse := 0x80,
     uf_mem := [(mv_data 0x100)\<lparr>sec_flags := sec_flags (mv_data 0x100) OR ULD_SECTION_FLAG_LAST\<rparr>],
     uf_flash := [(mv_rof 0x100)\<lparr>sec_flags := sec_flags (mv_rof 0x100) OR ULD_SECTION_FLAG_LAST\<rparr>]\<rparr>"

lemma mv_create_file:
  "uld_load_create_file (mach0 mv_mem) 0x80 (replicate ULD_FILE_SECTION_MAX z) (int ULD_FILE_SECTION_MAX)
     ULD_SECTION_FLAG_TYPE_ALL stk = Some (0, mv_uf, mach0 mv_mem)"
proof -
  have r: "replicate ULD_FILE_SECTION_MAX z = z # z # replicate 18 z" "int ULD_FILE_SECTION_MAX = 20"
    by (simp_all add: ULD_FILE_SECTION_MAX_def numeral_eq_Suc)
  have t: "ULD_SECTION_FLAG_TYPE_ALL AND ULD_SECTION_FLAG_TYPE_MEM \<noteq> 0" "ULD_SECTION_FLAG_TYPE_ALL AND ULD_SECTION_FLAG_TYPE_FLASH \<noteq> 0"
    "ULD_SECTION_FLAG_TYPE_ALL AND ULD_SECTION_FLAG_TYPE_OTHER \<noteq> 0"
    by (simp_all add: sec_flag_defs)
  have i: "uld_file_idx_to_sec_type (Suc 0) = ULD_SECTION_FLAG_TYPE_MEM" "uld_file_idx_to_sec_type 0 = ULD_SECTION_FLAG_TYPE_FLASH"
    "uld_file_idx_to_sec_type 2 = ULD_SECTION_FLAG_TYPE_OTHER"
    by (simp_all add: uld_file_idx_to_sec_type_def sec_flag_defs)
  have e: "e_type (ehdr_at mv_mem 0x100) = 0" using mv_read(6) [OF mv_at_old(1)] .
  show ?thesis
    unfolding r
    by (simp add: uld_load_create_file_def mv_file e sec_idx_lut_def i t mv_secs
        set_secs_def elf_consts Let_def ULD_FILE_FLAG_NONE_def mv_uf_def) (simp add: uld_file_zero_def)
qed

lemma mv_movable: "movable mv_mem 0x40 0x80 0x1c8 mv_uf"
proof -
  have d: "rng 0x15c 40 \<inter> rng 0x1c8 200 = {}" "rng 0x184 40 \<inter> rng 0x1c8 200 = {}"
    "rng 0x80 20 \<inter> rng 0x1c8 200 = {}" "rng 0x40 28 \<inter> rng 0x1c8 200 = {}" "rng 0x80 20 \<inter> rng 0x100 200 = {}"
    "rng 0x40 28 \<inter> rng 0x100 200 = {}" "rng 0x40 28 \<inter> rng 0x80 20 = {}" "rng 0x58 4 \<inter> rng 0x80 20 = {}"
    by (rule rng_disjoint_linear; simp)+
  have i: "rng 0x284 7 \<subseteq> rng 0x1c8 200" "rng 0x288 7 \<subseteq> rng 0x1c8 200"
    by (auto simp: rng_linear)
  have "lands_in (rng 0x1c8 200) mv_mem 0x1c8 (mv_rof 0x100)" "lands_in (rng 0x1c8 200) mv_mem 0x1c8 (mv_data 0x100)"
    using d(1,2) i mv_read(7,8) [OF mv_at_old(1)]
    by (simp_all add: lands_in_def mv_rof_def mv_data_def elf32_adjust_lma_def elf_consts)
  then show ?thesis using d Int_commute [of "rng 0x80 20" "rng 0x40 28"] by (simp add: movable_def mv_file mv_uf_def Let_def Int_Un_distrib2)
qed


definition mv_marked :: "uld_section \<Rightarrow> uld_section" where
  "mv_marked sec = sec\<lparr>sec_flags := (sec_flags sec OR ULD_SECTION_FLAG_LAST) OR ULD_SECTION_FLAG_STATUS_FLASH_NEEDS_FIXUP\<rparr>"

lemma mv_prepare: "uld_reloc_prepare_flash_fixups mv_new mv_uf
    = Some (0, mv_uf\<lparr>uf_flash := [mv_marked (mv_rof 0x100)], uf_mem := [mv_marked (mv_data 0x100)]\<rparr>)"
proof -
  have "str_in_list mv_new uld_reloc_flash_fixup_mem_sections (Ptr (sec_name (mv_data 0x100))) = Some True"
    using mv_str(4) [OF mv_at_old(3)] by (simp only: fixup_names) (simp add: mv_data_def)
  then show ?thesis
    by (simp add: uld_reloc_prepare_flash_fixups_def mv_uf_def mv_marked_def)
qed

lemma mv_marked:
  "sec_shdr (mv_marked (mv_rof 0x100)) = 0x15c" "sec_lma (mv_marked (mv_rof 0x100)) = 0x2000"
  "sec_adjusted_lma (mv_marked (mv_rof 0x100)) = 0x1bc" "sec_adjusted_vma (mv_marked (mv_rof 0x100)) = 0x1bc"
  "sec_shdr (mv_marked (mv_data 0x100)) = 0x184" "sec_lma (mv_marked (mv_data 0x100)) = 0x3000"
  "sec_adjusted_lma (mv_marked (mv_data 0x100)) = 0x1c0" "sec_adjusted_vma (mv_marked (mv_data 0x100)) = 0x1c0"
  "sec_flags (mv_marked x) AND ULD_SECTION_FLAG_STATUS_FLASH_NEEDS_FIXUP = ULD_SECTION_FLAG_STATUS_FLASH_NEEDS_FIXUP"
  "ULD_SECTION_FLAG_STATUS_FLASH_NEEDS_FIXUP \<noteq> 0"
  by (simp_all add: mv_marked_def mv_rof_def mv_data_def) (simp_all add: sec_flag_defs bit_simps word_bw_comms)

lemma mv_slot: "ld32 mv_new 0x288 = 0x1c0"
proof -
  have "mv_new 0x288 = 0xc0" "mv_new 0x289 = 1" "mv_new 0x28a = 0" "mv_new 0x28b = 0"
    using mv_new_byte [of "0xc0"] mv_new_byte [of "0xc1"] mv_new_byte [of "0xc2"] mv_new_byte [of "0xc3"]
    by (simp_all add: mv_mem_def)
  then show ?thesis by (simp add: ld32_def)
qed

lemma mv_hdr: "shdr_at mv_new 0x15c = shdr_at mv_new 0x224" "shdr_at mv_new 0x184 = shdr_at mv_new 0x24c"
  "sh_size (shdr_at mv_new 0x224) = 4" "sh_size (shdr_at mv_new 0x24c) = 4"
  "elf32_adjust_lma mv_new 0x184 0x1c8 = 0x288" "ld32 mv_new 0x284 = 0x3000" "ld32 mv_new 0x288 = 0x1c0"
  using mv_read(7,8,10) [OF mv_at_old(2)] mv_read(7,8) [OF mv_at_old(3)] mv_slot by (simp_all add: elf32_adjust_lma_def elf_consts)

lemma mv_fixups:
  assumes "mem s = mv_new"
  shows "\<exists>fl ml. uld_rofixup_apply_flash_fixups s stk 0x1c8 0 [mv_marked (mv_rof 0x100)] [mv_marked (mv_data 0x100)]
    = Some (0, fl, ml, s\<lparr>mem := st32 mv_new 0x288 0x288\<rparr>)"
proof -
  have a: "mv_at (mem s) 0x1c8" using assms mv_at_old by simp
  have rof: "sec_adjusted_lma (mv_rof 0x1c8) = 0x284" "sec_shdr (mv_rof 0x1c8) = 0x224" by (simp_all add: mv_rof_def)
  have lim: "fixup_limits mv_new ULD_SECTION_FLAG_STATUS_FLASH_NEEDS_FIXUP [mv_marked (mv_rof 0x100)] = (0x2000, 0x2004)"
    "fixup_limits mv_new ULD_SECTION_FLAG_STATUS_FLASH_NEEDS_FIXUP [mv_marked (mv_data 0x100)] = (0x3000, 0x3004)"
    by (simp_all add: fixup_limits_def mv_marked mv_hdr min_def max_def)
  have end': "fixup_loop f need lo hi secs (mv_rof 0x1c8) 0x288 x = Some (0, x)"
    if "sh_size (shdr_at (mem x) 0x224) = 4" for f need lo hi secs x
    using that by (subst fixup_loop.simps) (simp add: rof)
  have l1: "fixup_loop f ULD_SECTION_FLAG_STATUS_FLASH_NEEDS_FIXUP 0x2000 0x2004 secs (mv_rof 0x1c8) 0x284 s = Some (0, s)"
    for f secs
    using assms end' [of s] by (subst fixup_loop.simps) (simp add: rof mv_hdr)
  have hd: "sh_size (shdr_at (st32 mv_new 0x288 0x288) 0x224) = 4"
    by (simp add: shdr_at_def ld32_def st32_def) (simp add: mv_new_def moved_def mv_mem_def)
  have fx: "uld_rofixup_do_flash_fixup 0x1c8 fl [mv_marked (mv_data 0x100)] [mv_marked (mv_data 0x100)] s 0x284 0
      = Some (0, 0x288, 0x288, s)" if "sec_shdr (hd fl) = 0x15c" "sec_adjusted_lma (hd fl) = 0x1bc" "length fl = 1" for fl
    using that assms mv_hdr mv_marked
    by (cases fl) (simp_all add: uld_rofixup_do_flash_fixup_def Let_def adj_lma_search.search_first in_extent_def)
  have l2: "fixup_loop (uld_rofixup_do_flash_fixup 0x1c8 fl [mv_marked (mv_data 0x100)] [mv_marked (mv_data 0x100)])
      ULD_SECTION_FLAG_STATUS_FLASH_NEEDS_FIXUP 0x3000 0x3004 [mv_marked (mv_data 0x100)] (mv_rof 0x1c8) 0x284 s
      = Some (0, s\<lparr>mem := st32 mv_new 0x288 0x288\<rparr>)"
    if "sec_shdr (hd fl) = 0x15c" "sec_adjusted_lma (hd fl) = 0x1bc" "length fl = 1" for fl
    using assms end' [of "s\<lparr>mem := st32 mv_new 0x288 0x288\<rparr>"] hd fx [OF that]
    by (subst fixup_loop.simps)
      (simp add: rof mv_hdr uld_section_find_in_list_by_lma_flag_def find_in_list_by_lma_eq mv_marked in_extent_def)
  show ?thesis
    using l1 l2 lim assms mv_find_rof [OF a] mv_create(3) [OF a]
    by (simp add: uld_rofixup_apply_flash_fixups_def uld_rofixup_apply_fixups_def rof mv_marked)
qed


definition mv_moved :: mem where "mv_moved = sealed (st32 mv_new 0x288 0x288) 0x80 0x40 0x1c8"

lemma mv_run:
  "uld_reloc_move_fse (mach0 mv_mem) stk (replicate ULD_FILE_SECTION_MAX stk) stk_file 0x40 0x80 0x1c8
    = Some (0, (cpu_flash_unlock (mach0 mv_mem))\<lparr>mem := mv_moved\<rparr>)"
proof -
  define s3 where "s3 = (cpu_flash_unlock (mach0 mv_mem))\<lparr>mem := mv_new\<rparr>"
  have m: "uld_memmove mv_mem 0x1c8 0x100 200 = mv_new" by (simp add: uld_memmove_moved mv_new_def)
  have w: "cpu_flash_write (cpu_flash_unlock (mach0 mv_mem)) 0x1c8 0x100 200 = (0, s3)"
    by (simp add: cpu_flash_write_def cpu_flash_unlock_def mach0_def s3_def m)
  have s3: "mem s3 = mv_new" "\<not> flash_lock s3" by (simp_all add: s3_def cpu_flash_unlock_def mach0_def)
  obtain fl ml where fx: "uld_rofixup_apply_flash_fixups s3 stk 0x1c8 0 [mv_marked (mv_rof 0x100)] [mv_marked (mv_data 0x100)]
      = Some (0, fl, ml, s3\<lparr>mem := st32 mv_new 0x288 0x288\<rparr>)" using mv_fixups [OF s3(1)] by blast
  have l: "cpu_flash_is_locked (mach0 mv_mem)" "mem (cpu_flash_unlock (mach0 mv_mem)) = mv_mem"
    by (simp_all add: cpu_flash_is_locked_def cpu_flash_unlock_def mach0_def)
  show ?thesis
    using s3(2) by (simp add: uld_reloc_move_fse_def align_up_3 mv_file move_overlaps_def mv_create_file l w s3 mv_prepare fx
        write_u32_def uld_crc_update_fse_def uld_crc_update_fst_def Let_def mv_moved_def sealed_def reloc_done_def)
      (simp add: s3_def cpu_flash_unlock_def mach0_def)
qed

theorem move_leaves_file_valid_witness:
  "\<exists>s'. uld_reloc_move_fse (mach0 mv_mem) uld_section_zero (replicate ULD_FILE_SECTION_MAX uld_section_zero) uld_file_zero
      0x40 0x80 0x1c8 = Some (0, s') \<and> fse_base (fse_at (mem s') 0x80) = 0x1c8 \<and> fst (uld_crc_verify_fse (mem s') 0x80)
    \<and> bytes (mem s') 0x100 200 = bytes mv_mem 0x100 200"
proof -
  obtain s' where run: "uld_reloc_move_fse (mach0 mv_mem) uld_section_zero (replicate ULD_FILE_SECTION_MAX uld_section_zero)
      uld_file_zero 0x40 0x80 0x1c8 = Some (0, s')" using mv_run by blast
  have al: "0x1c8 = align_up 0x1c8 3" by (simp add: align_up_3)
  show ?thesis
    using move_leaves_file_valid [OF run mv_create_file al] run mv_movable by (auto simp: mv_file)
qed

text \<open>C14 Moving a file to null or to a place that overlaps it is refused with -1: nothing is written and
  the flash lock stays as it was. Any other move that returns leaves the flash unlocked, also when it was locked before,
  and both when the move succeeds and when it fails, which it may do after it has written the image.\<close>

theorem move_fse_effect:
  fixes base len fse :: u32 and s :: machine
  defines "base \<equiv> fse_base (fse_at (mem s) fse)" and "len \<equiv> fse_size (fse_at (mem s) fse)"
  assumes "uld_reloc_move_fse s stk stk_list stk_file pstore fse new_base = Some (ret, s')"
    and "unat new_base + unat len \<le> 2 ^ 32" "unat base + unat len \<le> 2 ^ 32" "len \<noteq> 0"
  shows "if fse = 0 \<or> new_base = 0 \<or> rng new_base (unat len) \<inter> rng base (unat len) \<noteq> {}
    then ret = - 1 \<and> mem s' = mem s \<and> flash_lock s' = flash_lock s
    else \<not> flash_lock s'"
proof -
  note exact = move_overlaps_exact [OF assms(4,5,6)]
  show ?thesis
  proof (cases "fse = 0 \<or> new_base = 0 \<or> move_overlaps new_base base len")
    case True
    then have "ret = - 1 \<and> quiet s s'"
      using assms(3) unfolding uld_reloc_move_fse_def base_def len_def
      by (auto simp: Let_def quiet_def split: if_splits)
    then show ?thesis using True exact by (simp add: quiet_def)
  next
    case False
    then show ?thesis using move_fse_unlocks [OF assms(3)] exact by (simp add: base_def len_def)
  qed
qed

theorem move_fse_effect_witness:
  "flash_lock (mach0 mv_mem)
   \<and> (\<exists>s'. uld_reloc_move_fse (mach0 mv_mem) uld_section_zero (replicate ULD_FILE_SECTION_MAX uld_section_zero) uld_file_zero
         0x40 0x80 0x1c8 = Some (0, s') \<and> \<not> flash_lock s')
   \<and> (\<exists>s'. uld_reloc_move_fse (mach0 mv_mem) uld_section_zero (replicate ULD_FILE_SECTION_MAX uld_section_zero) uld_file_zero
         0x40 0x80 0x108 = Some (- 1, s') \<and> mem s' = mv_mem \<and> flash_lock s')"
proof -
  obtain s1 where run1: "uld_reloc_move_fse (mach0 mv_mem) uld_section_zero (replicate ULD_FILE_SECTION_MAX uld_section_zero)
      uld_file_zero 0x40 0x80 0x1c8 = Some (0, s1)" using mv_run by blast
  obtain s2 where run2: "uld_reloc_move_fse (mach0 mv_mem) uld_section_zero (replicate ULD_FILE_SECTION_MAX uld_section_zero)
      uld_file_zero 0x40 0x80 0x108 = Some (- 1, s2)"
    by (simp add: uld_reloc_move_fse_def align_up_3 mv_file move_overlaps_def)
  have d: "rng 0x1c8 200 \<inter> rng 0x100 200 = {}"
    using rng_disjoint_linear [of "0x100" 200 "0x1c8" 200] by (simp add: Int_commute)
  have "0x108 \<in> rng 0x108 200 \<inter> rng 0x100 200" by (simp add: rng_def)
  then have ne: "rng 0x108 200 \<inter> rng 0x100 200 \<noteq> {}" by blast
  have l: "mem (mach0 mv_mem) = mv_mem" "flash_lock (mach0 mv_mem)" by (simp_all add: mach0_def)
  show ?thesis
    using run1 run2 move_fse_effect [OF run1] move_fse_effect [OF run2] d ne by (simp add: l mv_file)
qed

end
