(* ===== verification/Stdio.thy ===== *)
theory Stdio
  imports Util Cpu
begin

text \<open>The stdio part of \<open>src/libc.c\<close>: the functions on streams and the printf engine. A stream is the structure
  \<open>FILE\<close> with its two function fields over an arbitrary world; local buffers are memory objects of their own. The text
  a format stands for is defined on the format as a list of characters, and the locale \<open>text_stream\<close> proves that the
  engine writes it.\<close>

definition EOF :: int where "EOF = - 1"

definition ULD_FWRITE_FLAGS_LJUST :: u32 where "ULD_FWRITE_FLAGS_LJUST = 0x00000001"
definition ULD_FWRITE_FLAGS_LSPACE :: u32 where "ULD_FWRITE_FLAGS_LSPACE = 0x00000004"
definition ULD_FWRITE_FLAGS_ZERO_PAD :: u32 where "ULD_FWRITE_FLAGS_ZERO_PAD = 0x00000008"
definition ULD_FWRITE_FLAGS_LONG :: u32 where "ULD_FWRITE_FLAGS_LONG = 0x00000010"
definition ULD_FWRITE_FLAGS_SIGNED :: u32 where "ULD_FWRITE_FLAGS_SIGNED = 0x00000040"

lemmas fwrite_flag_defs = ULD_FWRITE_FLAGS_LJUST_def ULD_FWRITE_FLAGS_LSPACE_def
  ULD_FWRITE_FLAGS_ZERO_PAD_def ULD_FWRITE_FLAGS_LONG_def ULD_FWRITE_FLAGS_SIGNED_def

definition UTIL_MIN_UITOA_BUF :: nat where "UTIL_MIN_UITOA_BUF = 12"
definition UTIL_MIN_UTOHEX_BUF :: nat where "UTIL_MIN_UTOHEX_BUF = 9"

record 'w FILE =
  write_f :: "mem \<Rightarrow> int \<Rightarrow> cstr \<Rightarrow> u32 \<Rightarrow> 'w \<Rightarrow> (int \<times> 'w) option"
  dputchar_f :: "int \<Rightarrow> int \<Rightarrow> 'w \<Rightarrow> (int \<times> 'w) option"
  file_data :: u32
  file_fd :: int

datatype va_arg = Word u32 | Str cstr

definition ch :: "char \<Rightarrow> u8" where "ch c = of_char c"

definition cs_from :: "cstr \<Rightarrow> nat \<Rightarrow> cstr" where
  "cs_from s i = (case s of Lit bs \<Rightarrow> Lit (drop i bs) | Ptr p \<Rightarrow> Ptr (p + of_nat i))"

partial_function (option) cs_strlen_from :: "mem \<Rightarrow> cstr \<Rightarrow> nat \<Rightarrow> nat option" where
  "cs_strlen_from m s n = (if cs_byte m s n \<noteq> 0 then cs_strlen_from m s (Suc n) else Some n)"

definition cs_strlen :: "mem \<Rightarrow> cstr \<Rightarrow> nat option" where
  "cs_strlen m s = cs_strlen_from m s 0"

definition uld_write :: "'w FILE \<Rightarrow> mem \<Rightarrow> int \<Rightarrow> cstr \<Rightarrow> u32 \<Rightarrow> 'w \<Rightarrow> (int \<times> 'w) option" where
  "uld_write std_out m fd buf cnt w = write_f std_out m (file_fd std_out) buf cnt w"

definition uld_fputc :: "'w FILE \<Rightarrow> int \<Rightarrow> 'w \<Rightarrow> (int \<times> 'w) option" where
  "uld_fputc stream c w = dputchar_f stream (file_fd stream) c w"

definition uld_putc :: "'w FILE \<Rightarrow> int \<Rightarrow> 'w \<Rightarrow> (int \<times> 'w) option" where
  "uld_putc stream c w = dputchar_f stream (file_fd stream) c w"

definition uld_putchar :: "'w FILE \<Rightarrow> int \<Rightarrow> 'w \<Rightarrow> (int \<times> 'w) option" where
  "uld_putchar std_out c w = dputchar_f std_out (file_fd std_out) c w"

definition uld_fputs :: "'w FILE \<Rightarrow> mem \<Rightarrow> cstr \<Rightarrow> 'w \<Rightarrow> (int \<times> 'w) option" where
  "uld_fputs stream m s w = do {
     n \<leftarrow> cs_strlen m s;
     let len = sint (of_nat n :: u32);
     (r, w1) \<leftarrow> write_f stream m (file_fd stream) s (of_nat n) w;
     Some (if r = len then len else EOF, w1) }"

definition uld_puts :: "'w FILE \<Rightarrow> mem \<Rightarrow> cstr \<Rightarrow> 'w \<Rightarrow> (int \<times> 'w) option" where
  "uld_puts std_out m s w = do {
     (ret, w1) \<leftarrow> uld_fputs std_out m s w;
     if ret \<ge> 0
     then do { (c, w2) \<leftarrow> dputchar_f std_out (file_fd std_out) 10 w1;
               Some (if c = 10 then ret + 1 else EOF, w2) }
     else Some (EOF, w1) }"

definition uld_fwrite :: "'w FILE \<Rightarrow> mem \<Rightarrow> cstr \<Rightarrow> u32 \<Rightarrow> u32 \<Rightarrow> 'w \<Rightarrow> (u32 \<times> 'w) option" where
  "uld_fwrite stream m ptr sz nmemb w = do {
     (r, w1) \<leftarrow> write_f stream m (file_fd stream) ptr (sz * nmemb) w;
     if r < 0 then Some (word_of_int EOF, w1)
     else if sz = 0 then None
     else Some (word_of_int r div sz, w1) }"

definition pad_chars :: "bool \<Rightarrow> u8 list" where
  "pad_chars zero_pad = replicate 10 (ch (if zero_pad then CHR ''0'' else CHR '' ''))"

partial_function (option) fwrite_pad_loop ::
    "'w FILE \<Rightarrow> mem \<Rightarrow> u8 list \<Rightarrow> int \<Rightarrow> 'w \<Rightarrow> (int \<times> 'w) option" where
  "fwrite_pad_loop stream m chars c w =
     (if c \<noteq> 0
      then Option.bind (write_f stream m (file_fd stream) (Lit chars) (word_of_int (min c 10)) w)
             (\<lambda>(r, w1). if r < 0 then Some (EOF, w1) else fwrite_pad_loop stream m chars (c - r) w1)
      else Some (0, w))"

definition uld_fwrite_pad :: "'w FILE \<Rightarrow> mem \<Rightarrow> int \<Rightarrow> bool \<Rightarrow> 'w \<Rightarrow> (int \<times> 'w) option" where
  "uld_fwrite_pad stream m cnt zero_pad w =
     (if cnt \<le> 0 then Some (0, w)
      else do {
        (r, w1) \<leftarrow> fwrite_pad_loop stream m (pad_chars zero_pad) cnt w;
        Some (if r = EOF then EOF else cnt, w1) })"

text \<open>The part the three writers share: padding on the left, the text, padding on the right.\<close>

definition pad_when :: "bool \<Rightarrow> 'w FILE \<Rightarrow> mem \<Rightarrow> int \<Rightarrow> bool \<Rightarrow> 'w \<Rightarrow> (int \<times> 'w) option" where
  "pad_when cond stream m cnt zero_pad w =
     (if cond \<and> cnt > 0 then uld_fwrite_pad stream m cnt zero_pad w else Some (0, w))"

definition fwrite_justified ::
    "'w FILE \<Rightarrow> mem \<Rightarrow> cstr \<Rightarrow> u32 \<Rightarrow> int \<Rightarrow> int \<Rightarrow> u32 \<Rightarrow> 'w \<Rightarrow> (int \<times> 'w) option" where
  "fwrite_justified stream m p n nbytes width flags w =
     (let ljust = (flags AND ULD_FWRITE_FLAGS_LJUST \<noteq> 0)
      in do {
        (a, w1) \<leftarrow> pad_when (\<not> ljust) stream m (width - nbytes)
                     (flags AND ULD_FWRITE_FLAGS_ZERO_PAD \<noteq> 0) w;
        if a = EOF then Some (EOF, w1)
        else do {
          (r, w2) \<leftarrow> write_f stream m (file_fd stream) p n w1;
          if r = EOF then Some (r, w2)
          else do {
            (b, w3) \<leftarrow> pad_when ljust stream m (width - nbytes) False w2;
            if b = EOF then Some (EOF, w3) else Some (max nbytes width, w3) } } })"

definition local_buf :: u32 where "local_buf = 0x100"

definition uld_fwrite_hex :: "'w FILE \<Rightarrow> mem \<Rightarrow> u32 \<Rightarrow> int \<Rightarrow> u32 \<Rightarrow> 'w \<Rightarrow> (int \<times> 'w) option" where
  "uld_fwrite_hex stream m v width flags w =
     (let (n, buf) = utohex (\<lambda>_. 0) local_buf v
      in if n < 0 then Some (EOF, w)
         else fwrite_justified stream m (Lit (bytes buf local_buf (nat n))) (word_of_int n) n width flags w)"

definition uld_fwrite_dec :: "'w FILE \<Rightarrow> mem \<Rightarrow> u32 \<Rightarrow> int \<Rightarrow> u32 \<Rightarrow> 'w \<Rightarrow> (int \<times> 'w) option" where
  "uld_fwrite_dec stream m v width flags w =
     (let space_signed = ULD_FWRITE_FLAGS_LSPACE OR ULD_FWRITE_FLAGS_SIGNED;
          pos_space = (flags AND space_signed = space_signed);
          (n, buf) = uitoa (\<lambda>_. 0) local_buf v (flags AND ULD_FWRITE_FLAGS_SIGNED \<noteq> 0)
      in if n < 0 then Some (EOF, w)
         else let p = local_buf + of_nat UTIL_MIN_UITOA_BUF - word_of_int n - 1
              in do {
                (r, p', n', pc, w1) \<leftarrow>
                  (if buf p = ch CHR ''-''
                   then do { (r, w1) \<leftarrow> dputchar_f stream (file_fd stream) (uint (buf p)) w;
                             Some (r, p + 1, n, - 1, w1) }
                   else if pos_space
                   then do { (r, w1) \<leftarrow> dputchar_f stream (file_fd stream) 32 w;
                             Some (r, p, n + 1, - 1, w1) }
                   else Some (0, p, n, 0, w));
                if r = EOF then Some (r, w1)
                else fwrite_justified stream m (Lit (bytes buf p' (nat (n' + pc)))) (word_of_int (n' + pc))
                       n' width flags w1 })"

definition uld_fwrite_str :: "'w FILE \<Rightarrow> mem \<Rightarrow> cstr \<Rightarrow> int \<Rightarrow> u32 \<Rightarrow> 'w \<Rightarrow> (int \<times> 'w) option" where
  "uld_fwrite_str stream m s width flags w = do {
     n \<leftarrow> cs_strlen m s;
     let b = sint (of_nat n :: u32);
     fwrite_justified stream m s (word_of_int b) b width flags w }"

definition va_word :: "va_arg list \<Rightarrow> (u32 \<times> va_arg list) option" where
  "va_word ap = (case ap of Word v # r \<Rightarrow> Some (v, r) | Str (Ptr p) # r \<Rightarrow> Some (p, r) | _ \<Rightarrow> None)"

definition va_str :: "va_arg list \<Rightarrow> (cstr \<times> va_arg list) option" where
  "va_str ap = (case ap of Str c # r \<Rightarrow> Some (c, r) | Word p # r \<Rightarrow> Some (Ptr p, r) | [] \<Rightarrow> None)"

partial_function (option) vf_plain :: "mem \<Rightarrow> cstr \<Rightarrow> nat \<Rightarrow> nat option" where
  "vf_plain m fmt i =
     (if cs_byte m fmt i \<noteq> 0 \<and> cs_byte m fmt i \<noteq> ch CHR ''%'' then vf_plain m fmt (Suc i) else Some i)"

definition is_digit19 :: "u8 \<Rightarrow> bool" where
  "is_digit19 c \<longleftrightarrow> ch CHR ''1'' \<le> c \<and> c \<le> ch CHR ''9''"

definition vf_mod :: "u8 \<Rightarrow> u32 \<times> int \<times> machine \<Rightarrow> (u32 \<times> int \<times> machine) option" where
  "vf_mod c st = (case st of (flags, width, s) \<Rightarrow>
     if c = ch CHR '' '' then Some (flags OR ULD_FWRITE_FLAGS_LSPACE, width, s)
     else if c = ch CHR ''-'' then Some (flags OR ULD_FWRITE_FLAGS_LJUST, width, s)
     else if c = ch CHR ''l''
     then Some (flags OR ULD_FWRITE_FLAGS_LONG, width,
                if flags AND ULD_FWRITE_FLAGS_LONG \<noteq> 0 then swbkpt s else s)
     else if c = ch CHR ''0''
     then (if width = 0 then Some (flags OR ULD_FWRITE_FLAGS_ZERO_PAD, width, s)
           else Some (flags, width * 10, s))
     else if is_digit19 c then Some (flags, width * 10 + (uint c - uint (ch CHR ''0'')), s)
     else None)"

partial_function (option) vf_mods ::
    "mem \<Rightarrow> cstr \<Rightarrow> nat \<Rightarrow> u32 \<times> int \<times> machine \<Rightarrow> (nat \<times> u32 \<times> int \<times> machine) option" where
  "vf_mods m fmt i st =
     (case vf_mod (cs_byte m fmt (Suc i)) st of
        Some st' \<Rightarrow> vf_mods m fmt (Suc i) st'
      | None \<Rightarrow> Some (Suc i, st))"

definition vf_conv ::
    "'w FILE \<Rightarrow> u8 \<Rightarrow> u32 \<Rightarrow> int \<Rightarrow> va_arg list \<Rightarrow> int \<Rightarrow> machine \<Rightarrow> 'w
       \<Rightarrow> (va_arg list \<times> int \<times> machine \<times> 'w) option" where
  "vf_conv stream c flags width ap cnt s w =
     (let m = mem s in
      if c = ch CHR ''-'' \<or> c = ch CHR ''%''
      then do { (r, w1) \<leftarrow> dputchar_f stream (file_fd stream) (uint (ch CHR ''%'')) w;
                Some (ap, cnt + 1, s, w1) }
      else if c = ch CHR ''p''
      then do { (v, ap1) \<leftarrow> va_word ap;
                (r, w1) \<leftarrow> uld_fwrite_hex stream m v 8 ULD_FWRITE_FLAGS_ZERO_PAD w;
                Some (ap1, cnt + r, s, w1) }
      else if c = ch CHR ''d'' \<or> c = ch CHR ''u''
      then do { let fl = (if c = ch CHR ''d'' then flags OR ULD_FWRITE_FLAGS_SIGNED else flags);
                (v, ap1) \<leftarrow> va_word ap;
                (r, w1) \<leftarrow> uld_fwrite_dec stream m v width fl w;
                Some (ap1, cnt + r, s, w1) }
      else if c = ch CHR ''s''
      then do { (str, ap1) \<leftarrow> va_str ap;
                (r, w1) \<leftarrow> uld_fwrite_str stream m str width flags w;
                Some (ap1, cnt + r, s, w1) }
      else if c = ch CHR ''X'' \<or> c = ch CHR ''x''
      then do { (v, ap1) \<leftarrow> va_word ap;
                (r, w1) \<leftarrow> uld_fwrite_hex stream m v width flags w;
                Some (ap1, cnt + r, s, w1) }
      else Some (ap, cnt, swbkpt s, w))"

partial_function (option) vf_loop ::
    "'w FILE \<Rightarrow> cstr \<Rightarrow> nat \<Rightarrow> va_arg list \<Rightarrow> int \<Rightarrow> machine \<Rightarrow> 'w \<Rightarrow> (int \<times> machine \<times> 'w) option" where
  "vf_loop stream fmt i ap cnt s w =
     (if cs_byte (mem s) fmt i = 0 then Some (cnt, s, w)
      else Option.bind (vf_plain (mem s) fmt i) (\<lambda>j.
        Option.bind (write_f stream (mem s) (file_fd stream) (cs_from fmt i) (of_nat (j - i)) w) (\<lambda>(r, w1).
          if cs_byte (mem s) fmt j = 0 then Some (cnt + r, s, w1)
          else Option.bind (vf_mods (mem s) fmt j
                 (0, 0, if cs_byte (mem s) fmt j \<noteq> ch CHR ''%'' then swbkpt s else s)) (\<lambda>(k, flags, width, s1).
            Option.bind (vf_conv stream (cs_byte (mem s1) fmt k) flags width ap (cnt + r) s1 w1)
              (\<lambda>(ap1, count1, s2, w2).
                 if cs_byte (mem s2) fmt k = 0 then Some (count1, s2, w2)
                 else vf_loop stream fmt (Suc k) ap1 count1 s2 w2)))))"

definition uld_vfprintf ::
    "'w FILE option \<Rightarrow> cstr \<Rightarrow> va_arg list \<Rightarrow> machine \<Rightarrow> 'w \<Rightarrow> (int \<times> machine \<times> 'w) option" where
  "uld_vfprintf stream format ap s w =
     (case stream of
        None \<Rightarrow> Some (EOF, s, w)
      | Some f \<Rightarrow> if format = Ptr 0 then Some (EOF, s, w) else vf_loop f format 0 ap 0 s w)"

definition uld_printf ::
    "'w FILE \<Rightarrow> cstr \<Rightarrow> va_arg list \<Rightarrow> machine \<Rightarrow> 'w \<Rightarrow> (int \<times> machine \<times> 'w) option" where
  "uld_printf std_out format ap s w = uld_vfprintf (Some std_out) format ap s w"

definition uld_fprintf ::
    "'w FILE option \<Rightarrow> cstr \<Rightarrow> va_arg list \<Rightarrow> machine \<Rightarrow> 'w \<Rightarrow> (int \<times> machine \<times> 'w) option" where
  "uld_fprintf stream format ap s w = uld_vfprintf stream format ap s w"

definition uld_vprintf ::
    "'w FILE \<Rightarrow> cstr \<Rightarrow> va_arg list \<Rightarrow> machine \<Rightarrow> 'w \<Rightarrow> (int \<times> machine \<times> 'w) option" where
  "uld_vprintf std_out format ap s w = uld_vfprintf (Some std_out) format ap s w"

definition uld_vdprintf ::
    "'w FILE \<Rightarrow> int \<Rightarrow> cstr \<Rightarrow> va_arg list \<Rightarrow> machine \<Rightarrow> 'w \<Rightarrow> (int \<times> machine \<times> 'w) option" where
  "uld_vdprintf std_out fd format ap s w =
     (let stream = std_out\<lparr>file_fd := fd\<rparr> in uld_vfprintf (Some stream) format ap s w)"

definition uld_dprintf ::
    "'w FILE \<Rightarrow> int \<Rightarrow> cstr \<Rightarrow> va_arg list \<Rightarrow> machine \<Rightarrow> 'w \<Rightarrow> (int \<times> machine \<times> 'w) option" where
  "uld_dprintf std_out fd format ap s w = uld_vdprintf std_out fd format ap s w"

subsection \<open>What a format means\<close>

definition pad_text :: "bool \<Rightarrow> bool \<Rightarrow> int \<Rightarrow> int \<Rightarrow> u8 list \<Rightarrow> u8 list" where
  "pad_text ljust zero width n bs =
     (if ljust then bs @ replicate (nat (width - n)) (ch CHR '' '')
      else replicate (nat (width - n)) (ch (if zero then CHR ''0'' else CHR '' '')) @ bs)"

definition flag_set :: "u32 \<Rightarrow> u32 \<Rightarrow> bool" where
  "flag_set flags f \<longleftrightarrow> flags AND f \<noteq> 0"

definition field_text :: "u32 \<Rightarrow> int \<Rightarrow> int \<Rightarrow> u8 list \<Rightarrow> u8 list" where
  "field_text flags width n bs =
     pad_text (flag_set flags ULD_FWRITE_FLAGS_LJUST) (flag_set flags ULD_FWRITE_FLAGS_ZERO_PAD) width n bs"

definition hex_str :: "u32 \<Rightarrow> u8 list" where
  "hex_str v = map hexchar (strip_zeros 0 (nibbles 8 v))"

definition hex_text :: "u32 \<Rightarrow> int \<Rightarrow> u32 \<Rightarrow> u8 list" where
  "hex_text v width flags = field_text flags width (int (length (hex_str v))) (hex_str v)"

definition dec_text :: "u32 \<Rightarrow> int \<Rightarrow> u32 \<Rightarrow> u8 list" where
  "dec_text v width flags =
     (let sgnd = flag_set flags ULD_FWRITE_FLAGS_SIGNED; str = uitoa_str v sgnd; n = int (length str)
      in if sgnd \<and> sint v < 0
         then ch CHR ''-'' # field_text flags width n (tl str)
         else if sgnd \<and> flag_set flags ULD_FWRITE_FLAGS_LSPACE
         then ch CHR '' '' # field_text flags width (n + 1) str
         else field_text flags width n str)"

definition str_is :: "mem \<Rightarrow> cstr \<Rightarrow> u8 list \<Rightarrow> bool" where
  "str_is m s bs \<longleftrightarrow> cs_is m s bs \<and> length bs < 2147483648 \<and> (\<forall>i\<le>length bs. cs_from s i \<noteq> Ptr 0)"

definition mod_step :: "u8 \<Rightarrow> u32 \<times> int \<Rightarrow> (u32 \<times> int) option" where
  "mod_step c st = (case st of (flags, width) \<Rightarrow>
     if c = ch CHR '' '' then Some (flags OR ULD_FWRITE_FLAGS_LSPACE, width)
     else if c = ch CHR ''-'' then Some (flags OR ULD_FWRITE_FLAGS_LJUST, width)
     else if c = ch CHR ''l'' then Some (flags OR ULD_FWRITE_FLAGS_LONG, width)
     else if c = ch CHR ''0'' \<and> width = 0 then Some (flags OR ULD_FWRITE_FLAGS_ZERO_PAD, width)
     else if ch CHR ''0'' \<le> c \<and> c \<le> ch CHR ''9'' then Some (flags, 10 * width + (uint c - 48))
     else None)"

fun mods_text :: "u32 \<times> int \<Rightarrow> u8 list \<Rightarrow> (u32 \<times> int) \<times> u8 list" where
  "mods_text st [] = (st, [])"
| "mods_text st (c # cs) = (case mod_step c st of Some st' \<Rightarrow> mods_text st' cs | None \<Rightarrow> (st, c # cs))"

definition conv_text :: "(cstr \<Rightarrow> u8 list option) \<Rightarrow> u8 \<Rightarrow> u32 \<Rightarrow> int \<Rightarrow> va_arg list \<Rightarrow> (va_arg list \<times> u8 list) option" where
  "conv_text tx c flags width ap =
     (if c = ch CHR ''%'' then Some (ap, [c])
      else if c = ch CHR ''p'' then do { (v, ap1) \<leftarrow> va_word ap; Some (ap1, hex_text v 8 ULD_FWRITE_FLAGS_ZERO_PAD) }
      else if c = ch CHR ''d''
      then do { (v, ap1) \<leftarrow> va_word ap; Some (ap1, dec_text v width (flags OR ULD_FWRITE_FLAGS_SIGNED)) }
      else if c = ch CHR ''u'' then do { (v, ap1) \<leftarrow> va_word ap; Some (ap1, dec_text v width flags) }
      else if c = ch CHR ''s''
      then do { (s, ap1) \<leftarrow> va_str ap; bs \<leftarrow> tx s; Some (ap1, field_text flags width (int (length bs)) bs) }
      else if c = ch CHR ''x'' \<or> c = ch CHR ''X''
      then do { (v, ap1) \<leftarrow> va_word ap; Some (ap1, hex_text v width flags) }
      else Some (ap, []))"

lemma mods_text_length: "length (snd (mods_text st cs)) \<le> length cs"
  by (induction st cs rule: mods_text.induct) (auto split: option.split)

function fmt_text :: "(cstr \<Rightarrow> u8 list option) \<Rightarrow> va_arg list \<Rightarrow> u8 list \<Rightarrow> u8 list option" where
  "fmt_text tx ap [] = Some []"
| "fmt_text tx ap (c # cs) =
     (if c \<noteq> ch CHR ''%'' then map_option ((#) c) (fmt_text tx ap cs)
      else case mods_text (0, 0) cs of
        (st, []) \<Rightarrow> Some []
      | ((flags, width), k # ks) \<Rightarrow>
          (case conv_text tx k flags width ap of
             None \<Rightarrow> None
           | Some (ap1, t) \<Rightarrow> map_option ((@) t) (fmt_text tx ap1 ks)))"
  by pat_completeness auto
termination
proof (relation "measure (\<lambda>(tx, ap, cs). length cs)", goal_cases)
  case (3 tx ap c cs x y a b k ks x2 aa ba)
  then have "snd (mods_text (0, 0) cs) = k # ks" by (metis snd_conv)
  then show ?case using mods_text_length [of "(0, 0)" cs] by simp
qed auto

text \<open>The breakpoints a format runs into: one for a second \<open>l\<close> in a directive and one for an unknown conversion or for a
  directive that the end of the format cuts off.\<close>

fun mods_bkpts :: "u32 \<times> int \<Rightarrow> u8 list \<Rightarrow> nat" where
  "mods_bkpts st [] = 0"
| "mods_bkpts st (c # cs) = (case mod_step c st of
     Some st' \<Rightarrow> (if c = ch CHR ''l'' \<and> fst st AND ULD_FWRITE_FLAGS_LONG \<noteq> 0 then 1 else 0) + mods_bkpts st' cs
   | None \<Rightarrow> 0)"

definition conv_known :: "u8 \<Rightarrow> bool" where
  "conv_known c \<longleftrightarrow> c \<in> {ch CHR ''%'', ch CHR ''p'', ch CHR ''d'', ch CHR ''u'', ch CHR ''s'', ch CHR ''x'', ch CHR ''X''}"

function fmt_bkpts :: "u8 list \<Rightarrow> nat" where
  "fmt_bkpts [] = 0"
| "fmt_bkpts (c # cs) =
     (if c \<noteq> ch CHR ''%'' then fmt_bkpts cs
      else mods_bkpts (0, 0) cs
        + (case snd (mods_text (0, 0) cs) of [] \<Rightarrow> 1 | k # ks \<Rightarrow> (if conv_known k then 0 else 1) + fmt_bkpts ks))"
  by pat_completeness auto
termination
proof (relation "measure length", goal_cases)
  case (3 c cs k ks)
  then show ?case using mods_text_length [of "(0, 0)" cs] by simp
qed auto

lemma fmt_bkpts_plain: "fmt_bkpts (dropWhile (\<lambda>c. c \<noteq> ch CHR ''%'') cs) = fmt_bkpts cs"
  by (induction cs) simp_all

definition known_text :: "mem \<Rightarrow> (cstr \<Rightarrow> u8 list option) \<Rightarrow> bool" where
  "known_text m tx \<longleftrightarrow> (\<forall>s bs. tx s = Some bs \<longrightarrow> str_is m s bs)"


lemma cs_strlen_from_is:
  assumes "cs_is m s bs" "n \<le> length bs"
  shows "cs_strlen_from m s n = Some (length bs)"
  using assms
proof (induction "length bs - n" arbitrary: n)
  case 0
  then show ?case by (subst cs_strlen_from.simps) (simp add: cs_is_def)
next
  case (Suc k)
  then have "cs_byte m s n = bs ! n" "bs ! n \<noteq> 0" by (auto simp: cs_is_def) (metis diff_is_0_eq' nth_mem nat.distinct(1) not_le)
  then show ?case using Suc by (subst cs_strlen_from.simps) simp
qed

lemma cs_strlen_is: "cs_is m s bs \<Longrightarrow> cs_strlen m s = Some (length bs)"
  by (simp add: cs_strlen_def cs_strlen_from_is)

lemma cs_bytes_is: "cs_is m s bs \<Longrightarrow> k \<le> length bs \<Longrightarrow> map (cs_byte m s) [0..<k] = take k bs"
  by (rule nth_equalityI) (auto simp: cs_is_def)

lemma cs_byte_from: "cs_byte m (cs_from s i) j = cs_byte m s (i + j)"
  by (cases s) (auto simp: cs_from_def cs_byte_def algebra_simps)

lemma cs_bytes_from:
  "cs_is m s bs \<Longrightarrow> i + k \<le> length bs \<Longrightarrow> map (cs_byte m (cs_from s i)) [0..<k] = take k (drop i bs)"
  by (rule nth_equalityI) (auto simp: cs_is_def cs_byte_from)

lemma small_word:
  "n < 2147483648 \<Longrightarrow> sint (of_nat n :: u32) = int n"
  "n < 2147483648 \<Longrightarrow> unat (of_nat n :: u32) = n"
  using sint_small [of "of_nat n"] by simp_all

locale text_stream =
  fixes stream :: "'w FILE" and out :: "'w \<Rightarrow> u8 list"
  assumes write_text: "unat n < 2147483648 \<Longrightarrow> buf \<noteq> Ptr 0 \<Longrightarrow>
      \<exists>w'. write_f stream m (file_fd stream) buf n w = Some (int (unat n), w')
        \<and> out w' = out w @ map (cs_byte m buf) [0..<unat n]"
    and putchar_text: "\<exists>w'. dputchar_f stream (file_fd stream) c w = Some (uint (word_of_int c :: u8), w')
        \<and> out w' = out w @ [word_of_int c]"
begin

lemma write_str:
  assumes "k < 2147483648" "cs_from s i \<noteq> Ptr 0"
    "cs_is m s bs" "i + k \<le> length bs"
  shows "\<exists>w'. write_f stream m (file_fd stream) (cs_from s i) (of_nat k) w = Some (int k, w')
    \<and> out w' = out w @ take k (drop i bs)"
  using write_text [of "of_nat k" "cs_from s i" m w] assms by (simp add: small_word cs_bytes_from)

lemma write_lit:
  assumes "length bs < 2147483648" "k \<le> length bs"
  shows "\<exists>w'. write_f stream m (file_fd stream) (Lit bs) (of_nat k) w = Some (int k, w')
    \<and> out w' = out w @ take k bs"
proof -
  have "map (cs_byte m (Lit bs)) [0..<k] = take k bs"
    using assms(2) by (intro nth_equalityI) (auto simp: cs_byte_def)
  then show ?thesis using write_text [of "of_nat k" "Lit bs" m w] assms by (simp add: small_word)
qed

lemma pad_loop_text:
  "\<exists>w'. fwrite_pad_loop stream m (pad_chars z) (int n) w = Some (0, w')
    \<and> out w' = out w @ replicate n (ch (if z then CHR ''0'' else CHR '' ''))"
proof (induction n arbitrary: w rule: less_induct)
  case (less n)
  show ?case
  proof (cases "n = 0")
    case True
    then show ?thesis by (subst fwrite_pad_loop.simps) simp
  next
    case False
    define k where "k = min n 10"
    have k: "0 < k" "k \<le> n" "k \<le> 10" using False by (simp_all add: k_def)
    obtain w1 where w1: "write_f stream m (file_fd stream) (Lit (pad_chars z)) (of_nat k) w = Some (int k, w1)"
      "out w1 = out w @ replicate k (ch (if z then CHR ''0'' else CHR '' ''))"
      using write_lit [of "pad_chars z" k m w] k by (auto simp: pad_chars_def)
    obtain w2 where w2: "fwrite_pad_loop stream m (pad_chars z) (int (n - k)) w1 = Some (0, w2)"
      "out w2 = out w1 @ replicate (n - k) (ch (if z then CHR ''0'' else CHR '' ''))"
      using less.IH [of "n - k" w1] k False by auto
    have "min (int n) 10 = int k" by (simp add: k_def)
    then have "fwrite_pad_loop stream m (pad_chars z) (int n) w = Some (0, w2)"
      using w1(1) w2(1) k False by (subst fwrite_pad_loop.simps) (simp add: of_nat_diff)
    then show ?thesis using w1(2) w2(2) k by (simp flip: replicate_add)
  qed
qed

lemma pad_when_text:
  "\<exists>r w'. pad_when c stream m n z w = Some (r, w') \<and> r \<noteq> EOF
    \<and> out w' = out w @ (if c then replicate (nat n) (ch (if z then CHR ''0'' else CHR '' '')) else [])"
proof (cases "c \<and> 0 < n")
  case True
  then show ?thesis using pad_loop_text [of m z "nat n" w]
    by (auto simp: pad_when_def uld_fwrite_pad_def EOF_def)
qed (auto simp: pad_when_def EOF_def)

end

lemma bytes_take: "k \<le> n \<Longrightarrow> bytes m p k = take k (bytes m p n)"
  by (rule nth_equalityI) auto

lemma dec_chars_not_minus: "ch CHR ''-'' \<notin> set (dec_chars n)"
proof
  assume "ch CHR ''-'' \<in> set (dec_chars n)"
  then obtain d where d: "d < 10" "(45 :: u8) = of_nat d + 48"
    by (auto simp: dec_chars_def ch_def dest: dec_digits_lt_10)
  then have "d = 0 \<or> d = 1 \<or> d = 2 \<or> d = 3 \<or> d = 4 \<or> d = 5 \<or> d = 6 \<or> d = 7 \<or> d = 8 \<or> d = 9" by arith
  then show False using d(2) by auto
qed

lemma dec_chars_nonempty: "dec_chars n \<noteq> []"
  by (subst dec_chars_step) simp

lemma uitoa_buf:
  fixes v :: u32 and sgnd :: bool
  defines "str \<equiv> uitoa_str v sgnd"
  shows "\<exists>buf. uitoa (\<lambda>_. 0) local_buf v sgnd = (int (length str), buf)
    \<and> (\<forall>k\<le>length str. bytes buf (local_buf + 11 - of_nat (length str)) k = take k str)
    \<and> (\<forall>k<length str. bytes buf (local_buf + 11 - of_nat (length str) + 1) k = take k (tl str))
    \<and> buf (local_buf + 11 - of_nat (length str)) = hd str \<and> str \<noteq> []
    \<and> (hd str = ch CHR ''-'' \<longleftrightarrow> sgnd \<and> sint v < 0) \<and> length str \<le> 11"
proof -
  let ?p = "local_buf + 11 - of_nat (length str)"
  define buf where "buf = wr_bytes (\<lambda>_. 0) ?p (str @ [0])"
  have u: "uitoa (\<lambda>_. 0) local_buf v sgnd = (int (length str), buf)"
    using uitoa_eq [of local_buf "\<lambda>_. 0" v sgnd] by (simp add: local_buf_def str_def buf_def Let_def)
  have len: "length str \<le> 11" unfolding str_def by (rule length_uitoa_str)
  have all: "bytes buf ?p (length str + 1) = str @ [0]"
    using bytes_wr_bytes [of "str @ [0]" "\<lambda>_. 0" ?p] len by (simp add: buf_def)
  then have b: "\<forall>k\<le>length str. bytes buf ?p k = take k str"
  proof (intro allI impI)
    fix k assume "k \<le> length str"
    then show "bytes buf ?p k = take k str" using bytes_take [of k "length str + 1" buf ?p] all by simp
  qed
  have ne: "str \<noteq> []" by (simp add: str_def uitoa_str_def dec_chars_nonempty)
  have s: "bytes buf ?p (Suc (length str)) = buf ?p # bytes buf (?p + 1) (length str)" by (rule bytes_Suc)
  then have h: "buf ?p = hd str" "bytes buf (?p + 1) (length str) = tl str @ [0]"
    using all s ne by (cases str; simp)+
  have t: "\<forall>k<length str. bytes buf (?p + 1) k = take k (tl str)"
  proof (intro allI impI)
    fix k assume "k < length str"
    then show "bytes buf (?p + 1) k = take k (tl str)"
      using bytes_take [of k "length str" buf "?p + 1"] h(2) by simp
  qed
  have m: "hd str = ch CHR ''-'' \<longleftrightarrow> sgnd \<and> sint v < 0"
  proof (cases "sgnd \<and> sint v < 0")
    case False
    then have "str = dec_chars (unat v)" unfolding str_def uitoa_str_def by (simp only: if_False)
    then have "hd str \<noteq> ch CHR ''-''"
      using dec_chars_not_minus [of "unat v"] dec_chars_nonempty [of "unat v"] hd_in_set by metis
    then show ?thesis using False by blast
  qed (simp add: str_def uitoa_str_def ch_def)
  show ?thesis by (rule exI [of _ buf]) (intro conjI u b t h(1) m ne len)
qed

lemma utohex_buf:
  "\<exists>buf. utohex (\<lambda>_. 0) local_buf v = (int (length (hex_str v)), buf)
    \<and> bytes buf local_buf (length (hex_str v)) = hex_str v \<and> length (hex_str v) \<le> 8"
proof -
  have len: "length (hex_str v) \<le> 8"
    using strip_zeros_props(1) [of 0 "nibbles 8 v"] by (simp add: hex_str_def)
  have "bytes (wr_bytes (\<lambda>_. 0) local_buf (hex_str v @ [0])) local_buf (length (hex_str v)) = hex_str v"
    using bytes_take [of "length (hex_str v)" "length (hex_str v @ [0])"] len
      bytes_wr_bytes [of "hex_str v @ [0]" "\<lambda>_. 0" local_buf] by simp
  then show ?thesis
    using utohex_eq [of local_buf "\<lambda>_. 0" v] len by (simp add: local_buf_def hex_str_def Let_def)
qed

context text_stream
begin

lemma justified_text:
  assumes "\<And>w. \<exists>w'. write_f stream m (file_fd stream) p n w = Some (int k, w') \<and> out w' = out w @ bs"
  shows "\<exists>w'. fwrite_justified stream m p n nb width flags w = Some (max nb width, w')
    \<and> out w' = out w @ field_text flags width nb bs"
proof -
  let ?lj = "flags AND ULD_FWRITE_FLAGS_LJUST \<noteq> 0" and ?z = "flags AND ULD_FWRITE_FLAGS_ZERO_PAD \<noteq> 0"
  obtain a w1 where 1: "pad_when (\<not> ?lj) stream m (width - nb) ?z w = Some (a, w1)" "a \<noteq> EOF"
    "out w1 = out w @ (if \<not> ?lj then replicate (nat (width - nb)) (ch (if ?z then CHR ''0'' else CHR '' '')) else [])"
    using pad_when_text by blast
  obtain w2 where 2: "write_f stream m (file_fd stream) p n w1 = Some (int k, w2)" "out w2 = out w1 @ bs"
    using assms by blast
  obtain b w3 where 3: "pad_when ?lj stream m (width - nb) False w2 = Some (b, w3)" "b \<noteq> EOF"
    "out w3 = out w2 @ (if ?lj then replicate (nat (width - nb)) (ch CHR '' '') else [])"
    using pad_when_text [of ?lj m "width - nb" False w2] by auto
  have "fwrite_justified stream m p n nb width flags w = Some (max nb width, w3)"
    using 1 2 3 by (simp add: fwrite_justified_def Let_def EOF_def)
  then show ?thesis using 1(3) 2(2) 3(3) by (auto simp: field_text_def pad_text_def flag_set_def)
qed

lemma hex_out:
  "\<exists>w'. uld_fwrite_hex stream m v width flags w = Some (max (int (length (hex_str v))) width, w')
    \<and> out w' = out w @ hex_text v width flags"
proof -
  obtain buf where b: "utohex (\<lambda>_. 0) local_buf v = (int (length (hex_str v)), buf)"
    "bytes buf local_buf (length (hex_str v)) = hex_str v" "length (hex_str v) \<le> 8"
    using utohex_buf by blast
  have "\<exists>w'. write_f stream m (file_fd stream) (Lit (hex_str v)) (of_nat (length (hex_str v))) w
      = Some (int (length (hex_str v)), w') \<and> out w' = out w @ hex_str v" for w
    using write_lit [of "hex_str v" "length (hex_str v)" m w] b(3) by simp
  from justified_text [OF this, of "int (length (hex_str v))" width flags w]
  show ?thesis using b by (simp add: uld_fwrite_hex_def hex_text_def)
qed

end

lemma and_bit_nonzero: "k < 32 \<Longrightarrow> (w :: u32) AND push_bit k 1 \<noteq> 0 \<longleftrightarrow> bit w k"
  by (simp add: and_exp_eq_0_iff_not_bit push_bit_eq_mult)

lemma and_two_bits:
  assumes "i < 32" "j < 32"
  shows "(w :: u32) AND (push_bit i 1 OR push_bit j 1) = push_bit i 1 OR push_bit j 1 \<longleftrightarrow> bit w i \<and> bit w j"
proof
  assume a: "w AND (push_bit i 1 OR push_bit j 1) = push_bit i 1 OR push_bit j 1"
  from arg_cong [OF a, of "\<lambda>x. bit x i"] arg_cong [OF a, of "\<lambda>x. bit x j"]
  show "bit w i \<and> bit w j" using assms by (simp add: bit_simps)
next
  assume "bit w i \<and> bit w j"
  then show "w AND (push_bit i 1 OR push_bit j 1) = push_bit i 1 OR push_bit j 1"
    by (intro bit_word_eqI) (auto simp: bit_simps)
qed

lemma flags_both:
  "flags AND (ULD_FWRITE_FLAGS_LSPACE OR ULD_FWRITE_FLAGS_SIGNED) = ULD_FWRITE_FLAGS_LSPACE OR ULD_FWRITE_FLAGS_SIGNED
    \<longleftrightarrow> flag_set flags ULD_FWRITE_FLAGS_LSPACE \<and> flag_set flags ULD_FWRITE_FLAGS_SIGNED"
proof -
  have f: "ULD_FWRITE_FLAGS_LSPACE = push_bit 2 1" "ULD_FWRITE_FLAGS_SIGNED = push_bit 6 1"
    by (simp_all add: fwrite_flag_defs push_bit_eq_mult)
  have "(2 :: nat) < 32" "(6 :: nat) < 32" by simp_all
  then show ?thesis unfolding flag_set_def f by (simp only: and_two_bits and_bit_nonzero)
qed

context text_stream
begin

lemma dec_out:
  "\<exists>r w'. uld_fwrite_dec stream m v width flags w = Some (r, w')
    \<and> out w' = out w @ dec_text v width flags \<and> r = int (length (dec_text v width flags))"
proof -
  let ?sg = "flag_set flags ULD_FWRITE_FLAGS_SIGNED"
  define str where "str = uitoa_str v ?sg"
  let ?p = "local_buf + 11 - of_nat (length str)" and ?n = "int (length str)"
  obtain buf where b: "uitoa (\<lambda>_. 0) local_buf v ?sg = (?n, buf)"
    "\<forall>k\<le>length str. bytes buf ?p k = take k str" "\<forall>k<length str. bytes buf (?p + 1) k = take k (tl str)"
    "buf ?p = hd str" "str \<noteq> []" "hd str = ch CHR ''-'' \<longleftrightarrow> ?sg \<and> sint v < 0" "length str \<le> 11"
    using uitoa_buf [of v ?sg] unfolding str_def by blast
  have p: "local_buf + of_nat UTIL_MIN_UITOA_BUF - word_of_int ?n - 1 = ?p"
    by (simp add: UTIL_MIN_UITOA_BUF_def)
  define rest where "rest = (\<lambda>(r :: int, p', n', pc :: int, w1). if r = EOF then Some (r, w1)
     else fwrite_justified stream m (Lit (bytes buf p' (nat (n' + pc)))) (word_of_int (n' + pc)) n' width flags w1)"
  have e: "uld_fwrite_dec stream m v width flags w = Option.bind
      (if ?sg \<and> sint v < 0
       then Option.bind (dputchar_f stream (file_fd stream) (uint (hd str)) w) (\<lambda>(r, w1). Some (r, ?p + 1, ?n, - 1, w1))
       else if flag_set flags ULD_FWRITE_FLAGS_LSPACE \<and> ?sg
       then Option.bind (dputchar_f stream (file_fd stream) 32 w) (\<lambda>(r, w1). Some (r, ?p, ?n + 1, - 1, w1))
       else Some (0, ?p, ?n, 0, w)) rest"
    unfolding uld_fwrite_dec_def Let_def flags_both flag_set_def [of flags ULD_FWRITE_FLAGS_SIGNED, symmetric]
      b(1) prod.case p b(4) b(6) rest_def
    by simp
  have wr: "\<exists>w'. write_f stream m (file_fd stream) (Lit bs) (word_of_int (int (length bs))) w
      = Some (int (length bs), w') \<and> out w' = out w @ bs" if "length bs \<le> 12" for bs w
    using write_lit [of bs "length bs" m w] that by simp
  have just: "\<exists>w'. rest (r, p', n', pc, w1) = Some (max n' width, w')
      \<and> out w' = out w1 @ field_text flags width n' bs"
    if "r \<noteq> EOF" "bytes buf p' (length bs) = bs" "n' + pc = int (length bs)" "length bs \<le> 12" for r p' n' pc w1 bs
    using justified_text [of m "Lit bs" "of_nat (length bs)" "length bs" bs n' width flags w1] wr that(1,2,4)
    unfolding rest_def prod.case that(3) by simp
  have len: "int (length (field_text flags width n' bs)) = max n' width - n' + int (length bs)" for n' bs
    by (simp add: field_text_def pad_text_def max_def)
  show ?thesis
  proof (cases "?sg \<and> sint v < 0")
    case True
    obtain w1 where w1: "dputchar_f stream (file_fd stream) (uint (hd str)) w = Some (uint (hd str), w1)"
      "out w1 = out w @ [hd str]"
      using putchar_text [of "uint (hd str)" w] by auto
    have ne: "uint (hd str) \<noteq> EOF" using uint_ge_0 [of "hd str"] unfolding EOF_def by linarith
    obtain w' where w': "rest (uint (hd str), ?p + 1, ?n, - 1, w1) = Some (max ?n width, w')"
      "out w' = out w1 @ field_text flags width ?n (tl str)"
      using just [of "uint (hd str)" "?p + 1" "tl str" ?n "- 1" w1] b(3,5,7) ne
      by (cases str) auto
    have t: "dec_text v width flags = ch CHR ''-'' # field_text flags width ?n (tl str)"
      using True by (simp add: dec_text_def str_def Let_def)
    show ?thesis
      using True w1 w' b(5,6) unfolding e t by (cases str) (simp_all add: len)
  next
    case neg: False
    then have nn: "\<not> (?sg \<and> sint v < 0)" by blast
    show ?thesis
    proof (cases "flag_set flags ULD_FWRITE_FLAGS_LSPACE \<and> ?sg")
      case True
      obtain w1 where w1: "dputchar_f stream (file_fd stream) 32 w = Some (32, w1)" "out w1 = out w @ [ch CHR '' '']"
        using putchar_text [of 32 w] by (auto simp: ch_def)
      obtain w' where w': "rest (32, ?p, ?n + 1, - 1, w1) = Some (max (?n + 1) width, w')"
        "out w' = out w1 @ field_text flags width (?n + 1) str"
        using just [of 32 ?p str "?n + 1" "- 1" w1] b(2,7) by (auto simp: EOF_def)
      have t: "dec_text v width flags = ch CHR '' '' # field_text flags width (?n + 1) str"
        unfolding dec_text_def Let_def str_def using nn True by auto
      show ?thesis unfolding e t if_not_P [OF nn] if_P [OF True] using w1 w' by (simp add: len)
    next
      case False
      obtain w' where w': "rest (0, ?p, ?n, 0, w) = Some (max ?n width, w')"
        "out w' = out w @ field_text flags width ?n str"
        using just [of 0 ?p str ?n 0 w] b(2,7) by (auto simp: EOF_def)
      have t: "dec_text v width flags = field_text flags width ?n str"
        unfolding dec_text_def Let_def str_def using nn False by auto
      show ?thesis unfolding e t if_not_P [OF nn] if_not_P [OF False] using w' by (simp add: len)
    qed
  qed
qed

end

lemma field_text_length:
  "int (length bs) = n \<Longrightarrow> int (length (field_text flags width n bs)) = max n width"
  by (simp add: field_text_def pad_text_def max_def)

lemma vf_mod_step:
  "vf_mod c (flags, width, s) = map_option (\<lambda>(f, wd). (f, wd,
     if c = ch CHR ''l'' \<and> flags AND ULD_FWRITE_FLAGS_LONG \<noteq> 0 then swbkpt s else s)) (mod_step c (flags, width))"
proof -
  have d: "is_digit19 c \<longleftrightarrow> ch CHR ''0'' \<le> c \<and> c \<le> ch CHR ''9'' \<and> c \<noteq> ch CHR ''0''"
  proof -
    have "ch CHR ''1'' \<le> c \<longleftrightarrow> ch CHR ''0'' \<le> c \<and> c \<noteq> ch CHR ''0''"
      by (simp add: ch_def) (unat_arith; auto)
    then show ?thesis by (auto simp: is_digit19_def)
  qed
  have l: "\<not> is_digit19 (ch CHR ''l'')" "ch CHR ''l'' \<noteq> ch CHR ''0''" "\<not> ch CHR ''l'' \<le> ch CHR ''9''"
    "ch CHR ''l'' \<noteq> ch CHR '' ''" "ch CHR ''l'' \<noteq> ch CHR ''-''"
    by (simp_all add: is_digit19_def ch_def)
  have z: "uint (ch CHR ''0'') = 48" "ch CHR ''0'' \<le> ch CHR ''9''" by (simp_all add: ch_def)
  show ?thesis
    using d l z by (auto simp: vf_mod_def mod_step_def)
qed

lemma mod_step_0: "mod_step 0 st = None"
  by (cases st) (simp add: mod_step_def ch_def)

lemma vf_plain_is:
  assumes "cs_is m fmt fs" "i \<le> length fs"
  shows "vf_plain m fmt i = Some (i + length (takeWhile (\<lambda>c. c \<noteq> ch CHR ''%'') (drop i fs)))"
  using assms
proof (induction "length fs - i" arbitrary: i)
  case 0
  then show ?case by (subst vf_plain.simps) (simp add: cs_is_def)
next
  case (Suc k)
  then have i: "i < length fs" by simp
  have c: "cs_byte m fmt i = fs ! i" "fs ! i \<noteq> 0" using Suc.prems i by (auto simp: cs_is_def) (metis nth_mem)
  have d: "drop i fs = fs ! i # drop (Suc i) fs" using i by (simp add: Cons_nth_drop_Suc)
  have "vf_plain m fmt (Suc i) = Some (Suc i + length (takeWhile (\<lambda>c. c \<noteq> ch CHR ''%'') (drop (Suc i) fs)))"
    using Suc i by (intro Suc.hyps) auto
  then show ?case using c d by (subst vf_plain.simps) simp
qed

lemma vf_mods_is:
  assumes "cs_is m fmt fs" "i < length fs"
  shows "vf_mods m fmt i (flags, width, s) = (case mods_text (flags, width) (drop (Suc i) fs) of
      ((f, wd), r) \<Rightarrow> Some (length fs - length r, f, wd, bump (mods_bkpts (flags, width) (drop (Suc i) fs)) s))"
  using assms
proof (induction "length fs - i" arbitrary: i flags width s)
  case 0
  then show ?case by simp
next
  case (Suc k)
  show ?case
  proof (cases "Suc i < length fs")
    case False
    then have "cs_byte m fmt (Suc i) = 0" using Suc.prems by (simp add: cs_is_def) (metis Suc_lessI)
    then show ?thesis using False Suc.prems(2)
      by (subst vf_mods.simps) (auto simp: vf_mod_step mod_step_0)
  next
    case True
    have c: "cs_byte m fmt (Suc i) = fs ! Suc i" using Suc.prems True by (auto simp: cs_is_def)
    have d: "drop (Suc i) fs = fs ! Suc i # drop (Suc (Suc i)) fs" using True by (simp add: Cons_nth_drop_Suc)
    show ?thesis
    proof (cases "mod_step (fs ! Suc i) (flags, width)")
      case None
      then show ?thesis using c d True by (subst vf_mods.simps) (auto simp: vf_mod_step)
    next
      case (Some st)
      obtain f wd where st: "st = (f, wd)" by fastforce
      let ?s = "if fs ! Suc i = ch CHR ''l'' \<and> flags AND ULD_FWRITE_FLAGS_LONG \<noteq> 0 then swbkpt s else s"
      have "vf_mods m fmt (Suc i) (f, wd, ?s) = (case mods_text (f, wd) (drop (Suc (Suc i)) fs) of
        ((f2, wd2), r) \<Rightarrow> Some (length fs - length r, f2, wd2, bump (mods_bkpts (f, wd) (drop (Suc (Suc i)) fs)) ?s))"
        by (rule Suc.hyps(1)) (use Suc.hyps(2) Suc.prems True in auto)
      then show ?thesis using c d Some st
        by (subst vf_mods.simps) (auto simp: vf_mod_step swbkpt_bump split: prod.split)
    qed
  qed
qed

lemma fmt_text_plain:
  "fmt_text tx ap cs = map_option ((@) (takeWhile (\<lambda>c. c \<noteq> ch CHR ''%'') cs))
     (fmt_text tx ap (dropWhile (\<lambda>c. c \<noteq> ch CHR ''%'') cs))"
proof (induction cs)
  case Nil
  then show ?case by simp
next
  case (Cons c cs)
  show ?case
  proof (cases "c = ch CHR ''%''")
    case True
    then show ?thesis by (simp add: option.map_ident del: fmt_text.simps)
  next
    case False
    then show ?thesis using Cons.IH by (simp add: option.map_comp comp_def)
  qed
qed

context text_stream
begin

lemma str_out:
  assumes "str_is m s bs"
  shows "\<exists>w'. uld_fwrite_str stream m s width flags w = Some (max (int (length bs)) width, w')
    \<and> out w' = out w @ field_text flags width (int (length bs)) bs"
proof -
  have a: "cs_is m s bs" "length bs < 2147483648" "cs_from s 0 \<noteq> Ptr 0" using assms by (auto simp: str_is_def)
  have s0: "cs_from s 0 = s" by (cases s) (simp_all add: cs_from_def)
  have "\<exists>w'. write_f stream m (file_fd stream) s (of_nat (length bs)) w = Some (int (length bs), w')
      \<and> out w' = out w @ bs" for w
    using write_str [of "length bs" s 0 m bs w] a s0 by simp
  from justified_text [OF this, of "int (length bs)" width flags w]
  show ?thesis using a by (simp add: uld_fwrite_str_def cs_strlen_is small_word Let_def)
qed

lemma conv_out:
  assumes "known_text (mem s) tx" "conv_text tx c flags width ap = Some (ap1, t)" "c \<noteq> ch CHR ''-''"
  shows "\<exists>w'. vf_conv stream c flags width ap cnt s w
      = Some (ap1, cnt + int (length t), bump (if conv_known c then 0 else 1) s, w') \<and> out w' = out w @ t"
proof -
  note hex = hex_out [of "mem s"] and dec = dec_out [of "mem s"]
  have hl: "int (length (hex_text v wd fl)) = max (int (length (hex_str v))) wd" for v wd fl
    by (simp add: hex_text_def field_text_length)
  show ?thesis
  proof (cases "c \<in> {ch CHR ''p'', ch CHR ''d'', ch CHR ''u'', ch CHR ''x'', ch CHR ''X''}")
    case True
    then obtain v where v: "va_word ap = Some (v, ap1)"
      using assms(2) by (auto simp: conv_text_def ch_def split: Option.bind_splits)
    consider "c = ch CHR ''p''" | "c = ch CHR ''d''" | "c = ch CHR ''u''" | "c = ch CHR ''x'' \<or> c = ch CHR ''X''"
      using True by auto
    then show ?thesis
    proof cases
      case 1
      then show ?thesis using assms(2) v hex [of v 8 ULD_FWRITE_FLAGS_ZERO_PAD w]
        by (auto simp: conv_text_def vf_conv_def conv_known_def ch_def Let_def hl)
    next
      case 2
      then show ?thesis using assms(2) v dec [of v width "flags OR ULD_FWRITE_FLAGS_SIGNED" w]
        by (auto simp: conv_text_def vf_conv_def conv_known_def ch_def Let_def)
    next
      case 3
      then show ?thesis using assms(2) v dec [of v width flags w]
        by (auto simp: conv_text_def vf_conv_def conv_known_def ch_def Let_def)
    next
      case 4
      then show ?thesis using assms(2) v hex [of v width flags w]
        by (auto simp: conv_text_def vf_conv_def conv_known_def ch_def Let_def hl)
    qed
  next
    case num: False
    show ?thesis
    proof (cases "c = ch CHR ''s''")
      case True
      then obtain x bs where x: "va_str ap = Some (x, ap1)" "tx x = Some bs" "t = field_text flags width (int (length bs)) bs"
        using assms(2) by (auto simp: conv_text_def ch_def split: Option.bind_splits)
      then have "str_is (mem s) x bs" using assms(1) by (simp add: known_text_def)
      from str_out [OF this, of width flags w] show ?thesis
        using True x by (auto simp: vf_conv_def conv_known_def ch_def Let_def field_text_length)
    next
      case False
      show ?thesis
      proof (cases "c = ch CHR ''%''")
        case True
        then show ?thesis using assms(2) putchar_text [of "uint (ch CHR ''%'')" w]
          by (auto simp: conv_text_def vf_conv_def conv_known_def ch_def Let_def)
      next
        case other: False
        then have "conv_text tx c flags width ap = Some (ap, [])"
          using num False by (simp add: conv_text_def)
        then show ?thesis using assms(2,3) num False other by (auto simp: vf_conv_def conv_known_def Let_def swbkpt_bump)
      qed
    qed
  qed
qed

end

lemma mods_text_suffix: "snd (mods_text st cs) = drop (length cs - length (snd (mods_text st cs))) cs"
proof (induction st cs rule: mods_text.induct)
  case (2 st c cs)
  then show ?case using mods_text_length [of _ cs] by (auto split: option.split simp: Suc_diff_le)
qed simp

lemma mods_text_head: "snd (mods_text st cs) = k # ks \<Longrightarrow> k \<noteq> ch CHR ''-''"
  by (induction st cs rule: mods_text.induct) (auto split: option.splits simp: mod_step_def ch_def)

lemma str_is_nz: "str_is m s bs \<Longrightarrow> i < length bs \<Longrightarrow> cs_byte m s i = bs ! i \<and> bs ! i \<noteq> 0"
  unfolding str_is_def cs_is_def by (metis nth_mem)

lemma str_is_end: "str_is m s bs \<Longrightarrow> cs_byte m s (length bs) = 0"
  by (simp add: str_is_def cs_is_def)

context text_stream
begin

lemma directive_out:
  assumes "str_is (mem s) fmt fs" "known_text (mem s) tx" "j < length fs" "fs ! j = ch CHR ''%''"
    and "fmt_text tx ap (drop j fs) = Some t"
    and IH: "\<And>k ap cnt s' w t. j < k \<Longrightarrow> k \<le> length fs \<Longrightarrow> mem s' = mem s \<Longrightarrow> fmt_text tx ap (drop k fs) = Some t \<Longrightarrow>
      \<exists>w'. vf_loop stream fmt k ap cnt s' w = Some (cnt + int (length t), bump (fmt_bkpts (drop k fs)) s', w')
        \<and> out w' = out w @ t"
  shows "\<exists>w'. Option.bind (vf_mods (mem s) fmt j (0, 0, s)) (\<lambda>(k, flags, width, s1).
            Option.bind (vf_conv stream (cs_byte (mem s1) fmt k) flags width ap cnt s1 w)
              (\<lambda>(ap1, cnt1, s2, w2).
                 if cs_byte (mem s2) fmt k = 0 then Some (cnt1, s2, w2)
                 else vf_loop stream fmt (Suc k) ap1 cnt1 s2 w2)) 
       = Some (cnt + int (length t), bump (fmt_bkpts (drop j fs)) s, w')
     \<and> out w' = out w @ t"
proof -
  obtain f wd r where md: "mods_text (0, 0) (drop (Suc j) fs) = ((f, wd), r)" by (metis surj_pair)
  define k where "k = length fs - length r"
  define s1 where "s1 = bump (mods_bkpts (0, 0) (drop (Suc j) fs)) s"
  have s1: "vf_mods (mem s) fmt j (0, 0, s) = Some (k, f, wd, s1)" "mem s1 = mem s"
    using vf_mods_is [of "mem s" fmt fs j 0 0 s] assms(1,3) md by (auto simp: str_is_def k_def s1_def)
  have d: "drop j fs = ch CHR ''%'' # drop (Suc j) fs" using assms(3,4) by (simp add: Cons_nth_drop_Suc [symmetric])
  have lr: "length r \<le> length fs - Suc j" using mods_text_length [of "(0, 0)" "drop (Suc j) fs"] md by simp
  have rk: "r = drop k fs"
    using mods_text_suffix [of "(0, 0)" "drop (Suc j) fs"] md lr assms(3) by (simp add: k_def Suc_diff_Suc)
  show ?thesis
  proof (cases r)
    case Nil
    then have "t = []" using assms(5) d md by simp
    moreover have "cs_byte (mem s) fmt k = 0" using Nil assms(1) by (simp add: k_def str_is_end)
    moreover have "fmt_bkpts (drop j fs) = mods_bkpts (0, 0) (drop (Suc j) fs) + 1" using d md Nil by simp
    ultimately show ?thesis using s1 by (simp add: vf_conv_def Let_def ch_def s1_def)
  next
    case (Cons c ks)
    have kl: "k < length fs" "j < k" using Cons lr assms(3) by (auto simp: k_def)
    have c: "c = fs ! k" "ks = drop (Suc k) fs"
      using rk Cons kl(1) by (metis Cons_nth_drop_Suc list.inject)+
    have cb: "cs_byte (mem s) fmt k = c" "c \<noteq> 0" using str_is_nz [OF assms(1) kl(1)] c by simp_all
    obtain ap1 t1 t2 where t: "conv_text tx c f wd ap = Some (ap1, t1)" "fmt_text tx ap1 ks = Some t2" "t = t1 @ t2"
      using assms(5) d md Cons by (auto split: option.splits)
    have "c \<noteq> ch CHR ''-''" using mods_text_head [of "(0, 0)" "drop (Suc j) fs" c ks] md Cons by simp
    define s2 where "s2 = bump (if conv_known c then 0 else 1) s1"
    have m2: "mem s2 = mem s" using s1(2) by (simp add: s2_def)
    obtain w2 where v: "vf_conv stream c f wd ap cnt s1 w = Some (ap1, cnt + int (length t1), s2, w2)"
      "out w2 = out w @ t1"
      using conv_out [of s1 tx c f wd ap ap1 t1 cnt w] \<open>c \<noteq> ch CHR ''-''\<close> assms(2) t(1) s1(2) by (auto simp: s2_def)
    obtain w3 where "vf_loop stream fmt (Suc k) ap1 (cnt + int (length t1)) s2 w2
        = Some (cnt + int (length t1) + int (length t2), bump (fmt_bkpts ks) s2, w3)" "out w3 = out w2 @ t2"
      using IH [of "Suc k" s2 ap1 t2 "cnt + int (length t1)" w2] kl m2 t(2) c(2) by auto
    moreover have "fmt_bkpts (drop j fs)
        = mods_bkpts (0, 0) (drop (Suc j) fs) + ((if conv_known c then 0 else 1) + fmt_bkpts ks)"
      using d md Cons by simp
    then have "bump (fmt_bkpts ks) s2 = bump (fmt_bkpts (drop j fs)) s" by (simp add: s2_def s1_def bump_def)
    ultimately show ?thesis using s1 v m2 cb t(3) by (simp add: add.assoc)
  qed
qed

lemma loop_out:
  assumes "str_is (mem s) fmt fs" "known_text (mem s) tx" "i \<le> length fs" "fmt_text tx ap (drop i fs) = Some t"
  shows "\<exists>w'. vf_loop stream fmt i ap cnt s w = Some (cnt + int (length t), bump (fmt_bkpts (drop i fs)) s, w')
    \<and> out w' = out w @ t"
  using assms
proof (induction "length fs - i" arbitrary: i ap cnt s w t rule: less_induct)
  case less
  show ?case
  proof (cases "i = length fs")
    case True
    then show ?thesis using less.prems str_is_end [OF less.prems(1)] by (subst vf_loop.simps) simp
  next
    case False
    then have il: "i < length fs" using less.prems(3) by simp
    let ?P = "takeWhile (\<lambda>c. c \<noteq> ch CHR ''%'') (drop i fs)"
    define j where "j = i + length ?P"
    have jl: "j \<le> length fs" using length_takeWhile_le [of _ "drop i fs"] il by (simp add: j_def le_diff_conv2 add.commute)
    have cs: "cs_is (mem s) fmt fs" "length fs < 2147483648" "cs_from fmt i \<noteq> Ptr 0"
      using less.prems(1,3) by (auto simp: str_is_def)
    have pl: "vf_plain (mem s) fmt i = Some j" using vf_plain_is [OF cs(1) less.prems(3)] by (simp add: j_def)
    obtain w1 where w1: "write_f stream (mem s) (file_fd stream) (cs_from fmt i) (of_nat (j - i)) w = Some (int (j - i), w1)"
      "out w1 = out w @ ?P"
      using write_str [of "j - i" fmt i "mem s" fs w] cs jl by (auto simp: j_def simp flip: takeWhile_eq_take)
    have bp: "fmt_bkpts (drop j fs) = fmt_bkpts (drop i fs)"
      using fmt_bkpts_plain [of "drop i fs"] by (simp add: dropWhile_eq_drop j_def add.commute)
    obtain t2 where t2: "fmt_text tx ap (drop j fs) = Some t2" "t = ?P @ t2"
      using less.prems(4) fmt_text_plain [of tx ap "drop i fs"]
      by (auto simp: dropWhile_eq_drop j_def add.commute)
    show ?thesis
    proof (cases "j = length fs")
      case True
      then have "t2 = []" "cs_byte (mem s) fmt j = 0" using t2(1) str_is_end [OF less.prems(1)] by simp_all
      moreover have "fmt_bkpts (drop i fs) = 0" using bp True by simp
      ultimately show ?thesis using str_is_nz [OF less.prems(1) il] pl w1 t2(2)
        by (subst vf_loop.simps) (simp add: j_def)
    next
      case False
      then have jl: "j < length fs" using jl by simp
      have pj: "fs ! j = ch CHR ''%''"
        using nth_length_takeWhile [of "\<lambda>c. c \<noteq> ch CHR ''%''" "drop i fs"] jl il by (simp add: j_def)
      note dir = directive_out [OF less.prems(1,2) jl pj t2(1), of "cnt + int (j - i)" w1]
      have ih: "\<exists>w'. vf_loop stream fmt k ap cnt s' w = Some (cnt + int (length t), bump (fmt_bkpts (drop k fs)) s', w')
          \<and> out w' = out w @ t"
        if "j < k" "k \<le> length fs" "mem s' = mem s" "fmt_text tx ap (drop k fs) = Some t" for k ap cnt s' w t
      proof -
        have "length fs - k < length fs - i" using that(1,2) jl by (simp add: j_def)
        from less.hyps [OF this, of s' ap t cnt w] show ?thesis using that less.prems(1,2) by simp
      qed
      obtain w' where "Option.bind (vf_mods (mem s) fmt j (0, 0, s)) (\<lambda>(k, flags, width, s1).
            Option.bind (vf_conv stream (cs_byte (mem s1) fmt k) flags width ap (cnt + int (j - i)) s1 w1)
              (\<lambda>(ap1, cnt1, s2, w2).
                 if cs_byte (mem s2) fmt k = 0 then Some (cnt1, s2, w2)
                 else vf_loop stream fmt (Suc k) ap1 cnt1 s2 w2)) = Some (cnt + int (j - i) + int (length t2), bump (fmt_bkpts (drop i fs)) s, w')"
        "out w' = out w1 @ t2"
        using dir [OF ih] unfolding bp by blast
      then show ?thesis using str_is_nz [OF less.prems(1) il] str_is_nz [OF less.prems(1) jl] pl w1 t2(2) pj
        by (subst vf_loop.simps) (simp add: j_def)
    qed
  qed
qed

lemma vfprintf_out:
  assumes "str_is (mem s) fmt fs" "known_text (mem s) tx" "fmt_text tx ap fs = Some t"
  shows "\<exists>w'. uld_vfprintf (Some stream) fmt ap s w = Some (int (length t), bump (fmt_bkpts fs) s, w')
    \<and> out w' = out w @ t"
proof -
  have "fmt \<noteq> Ptr 0" using assms(1) by (auto simp: str_is_def cs_from_def)
  then show ?thesis using loop_out [of s fmt fs tx 0 ap t 0 w] assms by (simp add: uld_vfprintf_def)
qed

end

lemma vf_mods_mem:
  assumes "vf_mods m fmt i st = Some r"
  shows "mem (snd (snd (snd r))) = mem (snd (snd st))"
proof (rule vf_mods.raw_induct [where P = "\<lambda>m fmt i st r. mem (snd (snd (snd r))) = mem (snd (snd st))", OF _ assms])
  fix vf m fmt i st r
  assume IH: "\<And>m fmt i st r. vf m fmt i st = Some r \<Longrightarrow> mem (snd (snd (snd r))) = mem (snd (snd st))"
    and b: "(case vf_mod (cs_byte m fmt (Suc i)) st of None \<Rightarrow> Some (Suc i, st) | Some st' \<Rightarrow> vf m fmt (Suc i) st') = Some r"
  show "mem (snd (snd (snd r))) = mem (snd (snd st))"
  proof (cases "vf_mod (cs_byte m fmt (Suc i)) st")
    case None
    then show ?thesis using b by auto
  next
    case (Some st')
    obtain f w s where "st = (f, w, s)" by (cases st)
    then have "mem (snd (snd st')) = mem (snd (snd st))" using Some by (auto simp: vf_mod_step)
    then show ?thesis using IH [of m fmt "Suc i" st' r] b Some by simp
  qed
qed

lemma vf_conv_mem:
  "vf_conv stream c flags width ap cnt s w = Some (ap', cnt', s', w') \<Longrightarrow> mem s' = mem s"
  by (auto simp: vf_conv_def Let_def split: Option.bind_splits if_splits)

lemma vf_loop_mem:
  assumes "vf_loop stream fmt i ap cnt s w = Some r"
  shows "mem (fst (snd r)) = mem s"
proof (rule vf_loop.raw_induct [where P = "\<lambda>stream fmt i ap cnt s w r. mem (fst (snd r)) = mem s", OF _ assms])
  fix vf :: "'a FILE \<Rightarrow> cstr \<Rightarrow> nat \<Rightarrow> va_arg list \<Rightarrow> int \<Rightarrow> machine \<Rightarrow> 'a \<Rightarrow> (int \<times> machine \<times> 'a) option"
  fix stream fmt i ap cnt s w r
  assume IH: "\<And>stream fmt i ap cnt s w r. vf stream fmt i ap cnt s w = Some r \<Longrightarrow> mem (fst (snd r)) = mem s"
    and b: "(if cs_byte (mem s) fmt i = 0 then Some (cnt, s, w)
      else Option.bind (vf_plain (mem s) fmt i) (\<lambda>j.
        Option.bind (write_f stream (mem s) (file_fd stream) (cs_from fmt i) (of_nat (j - i)) w) (\<lambda>(r, w1).
          if cs_byte (mem s) fmt j = 0 then Some (cnt + r, s, w1)
          else Option.bind (vf_mods (mem s) fmt j
                 (0, 0, if cs_byte (mem s) fmt j \<noteq> ch CHR ''%'' then swbkpt s else s)) (\<lambda>(k, flags, width, s1).
            Option.bind (vf_conv stream (cs_byte (mem s1) fmt k) flags width ap (cnt + r) s1 w1)
              (\<lambda>(ap1, cnt1, s2, w2).
                 if cs_byte (mem s2) fmt k = 0 then Some (cnt1, s2, w2)
                 else vf stream fmt (Suc k) ap1 cnt1 s2 w2))))) = Some r"
  show "mem (fst (snd r)) = mem s"
    using b by (auto simp: Option.bind_eq_Some_conv split: if_splits dest!: IH vf_mods_mem vf_conv_mem)
qed

lemma vfprintf_mem: "uld_vfprintf stream fmt ap s w = Some (r, s', w') \<Longrightarrow> mem s' = mem s"
  by (auto simp: uld_vfprintf_def split: option.splits if_splits dest: vf_loop_mem)

end
