(* ===== verification/Swi.thy ===== *)
theory Swi
  imports Stdio
begin

text \<open>\<open>src/swi.c\<close>: the semihosting console. What the trapping instructions do is the record \<open>host\<close>. A host that
  accepts every write makes the standard streams text streams.\<close>

definition SWI_EOF :: int where "SWI_EOF = EOF"
definition SWI_STDIN_FILENO :: int where "SWI_STDIN_FILENO = 0"
definition SWI_STDOUT_FILENO :: int where "SWI_STDOUT_FILENO = 1"
definition SWI_STDERR_FILENO :: int where "SWI_STDERR_FILENO = 2"

record 'w host =
  host_write :: "int \<Rightarrow> u8 list \<Rightarrow> 'w \<Rightarrow> int \<times> 'w"
  host_clock :: "'w \<Rightarrow> int \<times> 'w"
  host_time :: "'w \<Rightarrow> int \<times> 'w"
  host_pc :: u32

definition swi_clock :: "'w host \<Rightarrow> 'w \<Rightarrow> int \<times> 'w" where
  "swi_clock h w = host_clock h w"

definition swi_time :: "'w host \<Rightarrow> 'w \<Rightarrow> int \<times> 'w" where
  "swi_time h w = host_time h w"

definition swi_exit :: "'w host \<Rightarrow> 'w \<Rightarrow> 'w option" where
  "swi_exit h w = None"

definition swi_spin_step :: "u32 \<Rightarrow> int" where
  "swi_spin_step pc = foldl (\<lambda>r k. r sdiv k) (sint pc) [100, 200, 300, 400, 500, 600, 700, 800, 900]"

fun swi_spin :: "u32 \<Rightarrow> nat \<Rightarrow> int \<Rightarrow> int" where
  "swi_spin pc 0 ret = ret"
| "swi_spin pc (Suc iter) ret = swi_spin pc iter (swi_spin_step pc)"

partial_function (option) swi_wait :: "'w host \<Rightarrow> int \<Rightarrow> int \<Rightarrow> 'w \<Rightarrow> (int \<times> 'w) option" where
  "swi_wait h centisec ret w =
     (case swi_clock h w of (now, w1) \<Rightarrow>
        if now - centisec < 20 then swi_wait h centisec (swi_spin (host_pc h) 100000 ret) w1
        else Some (ret, w1))"

fun swi_write_loop :: "'w host \<Rightarrow> int \<Rightarrow> u8 list \<Rightarrow> nat \<Rightarrow> 'w \<Rightarrow> (int \<times> 'w) option" where
  "swi_write_loop h fd buf 0 w = None"
| "swi_write_loop h fd buf (Suc retries) w =
     (case host_write h fd buf w of (ret, w1) \<Rightarrow> do {
        (ret', w2) \<leftarrow> (if ret = - 1
                        then case swi_clock h w1 of (centisec, w2) \<Rightarrow> swi_wait h centisec ret w2
                        else Some (ret, w1));
        if retries \<noteq> 0 \<and> ret' = - 1 then swi_write_loop h fd buf retries w2 else Some (ret', w2) })"

definition swi_write :: "'w host \<Rightarrow> mem \<Rightarrow> int \<Rightarrow> cstr \<Rightarrow> u32 \<Rightarrow> 'w \<Rightarrow> (int \<times> 'w) option" where
  "swi_write h m fd buf cnt w =
     (if (fd \<noteq> 1 \<and> fd \<noteq> 2) \<or> buf = Ptr 0 then Some (SWI_EOF, w)
      else if cnt = 0 then Some (0, w)
      else do {
        (ret, w1) \<leftarrow> swi_write_loop h fd (map (cs_byte m buf) [0..<unat cnt]) 5 w;
        Some (if ret = - 1 then SWI_EOF else sint (cnt - word_of_int ret), w1) })"

definition swi_dputchar :: "'w host \<Rightarrow> int \<Rightarrow> int \<Rightarrow> 'w \<Rightarrow> (int \<times> 'w) option" where
  "swi_dputchar h fd c w = do {
     (r, w1) \<leftarrow> swi_write h (\<lambda>_. 0) fd (Lit [word_of_int c]) 1 w;
     Some (if r = 1 then uint (word_of_int c :: u8) else SWI_EOF, w1) }"

definition swi_file :: "'w host \<Rightarrow> int \<Rightarrow> 'w FILE" where
  "swi_file h fd = \<lparr>write_f = swi_write h, dputchar_f = swi_dputchar h, file_data = 0, file_fd = fd\<rparr>"

definition SWI_STDIN :: "'w host \<Rightarrow> 'w FILE" where "SWI_STDIN h = swi_file h SWI_STDIN_FILENO"
definition SWI_STDOUT :: "'w host \<Rightarrow> 'w FILE" where "SWI_STDOUT h = swi_file h SWI_STDOUT_FILENO"
definition SWI_STDERR :: "'w host \<Rightarrow> 'w FILE" where "SWI_STDERR h = swi_file h SWI_STDERR_FILENO"

definition swi_printf ::
    "'w host \<Rightarrow> cstr \<Rightarrow> va_arg list \<Rightarrow> machine \<Rightarrow> 'w \<Rightarrow> (int \<times> machine \<times> 'w) option" where
  "swi_printf h format ap s w = uld_vfprintf (Some (SWI_STDOUT h)) format ap s w"

definition swi_dprintf ::
    "'w host \<Rightarrow> int \<Rightarrow> cstr \<Rightarrow> va_arg list \<Rightarrow> machine \<Rightarrow> 'w \<Rightarrow> (int \<times> machine \<times> 'w) option" where
  "swi_dprintf h fd format ap s w =
     (let stream = (SWI_STDOUT h)\<lparr>file_fd := fd\<rparr> in uld_vfprintf (Some (SWI_STDOUT h)) format ap s w)"

definition swi_vdprintf ::
    "'w host \<Rightarrow> int \<Rightarrow> cstr \<Rightarrow> va_arg list \<Rightarrow> machine \<Rightarrow> 'w \<Rightarrow> (int \<times> machine \<times> 'w) option" where
  "swi_vdprintf h fd format ap s w =
     (let stream = (SWI_STDOUT h)\<lparr>file_fd := fd\<rparr> in uld_vfprintf (Some stream) format ap s w)"

lemma abs_sdiv:
  assumes "0 < k"
  shows "\<bar>x sdiv k\<bar> = \<bar>x\<bar> div (k :: int)"
proof -
  have "0 \<le> \<bar>x\<bar> div k" using assms by (simp add: pos_imp_zdiv_nonneg_iff)
  moreover have "sgn k = 1" "\<bar>k\<bar> = k" using assms by simp_all
  moreover have "x = 0 \<or> \<bar>sgn x\<bar> = 1" by (auto simp: sgn_if)
  ultimately show ?thesis by (auto simp: signed_divide_int_def abs_mult)
qed

lemma abs_sint_le: "\<bar>sint (v :: u32)\<bar> \<le> 2147483648"
  using sint_range_size [of v] by (simp add: word_size abs_le_iff)

lemma swi_spin_step_0: "swi_spin_step pc = 0"
proof -
  define x where "x = sint pc"
  define y where "y = x sdiv 100 sdiv 200 sdiv 300 sdiv 400"
  have "\<bar>y\<bar> = \<bar>x\<bar> div 100 div 200 div 300 div 400" unfolding y_def by (simp only: abs_sdiv)
  also have "\<dots> = \<bar>x\<bar> div 2400000000" by (simp only: div_mult2_eq [symmetric])
  also have "\<dots> = 0" using abs_sint_le [of pc] by (intro div_pos_pos_trivial) (simp_all add: x_def)
  finally have y: "y = 0" by simp
  have "swi_spin_step pc = y sdiv 500 sdiv 600 sdiv 700 sdiv 800 sdiv 900"
    unfolding swi_spin_step_def y_def x_def by (simp only: foldl.simps)
  then show ?thesis by (simp add: y signed_divide_int_def)
qed

lemma swi_spin_Suc: "swi_spin pc (Suc n) ret = 0"
  by (induction n arbitrary: ret) (simp_all add: swi_spin_step_0)

subsection \<open>A host that accepts every write\<close>

locale reliable_host =
  fixes h :: "'w host" and out :: "'w \<Rightarrow> u8 list"
  assumes host_ok: "\<exists>w'. host_write h fd buf w = (0, w') \<and> out w' = out w @ buf"
begin

lemma swi_write_ok:
  assumes "fd = 1 \<or> fd = 2" "buf \<noteq> Ptr 0" "unat n < 2147483648"
  shows "\<exists>w'. swi_write h m fd buf n w = Some (int (unat n), w') \<and> out w' = out w @ map (cs_byte m buf) [0..<unat n]"
proof (cases "n = 0")
  case True
  then show ?thesis using assms by (auto simp: swi_write_def)
next
  case False
  let ?d = "map (cs_byte m buf) [0..<unat n]"
  obtain w' where w': "host_write h fd ?d w = (0, w')" "out w' = out w @ ?d" using host_ok by blast
  have "swi_write_loop h fd ?d (Suc 4) w = Some (0, w')" by (subst swi_write_loop.simps(2)) (simp add: w'(1))
  then have "swi_write_loop h fd ?d 5 w = Some (0, w')" by simp
  then show ?thesis using assms w'(2) False sint_small [of n] by (auto simp: swi_write_def)
qed

lemma swi_dputchar_ok:
  assumes "fd = 1 \<or> fd = 2"
  shows "\<exists>w'. swi_dputchar h fd c w = Some (uint (word_of_int c :: u8), w') \<and> out w' = out w @ [word_of_int c]"
  using swi_write_ok [OF assms, of "Lit [word_of_int c]" 1 "\<lambda>_. 0" w]
  by (auto simp: swi_dputchar_def cs_byte_def)

end

sublocale reliable_host \<subseteq> std_out: text_stream "SWI_STDOUT h" out
  by unfold_locales
    (use swi_write_ok [of 1] swi_dputchar_ok [of 1] in \<open>auto simp: SWI_STDOUT_def swi_file_def SWI_STDOUT_FILENO_def\<close>)

sublocale reliable_host \<subseteq> std_err: text_stream "SWI_STDERR h" out
  by unfold_locales
    (use swi_write_ok [of 2] swi_dputchar_ok [of 2] in \<open>auto simp: SWI_STDERR_def swi_file_def SWI_STDERR_FILENO_def\<close>)

context reliable_host
begin

lemma swi_printf_ok:
  assumes "str_is (mem s) fmt fs" "known_text (mem s) tx" "fmt_text tx ap fs = Some t"
  shows "\<exists>w'. swi_printf h fmt ap s w = Some (int (length t), bump (fmt_bkpts fs) s, w') \<and> out w' = out w @ t"
  using std_out.vfprintf_out [OF assms] by (simp add: swi_printf_def)

end

definition log_host :: "u8 list host" where
  "log_host = \<lparr>host_write = (\<lambda>fd buf w. (0, w @ buf)), host_clock = (\<lambda>w. (0, w)), host_time = (\<lambda>w. (0, w)), host_pc = 0\<rparr>"

interpretation log: reliable_host log_host "\<lambda>w. w"
  by unfold_locales (simp add: log_host_def)

text \<open>C17 With a host that accepts every write, \<open>printf\<close> writes exactly the text its format
  stands for (plain characters, padding, justification, decimal, hexadecimal and string fields), returns the number of
  characters written, always returns, and leaves the machine unchanged but for the breakpoints: it meets one for
  a second \<open>l\<close> in a directive and one for an unknown or unfinished directive.\<close>

theorem printf_text:
  assumes "\<And>fd buf w. \<exists>w'. host_write h fd buf w = (0, w') \<and> out w' = out w @ buf"
    and "str_is (mem s) fmt fs" "known_text (mem s) tx" "fmt_text tx ap fs = Some t"
  shows "\<exists>w'. swi_printf h fmt ap s w = Some (int (length t), bump (fmt_bkpts fs) s, w') \<and> out w' = out w @ t"
proof -
  have "reliable_host h out" by unfold_locales (rule assms(1))
  then show ?thesis using assms(2-4) by (rule reliable_host.swi_printf_ok)
qed

definition fmt_example :: "u8 list" where "fmt_example = map of_char ''%5d|%04x|%x''"

theorem printf_text_witness:
  "swi_printf log_host (Lit fmt_example) [Word (- 5), Word 10, Word 0] (mach0 (\<lambda>_. 0)) []
     = Some (11, mach0 (\<lambda>_. 0), map of_char ''-   5|000a|'')"
proof -
  have eight: "(8 :: nat) = Suc (Suc (Suc (Suc (Suc (Suc (Suc (Suc 0)))))))" by simp
  have hex: "hex_str 10 = [ch CHR ''a'']" "hex_str 0 = []"
    unfolding hex_str_def eight by (simp_all add: hexchar_def ch_def)
  have dec: "uitoa_str (- 5) True = map of_char ''-5''"
    by (simp add: uitoa_str_def dec_chars_step)
  have "fmt_text (\<lambda>_. None) [Word (- 5), Word 10, Word 0] fmt_example = Some (map of_char ''-   5|000a|'')"
    by (simp add: fmt_example_def ch_def mod_step_def conv_text_def va_word_def dec_text_def hex_text_def
        field_text_def pad_text_def flag_set_def fwrite_flag_defs hex dec)
      (simp add: numeral_3_eq_3)
  moreover have "str_is (\<lambda>_. 0) (Lit fmt_example) fmt_example"
    by (simp add: str_is_def cs_from_def fmt_example_def)
  moreover have h: "\<exists>w'. host_write log_host fd buf w = (0, w') \<and> w' = w @ buf" for fd buf w
    by (simp add: log_host_def)
  moreover have "known_text m (\<lambda>_. None)" for m by (simp add: known_text_def)
  moreover have "fmt_bkpts fmt_example = 0"
    by (simp add: fmt_example_def ch_def mod_step_def conv_known_def)
  ultimately obtain w' where
    "swi_printf log_host (Lit fmt_example) [Word (- 5), Word 10, Word 0] (mach0 (\<lambda>_. 0)) []
       = Some (int (length (map of_char ''-   5|000a|'' :: u8 list)), mach0 (\<lambda>_. 0), w')"
    "w' = [] @ map of_char ''-   5|000a|''"
    using printf_text [of log_host "\<lambda>w. w", OF h, of "mach0 (\<lambda>_. 0)"] mem_mach0 bump_simps(3) by metis
  then show ?thesis by auto
qed

subsection \<open>A host that refuses a write\<close>

text \<open>C29 When the host refuses a write and the wait for the next attempt takes at least one
  turn, \<open>swi_write\<close> reports the full count although nothing was written, without a second attempt. The delay
  loop has overwritten the result.\<close>

theorem swi_write_refused:
  assumes "fd = 1 \<or> fd = 2" "buf \<noteq> Ptr 0" "cnt \<noteq> 0"
    and "host_write h fd (map (cs_byte m buf) [0..<unat cnt]) w = (- 1, w1)"
    and "host_clock h w1 = (t0, w2)" "host_clock h w2 = (t1, w3)" "t1 - t0 < 20"
    and "host_clock h w3 = (t2, w4)" "20 \<le> t2 - t0"
  shows "swi_write h m fd buf cnt w = Some (sint cnt, w4)"
proof -
  have spin: "swi_spin (host_pc h) 100000 r = 0" for r
    using swi_spin_Suc [of "host_pc h" 99999 r] by simp
  have "swi_wait h t0 0 w3 = Some (0, w4)"
    using assms(8,9) by (subst swi_wait.simps) (simp add: swi_clock_def)
  then have "swi_wait h t0 (- 1) w2 = Some (0, w4)"
    using assms(6,7) by (subst swi_wait.simps) (simp add: swi_clock_def spin)
  then have "swi_write_loop h fd (map (cs_byte m buf) [0..<unat cnt]) (Suc 4) w = Some (0, w4)"
    using assms(4,5) by (subst swi_write_loop.simps(2)) (simp add: swi_clock_def)
  then have "swi_write_loop h fd (map (cs_byte m buf) [0..<unat cnt]) 5 w = Some (0, w4)" by simp
  then show ?thesis using assms(1-3) by (auto simp: swi_write_def)
qed

definition refusing_host :: "int host" where
  "refusing_host = \<lparr>host_write = (\<lambda>fd buf w. (- 1, w)), host_clock = (\<lambda>w. (w, w + 10)),
     host_time = (\<lambda>w. (w, w)), host_pc = 0x8000\<rparr>"

theorem swi_write_refused_witness:
  "swi_write refusing_host (\<lambda>_. 0) 1 (Lit [65, 66]) 2 0 = Some (2, 30)"
  using swi_write_refused [of 1 "Lit [65, 66]" 2 refusing_host "\<lambda>_. 0" 0 0 0 10 10 20 20 30]
  by (simp add: refusing_host_def)

lemma swi_dprintf_ignores_fd: "swi_dprintf h fd format ap s w = swi_printf h format ap s w"
  by (simp add: swi_dprintf_def swi_printf_def)

end
