(* ===== verification/Print.thy ===== *)
theory Print
  imports Swi DynSym
begin

text \<open>\<open>src/uld_print.c\<close>: the printers of sections, files, dynamic tables, symbols, relocations and gdb commands.\<close>

type_synonym 'w pstate = "machine \<times> 'w"

definition nl :: string where "nl = [CHR 0x0A]"

definition lit :: "string \<Rightarrow> cstr" where "lit x = Lit (map of_char x)"

definition pr :: "'w FILE \<Rightarrow> string \<Rightarrow> va_arg list \<Rightarrow> 'w pstate \<Rightarrow> 'w pstate option" where
  "pr stream f ap st = (case st of (s, w) \<Rightarrow> do {
     (r, s1, w1) \<leftarrow> uld_fprintf (Some stream) (lit f) ap s w;
     Some (s1, w1) })"

definition pr_puts :: "'w FILE \<Rightarrow> string \<Rightarrow> 'w pstate \<Rightarrow> 'w pstate option" where
  "pr_puts stream x st = (case st of (s, w) \<Rightarrow> do {
     (r, w1) \<leftarrow> uld_fputs stream (mem s) (lit x) w;
     Some (s, w1) })"

definition pr_putc :: "'w FILE \<Rightarrow> int \<Rightarrow> 'w pstate \<Rightarrow> 'w pstate option" where
  "pr_putc stream c st = (case st of (s, w) \<Rightarrow> do {
     (r, w1) \<leftarrow> uld_putc stream c w;
     Some (s, w1) })"

definition uld_print_section_header_str :: string where
  "uld_print_section_header_str =
     '' &shdr       shidx name                 '' @ ''lma      adj_lma  fileoff  faddr'' @ nl
     @ ''             phidx                      '' @ ''vma      adj_vma  size     uldflag'' @ nl"

definition uld_fprint_fse_file ::
    "'w FILE option \<Rightarrow> uld_file option \<Rightarrow> 'w pstate \<Rightarrow> (int \<times> 'w pstate) option" where
  "uld_fprint_fse_file stream ufile st =
     (case (stream, ufile) of
        (Some f, Some uf) \<Rightarrow>
          if uf_fse uf = 0 then Some (- 1, st)
          else let fse = fse_at (mem (fst st)) (uf_fse uf)
               in do {
                 st1 \<leftarrow> pr f (''[<%p>] %-26s %p %08x %08lx %08lx'' @ nl @ nl)
                          [Word (fse_base fse), Str (Ptr (fse_name fse)), Word (fse_base fse),
                           Word (fse_size fse), Word (fse_crc fse), Word (fse_flags fse)] st;
                 Some (0, st1) }
      | _ \<Rightarrow> Some (- 1, st))"

definition uld_fprint_section ::
    "'w FILE option \<Rightarrow> uld_section option \<Rightarrow> 'w pstate \<Rightarrow> (int \<times> 'w pstate) option" where
  "uld_fprint_section stream sec st =
     (case (stream, sec) of
        (Some f, Some x) \<Rightarrow> do {
          let sh = shdr_at (mem (fst st)) (sec_shdr x);
          st1 \<leftarrow> pr f (''[<%p>]   %2u  %-20s %p %p %p %p'' @ nl)
                   [Word (sec_shdr x), Word (word_of_int (sec_shidx x)), Str (Ptr (sec_name x)),
                    Word (sec_lma x), Word (sec_adjusted_lma x), Word (sh_offset sh), Word (sec_faddr x)] st;
          let sh1 = shdr_at (mem (fst st1)) (sec_shdr x);
          st2 \<leftarrow> pr f (''               %2d                       '' @ ''%p %p %08lx %08lx'' @ nl)
                   [Word (word_of_int (sec_phidx x)), Word (sh_addr sh1), Word (sec_adjusted_vma x),
                    Word (sh_size sh1), Word (sec_flags x)] st1;
          Some (0, st2) }
      | _ \<Rightarrow> Some (- 1, st))"

fun print_secs :: "'w FILE \<Rightarrow> uld_section list \<Rightarrow> 'w pstate \<Rightarrow> 'w pstate option" where
  "print_secs f [] st = Some st"
| "print_secs f (sec # rest) st = do {
     (r, st1) \<leftarrow> uld_fprint_section (Some f) (Some sec) st;
     print_secs f rest st1 }"

definition uld_fprint_section_list ::
    "'w FILE option \<Rightarrow> uld_section list option \<Rightarrow> int \<Rightarrow> bool \<Rightarrow> 'w pstate \<Rightarrow> (int \<times> 'w pstate) option" where
  "uld_fprint_section_list stream sec_list cnt print_hdr st =
     (case (stream, sec_list) of
        (Some f, Some l) \<Rightarrow> do {
          st1 \<leftarrow> (if print_hdr then pr_puts f uld_print_section_header_str st else Some st);
          if nat cnt > length l then None
          else do { st2 \<leftarrow> print_secs f (take (nat cnt) l) st1; Some (0, st2) } }
      | _ \<Rightarrow> Some (- 1, st))"

fun print_sec_lists :: "'w FILE \<Rightarrow> uld_section list list \<Rightarrow> 'w pstate \<Rightarrow> 'w pstate option" where
  "print_sec_lists f [] st = Some st"
| "print_sec_lists f (l # rest) st =
     (if l = [] then print_sec_lists f rest st
      else do { (r, st1) \<leftarrow> uld_fprint_section_list (Some f) (Some l) (int (length l)) False st;
                print_sec_lists f rest st1 })"

definition uld_fprint_section_file ::
    "'w FILE option \<Rightarrow> uld_file option \<Rightarrow> 'w pstate \<Rightarrow> (int \<times> 'w pstate) option" where
  "uld_fprint_section_file stream ufile st =
     (case (stream, ufile) of
        (Some f, Some uf) \<Rightarrow> do {
          st1 \<leftarrow> pr_puts f uld_print_section_header_str st;
          st2 \<leftarrow> print_sec_lists f (uf_secs uf) st1;
          st3 \<leftarrow> pr_putc f 10 st2;
          Some (0, st3) }
      | _ \<Rightarrow> Some (- 1, st))"

fun gdb_shdr_loop ::
    "'w FILE \<Rightarrow> u32 \<Rightarrow> u32 \<Rightarrow> uld_section \<Rightarrow> (nat \<times> u32) list \<Rightarrow> 'w pstate \<Rightarrow> 'w pstate option" where
  "gdb_shdr_loop f ehdr shstrtab_faddr sec [] st = Some st"
| "gdb_shdr_loop f ehdr shstrtab_faddr sec ((idx, shdr) # rest) (s, w) = do {
     let name = elf32_get_section_name_shstrtab_faddr (mem s) shdr shstrtab_faddr;
     (sec_type, s1) \<leftarrow> uld_section_get_type s shdr name;
     if sec_type AND ULD_SECTION_FLAG_TYPE_FLASH = 0
     then gdb_shdr_loop f ehdr shstrtab_faddr sec rest (s1, w)
     else do {
       c \<leftarrow> uld_strcmp (mem s1) (Ptr name) (lit ''.text'');
       if c = 0 then gdb_shdr_loop f ehdr shstrtab_faddr sec rest (s1, w)
       else do {
         (r, sec1, s2) \<leftarrow> uld_load_create_section s1 sec ehdr 0 shdr 0 shstrtab_faddr;
         st3 \<leftarrow> pr f '' -s %s 0x%p'' [Str (Ptr (sec_name sec1)), Word (sec_adjusted_vma sec1)] (s2, w);
         gdb_shdr_loop f ehdr shstrtab_faddr sec1 rest st3 } } }"

fun gdb_flash_loop :: "'w FILE \<Rightarrow> uld_section list \<Rightarrow> 'w pstate \<Rightarrow> 'w pstate option" where
  "gdb_flash_loop f [] st = Some st"
| "gdb_flash_loop f (sec # rest) st = do {
     c \<leftarrow> uld_strcmp (mem (fst st)) (Ptr (sec_name sec)) (lit ''.text'');
     st1 \<leftarrow> (if c \<noteq> 0
             then pr f '' -s %s 0x%p'' [Str (Ptr (sec_name sec)), Word (sec_adjusted_vma sec)] st
             else Some st);
     gdb_flash_loop f rest st1 }"

fun gdb_mem_loop :: "'w FILE \<Rightarrow> uld_section list \<Rightarrow> 'w pstate \<Rightarrow> 'w pstate option" where
  "gdb_mem_loop f [] st = Some st"
| "gdb_mem_loop f (sec # rest) st = do {
     st1 \<leftarrow> pr f '' -s %s 0x%p'' [Str (Ptr (sec_name sec)), Word (sec_adjusted_vma sec)] st;
     gdb_mem_loop f rest st1 }"

definition uld_fprint_gdb_sym_cmd ::
    "'w FILE option \<Rightarrow> uld_section \<Rightarrow> uld_file option \<Rightarrow> 'w pstate \<Rightarrow> (int \<times> 'w pstate) option" where
  "uld_fprint_gdb_sym_cmd stream stk ufile st =
     (case (stream, ufile) of
        (Some f, Some uf) \<Rightarrow> do {
          let s = fst st;
          let ehdr = fse_base (fse_at (mem s) (uf_fse uf));
          (ret, sec, s1) \<leftarrow> uld_file_copy_sec_by_name s uf stk (lit ''.text'') ULD_SECTION_FLAG_TYPE_FLASH;
          if ret \<noteq> 0 then Some (ret, (s1, snd st))
          else do {
            st2 \<leftarrow> pr f ''add-symbol-file %s 0x%p''
                     [Str (Ptr (fse_name (fse_at (mem s1) (uf_fse uf)))), Word (sec_adjusted_vma sec)] (s1, snd st);
            let m = mem (fst st2);
            st3 \<leftarrow> (if uf_flash uf = []
                    then let shstrtab = elf32_get_section_by_index m ehdr 0 (uint (e_shstrndx (ehdr_at m ehdr)));
                             shstrtab_faddr = elf32_get_section_flash_addr m shstrtab ehdr
                         in gdb_shdr_loop f ehdr shstrtab_faddr sec (elf32_for_each_shdr m ehdr) st2
                    else gdb_flash_loop f (uf_flash uf) st2);
            st4 \<leftarrow> gdb_mem_loop f (uf_mem uf) st3;
            st5 \<leftarrow> pr_putc f 10 st4;
            Some (0, st5) } }
      | _ \<Rightarrow> Some (- 1, st))"

fun gdb_cmd_loop ::
    "'w FILE \<Rightarrow> uld_section \<Rightarrow> uld_file list \<Rightarrow> 'w pstate \<Rightarrow> (int \<times> 'w pstate) option" where
  "gdb_cmd_loop f stk [] st = Some (0, st)"
| "gdb_cmd_loop f stk (uf # rest) st = do {
     (r, st1) \<leftarrow> uld_fprint_gdb_sym_cmd (Some f) stk (Some uf) st;
     if r \<noteq> 0 then Some (- 1, st1) else gdb_cmd_loop f stk rest st1 }"

definition uld_fprint_gdb_sym_cmd_list ::
    "'w FILE option \<Rightarrow> uld_section \<Rightarrow> uld_file list option \<Rightarrow> int \<Rightarrow> 'w pstate \<Rightarrow> (int \<times> 'w pstate) option" where
  "uld_fprint_gdb_sym_cmd_list stream stk ufile_list cnt st =
     (case (stream, ufile_list) of
        (Some f, Some l) \<Rightarrow> do {
          st1 \<leftarrow> pr_putc f 10 st;
          if nat cnt > length l then None
          else do {
            (r, st2) \<leftarrow> gdb_cmd_loop f stk (take (nat cnt) l) st1;
            if r \<noteq> 0 then Some (- 1, st2)
            else do { st3 \<leftarrow> pr_putc f 10 st2; Some (0, st3) } } }
      | _ \<Rightarrow> Some (- 1, st))"

partial_function (option) rofixups_loop ::
    "'w FILE \<Rightarrow> uld_section list list \<Rightarrow> uld_section \<Rightarrow> u32 \<Rightarrow> 'w pstate \<Rightarrow> 'w pstate option" where
  "rofixups_loop f sec_lists rofixup fixup_addr st =
     (if fixup_addr < sec_adjusted_lma rofixup + sh_size (shdr_at (mem (fst st)) (sec_shdr rofixup))
      then Option.bind (uld_section_find_in_lists_by_lma (mem (fst st)) sec_lists (ld32 (mem (fst st)) fixup_addr))
        (\<lambda>r. Option.bind
           (pr f (''  %p      %p      %s'' @ nl)
              [Word fixup_addr, Word (ld32 (mem (fst st)) fixup_addr),
               Str (case r of
                      Some (i, j) \<Rightarrow> if sec_name (sec_lists ! i ! j) \<noteq> 0 then Ptr (sec_name (sec_lists ! i ! j))
                                   else lit ''UNKNOWN''
                    | None \<Rightarrow> lit ''UNKNOWN'')] st)
           (rofixups_loop f sec_lists rofixup (fixup_addr + 4)))
      else Some st)"

definition uld_fprint_rofixups_sec_lists ::
    "'w FILE \<Rightarrow> uld_section list list \<Rightarrow> 'w pstate \<Rightarrow> (int \<times> 'w pstate) option" where
  "uld_fprint_rofixups_sec_lists f sec_lists st = do {
     r \<leftarrow> uld_section_find_in_lists_by_name (mem (fst st)) sec_lists (lit ''.rofixup'');
     case r of
       None \<Rightarrow> Some (- 1, st)
     | Some (i, j) \<Rightarrow> do {
         st1 \<leftarrow> pr_puts f (''Fixup table:'' @ nl) st;
         st2 \<leftarrow> pr_puts f (''  fixup_addr    *fixup_addr   fixup_sec'' @ nl) st1;
         st3 \<leftarrow> rofixups_loop f sec_lists (sec_lists ! i ! j) (sec_adjusted_lma (sec_lists ! i ! j)) st2;
         Some (0, st3) } }"

definition uld_fprint_rofixups_ufile ::
    "'w FILE \<Rightarrow> uld_file \<Rightarrow> 'w pstate \<Rightarrow> (int \<times> 'w pstate) option" where
  "uld_fprint_rofixups_ufile f uf st = uld_fprint_rofixups_sec_lists f (uf_secs uf) st"

definition uld_fprint_rofixups_ehdr ::
    "'w FILE \<Rightarrow> u32 \<Rightarrow> u32 \<Rightarrow> 'w pstate \<Rightarrow> (int \<times> 'w pstate) option" where
  "uld_fprint_rofixups_ehdr f ehdr base st = do {
     (snum, sec_list, s1) \<leftarrow> uld_load_create_sec_list (fst st) ehdr base
        (replicate ULD_FILE_SECTION_MAX uld_section_zero) (int ULD_FILE_SECTION_MAX) ULD_SECTION_FLAG_TYPE_ALL;
     if snum > 0
     then do { (r, st2) \<leftarrow> uld_fprint_rofixups_sec_lists f [take (nat snum) sec_list] (s1, snd st);
               Some (0, st2) }
     else Some (0, (s1, snd st)) }"

definition STT_NOTYPE :: u8 where "STT_NOTYPE = 0"
definition STB_LOCAL :: u8 where "STB_LOCAL = 0"
definition STB_GLOBAL :: u8 where "STB_GLOBAL = 1"
definition STV_DEFAULT :: u8 where "STV_DEFAULT = 0"
definition SHN_UNDEF :: u16 where "SHN_UNDEF = 0x0000"
definition SHN_ABS :: u16 where "SHN_ABS = 0xfff1"
definition R_ARM_GOTFUNCDESC :: u8 where "R_ARM_GOTFUNCDESC = 161"
definition R_ARM_GOTOFFFUNCDESC :: u8 where "R_ARM_GOTOFFFUNCDESC = 162"
definition ELF32_ST_BIND :: "u8 \<Rightarrow> u8" where "ELF32_ST_BIND i = drop_bit 4 i"
definition ELF32_ST_VISIBILITY :: "u8 \<Rightarrow> u8" where "ELF32_ST_VISIBILITY v = v AND 0x3"

definition local_dec :: "u32 \<Rightarrow> cstr" where
  "local_dec v =
     (let (n, buf) = uitoa (\<lambda>_. 0) local_buf v False
      in Lit (bytes buf (local_buf + of_nat UTIL_MIN_UITOA_BUF - word_of_int n - 1) (nat n)))"

definition local_hex :: "u32 \<Rightarrow> u8 list" where
  "local_hex v = (let (n, buf) = utohex_pad (\<lambda>_. 0) local_buf v 8 in bytes buf local_buf (UTIL_MIN_UTOHEX_BUF - 1))"

definition dyn_strs :: "mem \<Rightarrow> u32 \<Rightarrow> uld_section \<Rightarrow> bool \<Rightarrow> (cstr \<times> cstr) option" where
  "dyn_strs m dyn dynstr_sec all =
     (let d = dyn_at m dyn
      in if d_tag d = DT_NULL then Some (lit ''NULL)'', lit ''00000000'')
         else if d_tag d = DT_NEEDED then Some (lit ''NEEDED)'', Ptr (sec_adjusted_lma dynstr_sec + d_val d))
         else if all then Some (Lit (local_hex (d_tag d) @ [ch CHR '')'']), Lit (local_hex (d_val d)))
         else None)"

partial_function (option) dyn_print_loop ::
    "'w FILE \<Rightarrow> uld_section \<Rightarrow> bool \<Rightarrow> u32 \<Rightarrow> 'w pstate \<Rightarrow> 'w pstate option" where
  "dyn_print_loop f dynstr_sec all dyn st =
     (if d_tag (dyn_at (mem (fst st)) dyn) \<noteq> DT_NULL
      then Option.bind
        (case dyn_strs (mem (fst st)) dyn dynstr_sec all of
           Some (type_ptr, val_ptr) \<Rightarrow>
             pr f (''[<%p>]  %08lx  (%-20s %s'' @ nl)
               [Word dyn, Word (d_tag (dyn_at (mem (fst st)) dyn)), Str type_ptr, Str val_ptr] st
         | None \<Rightarrow> Some st)
        (dyn_print_loop f dynstr_sec all (dyn + 8))
      else Some st)"

definition uld_fprint_dyn ::
    "'w FILE \<Rightarrow> uld_file option \<Rightarrow> bool \<Rightarrow> 'w pstate \<Rightarrow> (int \<times> 'w pstate) option" where
  "uld_fprint_dyn f ufile all st =
     (case ufile of
        None \<Rightarrow> Some (- 1, st)
      | Some uf \<Rightarrow> do {
          dyn_sec \<leftarrow> uld_file_get_sec_dynamic (mem (fst st)) uf;
          dynstr_sec \<leftarrow> uld_file_get_sec_dynstr (mem (fst st)) uf;
          case (dyn_sec, dynstr_sec) of
            (Some ds, Some ss) \<Rightarrow> do {
              st1 \<leftarrow> pr_puts f (''Dynamic table:'' @ nl) st;
              st2 \<leftarrow> pr_puts f ('' dyn          tag       type                  val'' @ nl) st1;
              st3 \<leftarrow> dyn_print_loop f ss all (sec_adjusted_lma ds) st2;
              Some (0, st3) }
          | _ \<Rightarrow> Some (- 1, st) })"

definition dynsym_strs :: "elf32_sym \<Rightarrow> cstr \<times> cstr \<times> cstr \<times> cstr" where
  "dynsym_strs esym =
     (let ty = ELF32_ST_TYPE (st_info esym); bd = ELF32_ST_BIND (st_info esym);
          vs = ELF32_ST_VISIBILITY (st_other esym); ndx = st_shndx esym
      in (if ty = STT_NOTYPE then lit ''NOTYPE'' else if ty = STT_OBJECT then lit ''OBJECT''
          else if ty = STT_FUNC then lit ''FUNC'' else if ty = STT_SECTION then lit ''SECTION''
          else local_dec (ucast ty),
          if bd = STB_LOCAL then lit ''LOCAL'' else if bd = STB_GLOBAL then lit ''GLOBAL''
          else local_dec (ucast bd),
          if vs = STV_DEFAULT then lit ''DEFAULT'' else local_dec (ucast vs),
          if ndx = SHN_UNDEF then lit ''UND'' else if ndx = SHN_ABS then lit ''ABS''
          else local_dec (ucast ndx)))"

fun dynsym_print_loop ::
    "'w FILE \<Rightarrow> uld_section \<Rightarrow> u32 \<Rightarrow> nat \<Rightarrow> nat \<Rightarrow> 'w pstate \<Rightarrow> 'w pstate option" where
  "dynsym_print_loop f dynstr_sec esym idx 0 st = Some st"
| "dynsym_print_loop f dynstr_sec esym idx (Suc n) st =
     (let m = mem (fst st); y = sym_at m esym
      in case dynsym_strs y of (type_ptr, bind_ptr, vis_ptr, ndx_ptr) \<Rightarrow> do {
        st1 \<leftarrow> pr f (''%5d: %08lx %5d %-7s %-6s %-8s %3s %s'' @ nl)
          [Word (of_nat idx), Word (st_value y), Word (st_size y), Str type_ptr, Str bind_ptr, Str vis_ptr,
           Str ndx_ptr, Str (Ptr (uld_dyn_get_sym_name m esym dynstr_sec))] st;
        dynsym_print_loop f dynstr_sec (esym + 16) (Suc idx) n st1 })"

definition uld_fprint_dynsym ::
    "'w FILE \<Rightarrow> uld_file option \<Rightarrow> 'w pstate \<Rightarrow> (int \<times> 'w pstate) option" where
  "uld_fprint_dynsym f ufile st =
     (case ufile of
        None \<Rightarrow> Some (- 1, st)
      | Some uf \<Rightarrow> do {
          dynsym_sec \<leftarrow> uld_file_get_sec_dynsym (mem (fst st)) uf;
          dynstr_sec \<leftarrow> uld_file_get_sec_dynstr (mem (fst st)) uf;
          case (dynsym_sec, dynstr_sec) of
            (Some ys, Some ss) \<Rightarrow> do {
              st1 \<leftarrow> pr_puts f (''Dynamic symbol table:'' @ nl) st;
              st2 \<leftarrow> pr_puts f (''  idx: addr      size type    bind   vis      ndx name'' @ nl) st1;
              st3 \<leftarrow> dynsym_print_loop f ss (sec_adjusted_lma ys) 0
                       (uld_dyn_get_dynsym_count_sec (mem (fst st2)) ys) st2;
              Some (0, st3) }
          | _ \<Rightarrow> Some (- 1, st) })"

definition rel_type_str :: "u8 \<Rightarrow> cstr" where
  "rel_type_str ty =
     (if ty = R_ARM_ABS32 then lit ''ABS32'' else if ty = R_ARM_RELATIVE then lit ''RELATIVE''
      else if ty = R_ARM_GLOB_DAT then lit ''GLOB_DAT'' else if ty = R_ARM_GOTFUNCDESC then lit ''GOTFUNCDESC''
      else if ty = R_ARM_GOTOFFFUNCDESC then lit ''GOTOFFFUNCDESC''
      else if ty = R_ARM_FUNCDESC then lit ''FUNCDESC''
      else if ty = R_ARM_FUNCDESC_VALUE then lit ''FUNCDESC_VALUE''
      else Lit (local_hex (ucast ty)))"

definition rel_sym_sec_name :: "uld_file \<Rightarrow> u16 \<Rightarrow> cstr" where
  "rel_sym_sec_name uf ndx =
     (if ndx = SHN_UNDEF then lit ''UND'' else if ndx = SHN_ABS then lit ''ABS''
      else case uld_file_get_sec_by_index uf (uint ndx) ULD_SECTION_FLAG_TYPE_ALL of
             Some p \<Rightarrow> Ptr (sec_name (uf_sec uf p))
           | None \<Rightarrow> lit ''UNKNOWN'')"

fun rel_print_loop ::
    "'w FILE \<Rightarrow> uld_file \<Rightarrow> uld_section \<Rightarrow> uld_section \<Rightarrow> u32 \<Rightarrow> nat \<Rightarrow> 'w pstate \<Rightarrow> 'w pstate option" where
  "rel_print_loop f uf dynsym_sec dynstr_sec rel 0 st = Some st"
| "rel_print_loop f uf dynsym_sec dynstr_sec rel (Suc n) st =
     (let m = mem (fst st); r = rel_at m rel;
          esym = uld_dyn_get_dynsym_by_index_sec (ELF32_R_SYM (r_info r)) dynsym_sec
      in do {
        st1 \<leftarrow> pr f (''[<%p>] %08lx %-17s %s (%s)'' @ nl)
          [Word rel, Word (r_info r), Str (rel_type_str (ELF32_R_TYPE (r_info r))),
           Str (Ptr (uld_dyn_get_sym_name m esym dynstr_sec)),
           Str (rel_sym_sec_name uf (st_shndx (sym_at m esym)))] st;
        let m1 = mem (fst st1);
        let off = r_offset (rel_at m1 rel);
        sec \<leftarrow> uld_section_find_in_lists_by_lma m1 (uf_secs uf) off;
        let off_vma = (case sec of Some p \<Rightarrow> uld_section_lma_to_adjusted_vma m1 (uf_sec uf p) off | None \<Rightarrow> 0);
        let off_val = (if off_vma \<noteq> 0 then ld32 m1 off_vma else 0);
        st2 \<leftarrow> pr f (''             %08lx %p %08lx %s'' @ nl)
          [Word off, Word off_vma, Word off_val,
           Str (case sec of Some p \<Rightarrow> Ptr (sec_name (uf_sec uf p)) | None \<Rightarrow> lit ''UNKNOWN'')] st1;
        rel_print_loop f uf dynsym_sec dynstr_sec (rel + 8) n st2 })"

definition uld_fprint_rel_dyn ::
    "'w FILE \<Rightarrow> uld_file option \<Rightarrow> 'w pstate \<Rightarrow> (int \<times> 'w pstate) option" where
  "uld_fprint_rel_dyn f ufile st =
     (case ufile of
        None \<Rightarrow> Some (- 1, st)
      | Some uf \<Rightarrow> do {
          rel_dyn_sec \<leftarrow> uld_file_get_sec_rel_dyn (mem (fst st)) uf;
          dynsym_sec \<leftarrow> uld_file_get_sec_dynsym (mem (fst st)) uf;
          dynstr_sec \<leftarrow> uld_file_get_sec_dynstr (mem (fst st)) uf;
          case (rel_dyn_sec, dynsym_sec, dynstr_sec) of
            (Some rs, Some ys, Some ss) \<Rightarrow> do {
              st1 \<leftarrow> pr_puts f (''Relocation table:'' @ nl) st;
              st2 \<leftarrow> pr_puts f ('' rel         info     type              name (sec)'' @ nl) st1;
              st3 \<leftarrow> pr_puts f (''             off      off_vma  value    off_sec'' @ nl) st2;
              st4 \<leftarrow> rel_print_loop f uf ys ss (sec_adjusted_lma rs)
                       (uld_dyn_get_rel_dyn_count_sec (mem (fst st3)) rs) st3;
              Some (0, st4) }
          | _ \<Rightarrow> Some (- 1, st) })"

subsection \<open>Printing only reads\<close>

lemma pr_mem: "pr f x ap st = Some st' \<Longrightarrow> mem (fst st') = mem (fst st)"
  by (auto simp: pr_def uld_fprintf_def Option.bind_eq_Some_conv split: prod.splits dest: vfprintf_mem)

lemma pr_puts_mem: "pr_puts f x st = Some st' \<Longrightarrow> mem (fst st') = mem (fst st)"
  by (auto simp: pr_puts_def Option.bind_eq_Some_conv split: prod.splits)

lemma pr_putc_mem: "pr_putc f c st = Some st' \<Longrightarrow> mem (fst st') = mem (fst st)"
  by (auto simp: pr_putc_def Option.bind_eq_Some_conv split: prod.splits)

lemmas print_mems = pr_mem pr_puts_mem pr_putc_mem

lemma print_section_mem: "uld_fprint_section f x st = Some (r, st') \<Longrightarrow> mem (fst st') = mem (fst st)"
  by (auto simp: uld_fprint_section_def Let_def Option.bind_eq_Some_conv split: option.splits dest!: print_mems)

lemma print_secs_mem: "print_secs f xs st = Some st' \<Longrightarrow> mem (fst st') = mem (fst st)"
  by (induction xs arbitrary: st) (fastforce simp: Option.bind_eq_Some_conv dest: print_section_mem)+

lemma print_section_list_mem:
  "uld_fprint_section_list f xs n b st = Some (r, st') \<Longrightarrow> mem (fst st') = mem (fst st)"
  by (auto simp: uld_fprint_section_list_def Option.bind_eq_Some_conv split: option.splits if_splits
      dest!: print_mems print_secs_mem)

lemma print_sec_lists_mem: "print_sec_lists f ls st = Some st' \<Longrightarrow> mem (fst st') = mem (fst st)"
  by (induction ls arbitrary: st)
    (fastforce simp: Option.bind_eq_Some_conv split: if_splits dest: print_section_list_mem)+

lemma print_section_file_mem:
  "uld_fprint_section_file f uf st = Some (r, st') \<Longrightarrow> mem (fst st') = mem (fst st)"
  by (auto simp: uld_fprint_section_file_def Option.bind_eq_Some_conv split: option.splits
      dest!: print_mems print_sec_lists_mem)

lemma dynsym_print_loop_mem:
  "dynsym_print_loop f ss esym idx n st = Some st' \<Longrightarrow> mem (fst st') = mem (fst st)"
proof (induction n arbitrary: esym idx st)
  case (Suc n)
  obtain a b c d where e: "dynsym_strs (sym_at (mem (fst st)) esym) = (a, b, c, d)" by (metis surj_pair)
  show ?case
    using Suc.prems unfolding dynsym_print_loop.simps Let_def e prod.case
    by (elim bind_SomeE) (simp only: Suc.IH pr_mem)
qed simp

lemma rel_print_loop_mem:
  "rel_print_loop f uf ys ss rel n st = Some st' \<Longrightarrow> mem (fst st') = mem (fst st)"
proof (induction n arbitrary: rel st)
  case (Suc n)
  show ?case
    using Suc.prems unfolding rel_print_loop.simps Let_def
    by (elim bind_SomeE) (simp only: Suc.IH pr_mem)
qed simp

lemma dyn_print_loop_mem:
  assumes "dyn_print_loop f ss al dyn st = Some r"
  shows "mem (fst r) = mem (fst st)"
proof (rule dyn_print_loop.raw_induct [where P = "\<lambda>f ss al dyn st r. mem (fst r) = mem (fst st)", OF _ assms], goal_cases)
  case (1 lp f ss al dyn st r)
  show ?case
  proof (cases "d_tag (dyn_at (mem (fst st)) dyn) = DT_NULL")
    case True
    then show ?thesis using 1(2) by simp
  next
    case False
    then have ne: "d_tag (dyn_at (mem (fst st)) dyn) \<noteq> DT_NULL" by simp
    show ?thesis
      using 1(2) unfolding if_P [OF ne]
      by (elim bind_SomeE) (drule 1(1), cases "dyn_strs (mem (fst st)) dyn ss al", auto dest: pr_mem)
  qed
qed

lemma rofixups_loop_mem:
  assumes "rofixups_loop f ls x a st = Some r"
  shows "mem (fst r) = mem (fst st)"
proof (rule rofixups_loop.raw_induct [where P = "\<lambda>f ls x a st r. mem (fst r) = mem (fst st)", OF _ assms], goal_cases)
  case (1 lp f ls x a st r)
  show ?case
  proof (cases "a < sec_adjusted_lma x + sh_size (shdr_at (mem (fst st)) (sec_shdr x))")
    case False
    then show ?thesis using 1(2) by simp
  next
    case True
    then show ?thesis
      using 1(2) unfolding if_P [OF True] by (elim bind_SomeE) (drule pr_mem, drule 1(1), simp)
  qed
qed


definition keeps_mem :: "(int \<times> 'w pstate) option \<Rightarrow> 'w pstate \<Rightarrow> bool" where
  "keeps_mem res st = (case res of Some (r, st') \<Rightarrow> mem (fst st') = mem (fst st) | None \<Rightarrow> True)"

lemma keeps_ret: "mem (fst st') = mem (fst st) \<Longrightarrow> keeps_mem (Some (r, st')) st"
  by (simp add: keeps_mem_def)

lemma keeps_bind: "(\<And>x. a = Some x \<Longrightarrow> keeps_mem (g x) st) \<Longrightarrow> keeps_mem (Option.bind a g) st"
  by (cases a) (simp_all add: keeps_mem_def)

lemma fprint_section_file_keeps: "keeps_mem (uld_fprint_section_file stream ufile st) st"
  using print_section_file_mem [of stream ufile st]
  by (cases "uld_fprint_section_file stream ufile st") (auto simp: keeps_mem_def)

lemma fprint_dyn_mem: "keeps_mem (uld_fprint_dyn f ufile al st) st"
  unfolding uld_fprint_dyn_def
  by (auto intro!: keeps_bind keeps_ret split: option.split dest!: print_mems dyn_print_loop_mem)

lemma fprint_dynsym_mem: "keeps_mem (uld_fprint_dynsym f ufile st) st"
  unfolding uld_fprint_dynsym_def
  by (auto intro!: keeps_bind keeps_ret split: option.split dest!: print_mems dynsym_print_loop_mem)

lemma fprint_rel_dyn_mem: "keeps_mem (uld_fprint_rel_dyn f ufile st) st"
  unfolding uld_fprint_rel_dyn_def
  by (auto intro!: keeps_bind keeps_ret split: option.split dest!: print_mems rel_print_loop_mem)

lemma fprint_rofixups_mem: "keeps_mem (uld_fprint_rofixups_ufile f uf st) st"
  unfolding uld_fprint_rofixups_ufile_def uld_fprint_rofixups_sec_lists_def
  by (auto intro!: keeps_bind keeps_ret split: option.split dest!: print_mems rofixups_loop_mem)

lemma create_section_mem:
  "uld_load_create_section s sec0 ehdr base shdr i str = Some (r, sec, s') \<Longrightarrow> mem s' = mem s"
  using create_section_ex [of "mem s" sec0 ehdr base shdr i str] by auto

lemma copy_sec_mem: "uld_file_copy_sec_by_name s uf sec name tmask = Some (r, sec', s') \<Longrightarrow> mem s' = mem s"
  unfolding uld_file_copy_sec_by_name_def Let_def
  by (auto split: if_splits option.splits elim!: bind_SomeE dest!: create_section_mem)

lemma gdb_shdr_loop_mem: "gdb_shdr_loop f ehdr str sec l st = Some st' \<Longrightarrow> mem (fst st') = mem (fst st)"
proof (induction l arbitrary: st sec)
  case (Cons x l)
  obtain i h s w where x: "x = (i, h)" "st = (s, w)" by (metis surj_pair)
  show ?case using Cons.prems unfolding x gdb_shdr_loop.simps Let_def
    by (auto simp: get_type_eq split: if_splits elim!: bind_SomeE dest!: Cons.IH pr_mem create_section_mem)
qed simp

lemma gdb_flash_loop_mem: "gdb_flash_loop f l st = Some st' \<Longrightarrow> mem (fst st') = mem (fst st)"
  by (induction l arbitrary: st) (fastforce split: if_splits elim!: bind_SomeE dest: pr_mem)+

lemma gdb_mem_loop_mem: "gdb_mem_loop f l st = Some st' \<Longrightarrow> mem (fst st') = mem (fst st)"
  by (induction l arbitrary: st) (fastforce elim!: bind_SomeE dest: pr_mem)+

lemma gdb_sym_cmd_mem: "uld_fprint_gdb_sym_cmd stream stk ufile st = Some (r, st') \<Longrightarrow> mem (fst st') = mem (fst st)"
  unfolding uld_fprint_gdb_sym_cmd_def Let_def
  by (auto split: option.splits if_splits elim!: bind_SomeE
      dest!: pr_mem pr_putc_mem copy_sec_mem gdb_shdr_loop_mem gdb_flash_loop_mem gdb_mem_loop_mem)

lemma gdb_cmd_loop_mem: "gdb_cmd_loop f stk l st = Some (r, st') \<Longrightarrow> mem (fst st') = mem (fst st)"
  by (induction l arbitrary: st) (fastforce split: if_splits elim!: bind_SomeE dest: gdb_sym_cmd_mem)+

lemma gdb_sym_cmd_list_mem:
  "uld_fprint_gdb_sym_cmd_list stream stk ufiles cnt st = Some (r, st') \<Longrightarrow> mem (fst st') = mem (fst st)"
  unfolding uld_fprint_gdb_sym_cmd_list_def
  by (auto split: option.splits if_splits elim!: bind_SomeE dest!: pr_putc_mem gdb_cmd_loop_mem)

end
