(* ===== verification/Exec.thy ===== *)
theory Exec
  imports DynDeps DynLink Reloc Print
begin

text \<open>\<open>src/uld_exec.c\<close>, \<open>uld_dyn_exec_fse\<close> of \<open>src/uld_dyn.c\<close>, \<open>src/uld.c\<close> and \<open>src/uld_init.c\<close>: initialisation functions, entry
  and the boot selection.\<close>

record uld_env =
  env_bss_end :: u32
  env_pstore :: u32
  env_estack :: u32
  env_stk_sec :: uld_section
  env_stk_res :: uld_dyn_resolution
  env_stk_ptr :: u32
  env_out :: "unit FILE"
  env_verbose :: int
  env_call_fp :: "u32 \<Rightarrow> u32 \<Rightarrow> machine \<Rightarrow> machine option"
  env_call_entry :: "u32 \<Rightarrow> u32 \<Rightarrow> int \<Rightarrow> cstr list option \<Rightarrow> u32 \<Rightarrow> machine \<Rightarrow> (int \<times> machine) option"

partial_function (option) call_array_loop ::
    "(u32 \<Rightarrow> machine \<Rightarrow> machine option) \<Rightarrow> u32 \<Rightarrow> u32 \<Rightarrow> machine \<Rightarrow> machine option" where
  "call_array_loop call arr_start arr_end s =
     (if arr_start < arr_end
      then Option.bind (if arr_start \<noteq> 0 then call (ld32 (mem s) arr_start) s else Some s)
             (\<lambda>s1. call_array_loop call (arr_start + 4) arr_end s1)
      else Some s)"

definition uld_exec_call_vv_fp_array ::
    "(u32 \<Rightarrow> machine \<Rightarrow> machine option) \<Rightarrow> u32 \<Rightarrow> u32 \<Rightarrow> machine \<Rightarrow> machine option" where
  "uld_exec_call_vv_fp_array call arr_start arr_end s =
     (if arr_start = 0 \<or> arr_end = 0 then Some s else call_array_loop call arr_start arr_end s)"

definition uld_exec_call_vv_fp_array_fdpic_base ::
    "uld_env \<Rightarrow> u32 \<Rightarrow> u32 \<Rightarrow> u32 \<Rightarrow> machine \<Rightarrow> machine option" where
  "uld_exec_call_vv_fp_array_fdpic_base env arr_start arr_end fdpic_base s =
     (if arr_start = 0 \<or> arr_end = 0 then Some s
      else call_array_loop (\<lambda>fp. env_call_fp env fp fdpic_base) arr_start arr_end s)"

definition uld_exec_init_section_list :: "cstr list" where
  "uld_exec_init_section_list = [Lit (map of_char ''.preinit_array''), Lit (map of_char ''.init_array'')]"

fun init_funcs_loop :: "uld_env \<Rightarrow> u32 \<Rightarrow> u32 \<Rightarrow> cstr list \<Rightarrow> machine \<Rightarrow> machine option" where
  "init_funcs_loop env ehdr fdpic_base [] s = Some s"
| "init_funcs_loop env ehdr fdpic_base (name # rest) s = do {
     init_shdr \<leftarrow> elf32_get_section_by_name (mem s) ehdr 0 name;
     if init_shdr = 0 then init_funcs_loop env ehdr fdpic_base rest s
     else do {
       let arr_start = elf32_get_section_flash_addr (mem s) init_shdr ehdr;
       s1 \<leftarrow> uld_exec_call_vv_fp_array_fdpic_base env arr_start
              (arr_start + 4 * (sh_size (shdr_at (mem s) init_shdr) div 4)) fdpic_base s;
       init_funcs_loop env ehdr fdpic_base rest s1 } }"

definition uld_exec_elf_call_init_funcs :: "uld_env \<Rightarrow> uld_file \<Rightarrow> machine \<Rightarrow> (int \<times> machine) option" where
  "uld_exec_elf_call_init_funcs env uf s = do {
     s1 \<leftarrow> init_funcs_loop env (fse_base (fse_at (mem s) (uf_fse uf))) (uf_membase uf)
            uld_exec_init_section_list s;
     Some (0, s1) }"

definition uld_exec_file ::
    "uld_env \<Rightarrow> uld_file \<Rightarrow> u32 \<Rightarrow> int \<Rightarrow> cstr list option \<Rightarrow> machine \<Rightarrow> (int \<times> machine) option" where
  "uld_exec_file env uf sp_base argc argv s =
     (if argc < 0 \<or> (argc \<noteq> 0 \<and> argv = None) then Some (- 1, s)
      else let entryfp = elf32_get_adjusted_entry (mem s) (fse_base (fse_at (mem s) (uf_fse uf))) 0;
               sp = sp_base AND NOT 7
           in env_call_entry env entryfp sp argc argv (uf_membase uf) (swbkpt s))"

fun call_all_init_funcs :: "uld_env \<Rightarrow> uld_file list \<Rightarrow> machine \<Rightarrow> machine option" where
  "call_all_init_funcs env [] s = Some s"
| "call_all_init_funcs env (uf # rest) s = do {
     (ret, s1) \<leftarrow> uld_exec_elf_call_init_funcs env uf s;
     call_all_init_funcs env rest s1 }"

fun dump_tables :: "unit FILE \<Rightarrow> int \<Rightarrow> uld_file list \<Rightarrow> unit pstate \<Rightarrow> unit pstate option" where
  "dump_tables f verbose [] st = Some st"
| "dump_tables f verbose (uf # rest) st = do {
     st1 \<leftarrow> pr f (nl @ ''Dumping %s tables:'' @ nl) [Str (Ptr (fse_name (fse_at (mem (fst st)) (uf_fse uf))))] st;
     st4 \<leftarrow> (if verbose \<ge> 2
             then do {
               (r, st2) \<leftarrow> uld_fprint_section_file (Some f) (Some uf) st1;
               (r, st3) \<leftarrow> uld_fprint_dyn f (Some uf) True st2;
               (r, st4) \<leftarrow> uld_fprint_dynsym f (Some uf) st3;
               Some st4 }
             else Some st1);
     (r, st5) \<leftarrow> uld_fprint_rel_dyn f (Some uf) st4;
     dump_tables f verbose rest st5 }"

definition exec_dump :: "uld_env \<Rightarrow> int \<Rightarrow> uld_file list \<Rightarrow> machine \<Rightarrow> machine option" where
  "exec_dump env dep_count ufile_list s =
     (if env_verbose env = 0 then Some s
      else if nat dep_count > length ufile_list then None
      else do {
        st1 \<leftarrow> dump_tables (env_out env) (env_verbose env) (take (nat dep_count) ufile_list) (s, ());
        st2 \<leftarrow> pr_puts (env_out env) (nl @ nl) st1;
        Some (fst st2) })"

definition uld_dyn_exec_fse ::
    "uld_env \<Rightarrow> u32 \<Rightarrow> u32 \<Rightarrow> int \<Rightarrow> cstr list option \<Rightarrow> machine \<Rightarrow> (int \<times> machine) option" where
  "uld_dyn_exec_fse env fse sp_base argc argv s = do {
     (dep_count, s1) \<leftarrow> uld_dyn_get_fse_dep_count s (env_stk_sec env) (env_pstore env) fse;
     if dep_count < 0 then None
     else do {
       (ret1, dep_list, s2) \<leftarrow> uld_dyn_create_fse_dep_list s1 (env_stk_sec env) (env_pstore env) fse []
                                 dep_count;
       (sec_count, s3) \<leftarrow> uld_dyn_get_dep_list_sec_count s2 dep_list dep_count
          (ULD_SECTION_FLAG_TYPE_FLASH OR ULD_SECTION_FLAG_TYPE_MEM OR ULD_SECTION_FLAG_TYPE_DYNAMIC);
       (ret2, ufile_list, membase, allocated, s4) \<leftarrow>
         uld_dyn_load_fse_dep_list (env_bss_end env) s3 (env_stk_sec env) dep_list sec_count 0 0;
       s4' \<leftarrow> exec_dump env dep_count ufile_list s4;
       (ret3, l) \<leftarrow> uld_dyn_link_file_list s4' (env_stk_res env) ufile_list (membase + allocated);
       (ret4, out) \<leftarrow> uld_fprint_gdb_sym_cmd_list (Some (env_out env)) (env_stk_sec env) (Some ufile_list)
                        (int (length dep_list)) (ls_mach l, ());
       s5 \<leftarrow> call_all_init_funcs env ufile_list (swbkpt (fst out));
       uf \<leftarrow> ufile_at ufile_list (int (length dep_list) - 1);
       (ret5, s6) \<leftarrow> uld_exec_file env uf sp_base argc argv s5;
       Some (0, s6) } }"

definition main_str :: "string \<Rightarrow> cstr" where "main_str x = Lit (map of_char x)"

definition uld_main_select ::
    "uld_env \<Rightarrow> u32 \<Rightarrow> machine \<Rightarrow> cstr \<times> cstr option \<times> u32 \<times> int \<times> cstr list option \<times> machine" where
  "uld_main_select env action s =
     (if action = 0 then (main_str ''hello_world_static.elf'', None, 0, 0, None, s)
      else if action = 1 \<or> action = 2
        then (main_str ''hello_world.elf'', Some (main_str ''hello_world.elf''), 0, 3,
              Some (map main_str [''moved'', ''hello'', ''world'']), s)
      else if action = 3
        then (main_str ''dyn_test.elf'', None, 0, 2, Some (map main_str [''woof'', ''bark'']), s)
      else if action = 4 then (main_str ''dyn_test.elf'', None, 0, 0, None, s)
      else if action = 5
        then (main_str ''dyn_test.elf'', Some (main_str ''libexc.so''), 0, 2,
              Some (map main_str [''moved'', ''libexc.so'']), s)
      else if action = 6
        then (main_str ''dyn_test.elf'', None, env_estack env, 2,
              Some (map main_str [''stack'', ''reset'']), s)
      else (Ptr (env_stk_ptr env), None, 0, 0, None, swbkpt s))"

definition uld_main_verbose :: "int \<Rightarrow> u32 \<Rightarrow> int" where
  "uld_main_verbose verbose action =
     (if action = 1 then 1 else if action = 4 then 2 else if action = 5 then 1 else verbose)"

definition uld_main :: "uld_env \<Rightarrow> machine \<Rightarrow> machine option" where
  "uld_main env s = (let pstore = env_pstore env; action = boot_action (pstore_at (mem s) pstore) in
     case uld_main_select env action s of
       (exec_name, move_name, sp_base, argc, argv, s1) \<Rightarrow> do {
         exec_fse \<leftarrow> uld_fs_get_file_by_name (mem s1) (fst_head (pstore_at (mem s1) pstore)) exec_name;
         let s2 = (if exec_fse = 0 then swbkpt s1 else s1);
         s3 \<leftarrow> (case move_name of
                  None \<Rightarrow> Some s2
                | Some nm \<Rightarrow> do {
                    move_fse \<leftarrow> uld_fs_get_file_by_name (mem s2) (fst_head (pstore_at (mem s2) pstore)) nm;
                    let s2' = (if move_fse = 0 then swbkpt s2 else s2);
                    dest \<leftarrow> uld_fs_find_free_space (mem s2') pstore (fse_size (fse_at (mem s2') move_fse));
                    (ret, s2'') \<leftarrow> uld_reloc_move_fse s2' (env_stk_sec env)
                      (replicate ULD_FILE_SECTION_MAX (env_stk_sec env)) uld_file_zero pstore move_fse dest;
                    Some s2'' });
         (ret, s4) \<leftarrow> uld_dyn_exec_fse (env\<lparr>env_verbose := uld_main_verbose (env_verbose env) action\<rparr>)
                        exec_fse sp_base argc argv s3;
         Some (swbkpt s4) })"

definition uld_start_init ::
    "(u32 \<Rightarrow> machine \<Rightarrow> machine option) \<Rightarrow> u32 \<Rightarrow> u32 \<Rightarrow> u32 \<Rightarrow> u32 \<Rightarrow> machine \<Rightarrow> machine option" where
  "uld_start_init call preinit_start preinit_end init_start init_end s = do {
     s1 \<leftarrow> uld_exec_call_vv_fp_array call preinit_start preinit_end s;
     s2 \<leftarrow> uld_exec_call_vv_fp_array call init_start init_end s1;
     Some s2 }"

section \<open>The order of the initialisation calls\<close>

text \<open>The words of an array of function pointers, and the calls of its functions one after the other, up to the first
  that does not return.\<close>

fun word_list :: "mem \<Rightarrow> u32 \<Rightarrow> nat \<Rightarrow> u32 list" where
  "word_list m p 0 = []"
| "word_list m p (Suc n) = ld32 m p # word_list m (p + 4) n"

fun run_calls :: "('a \<Rightarrow> machine \<Rightarrow> machine option) \<Rightarrow> 'a list \<Rightarrow> machine \<Rightarrow> machine option" where
  "run_calls call [] s = Some s"
| "run_calls call (fp # fps) s = Option.bind (call fp s) (run_calls call fps)"

lemma run_calls_append: "run_calls call (xs @ ys) s = Option.bind (run_calls call xs s) (run_calls call ys)"
  by (induction xs arbitrary: s) (auto split: bind_split)

text \<open>What the functions that are called may write: addresses of \<open>W\<close> only.\<close>

definition writes_only :: "u32 set \<Rightarrow> ('a \<Rightarrow> machine \<Rightarrow> machine option) \<Rightarrow> bool" where
  "writes_only W call \<longleftrightarrow> (\<forall>fp s s'. call fp s = Some s' \<longrightarrow> agrees_off W (mem s) (mem s'))"

lemma run_calls_writes: "writes_only W call \<Longrightarrow> run_calls call fps s = Some s' \<Longrightarrow> agrees_off W (mem s) (mem s')"
proof (induction fps arbitrary: s)
  case (Cons fp fps)
  then obtain s1 where "call fp s = Some s1" "run_calls call fps s1 = Some s'" by (auto elim!: bind_SomeE)
  then show ?case using Cons agrees_off_trans unfolding writes_only_def by blast
qed (simp add: agrees_off_refl)

lemma rng_word_tail: "unat p + 4 * Suc n < 2 ^ 32 \<Longrightarrow> rng p 4 \<subseteq> rng p (4 * Suc n) \<and> rng (p + 4) (4 * n) \<subseteq> rng p (4 * Suc n)"
  using rng_sub [of 4 "4 * Suc n" p] rng_mono [of 4 "4 * Suc n" p] by simp

lemma word_list_cong:
  "agrees_off W m m' \<Longrightarrow> rng p (4 * n) \<inter> W = {} \<Longrightarrow> unat p + 4 * n < 2 ^ 32 \<Longrightarrow> word_list m' p n = word_list m p n"
proof (induction n arbitrary: p)
  case (Suc n)
  note sub = rng_word_tail [OF Suc.prems(3)]
  then have "a \<notin> W" if "a \<in> rng p 4" for a using Suc.prems(2) that by blast
  then have "ld32 m' p = ld32 m p" using Suc.prems(1) by (intro ld32_cong) (simp add: agrees_off_def)
  moreover have "unat (p + 4) + 4 * n < 2 ^ 32" using Suc.prems(3) by (simp add: unat_word_ariths)
  ultimately show ?case using Suc.prems(1,2) sub by (auto intro!: Suc.IH)
qed simp

lemma call_array_loop_run:
  assumes "writes_only W call" "rng p (4 * n) \<inter> W = {}" "0 < n \<Longrightarrow> p \<noteq> 0" "unat p + 4 * n < 2 ^ 32"
  shows "call_array_loop call p (p + 4 * of_nat n) s = run_calls call (word_list (mem s) p n) s"
  using assms
proof (induction n arbitrary: p s)
  case 0
  then show ?case by (subst call_array_loop.simps) simp
next
  case (Suc n)
  note sub = rng_word_tail [OF Suc.prems(4)]
  have lt: "p < p + 4 * of_nat (Suc n)"
    using Suc.prems(4) by (simp add: word_less_nat_alt unat_word_ariths unat_of_nat)
  have p4: "unat (p + 4) = unat p + 4" using Suc.prems(4) by (simp add: unat_word_ariths)
  then have nz: "p + 4 \<noteq> 0" by (metis add_is_0 unat_0 zero_neq_numeral)
  have step: "call_array_loop call (p + 4) (p + 4 + 4 * of_nat n) s1 = run_calls call (word_list (mem s) (p + 4) n) s1"
    if "call fp s = Some s1" for fp s1
  proof -
    have "word_list (mem s1) (p + 4) n = word_list (mem s) (p + 4) n"
      using that Suc.prems p4 sub unfolding writes_only_def by (intro word_list_cong) auto
    then show ?thesis using Suc.IH [of "p + 4" s1] Suc.prems sub p4 nz by auto
  qed
  show ?case
    using lt Suc.prems(3) step by (subst call_array_loop.simps) (auto simp: algebra_simps split: bind_split)
qed

text \<open>Where the table of an initialisation section of a file is and how many functions it has; the calls of a file and
  of a list of files, as function and static base.\<close>

definition init_array :: "mem \<Rightarrow> u32 \<Rightarrow> cstr \<Rightarrow> (u32 \<times> nat) option" where
  "init_array m ehdr name = do {
     h \<leftarrow> elf32_get_section_by_name m ehdr 0 name;
     Some (if h = 0 then (0, 0) else (elf32_get_section_flash_addr m h ehdr, unat (sh_size (shdr_at m h)) div 4)) }"

definition init_entries :: "mem \<Rightarrow> u32 \<Rightarrow> u32 \<Rightarrow> cstr \<Rightarrow> (u32 \<times> u32) list" where
  "init_entries m ehdr b name =
     (case init_array m ehdr name of Some (p, n) \<Rightarrow> map (\<lambda>fp. (fp, b)) (word_list m p n) | None \<Rightarrow> [])"

definition file_ehdr :: "mem \<Rightarrow> uld_file \<Rightarrow> u32" where
  "file_ehdr m uf = fse_base (fse_at m (uf_fse uf))"

definition file_inits :: "mem \<Rightarrow> uld_file \<Rightarrow> (u32 \<times> u32) list" where
  "file_inits m uf = concat (map (init_entries m (file_ehdr m uf) (uf_membase uf)) uld_exec_init_section_list)"

text \<open>The tables of a file are outside what the calls write, and so is what finding them reads.\<close>

definition init_ready :: "u32 set \<Rightarrow> mem \<Rightarrow> u32 \<Rightarrow> cstr \<Rightarrow> bool" where
  "init_ready W m ehdr name \<longleftrightarrow> (\<exists>p n. init_array m ehdr name = Some (p, n) \<and> (0 < n \<longrightarrow> p \<noteq> 0) \<and> unat p + 4 * n < 2 ^ 32
     \<and> rng p (4 * n) \<inter> W = {} \<and> (\<forall>m'. agrees_off W m m' \<longrightarrow> init_array m' ehdr name = Some (p, n)))"

definition file_ready :: "u32 set \<Rightarrow> mem \<Rightarrow> uld_file \<Rightarrow> bool" where
  "file_ready W m uf \<longleftrightarrow> rng (uf_fse uf) 4 \<inter> W = {}
     \<and> (\<forall>name\<in>set uld_exec_init_section_list. init_ready W m (file_ehdr m uf) name)"

lemma init_ready_keep: "init_ready W m ehdr name \<Longrightarrow> agrees_off W m m' \<Longrightarrow>
    init_ready W m' ehdr name \<and> init_entries m' ehdr b name = init_entries m ehdr b name"
proof -
  assume r: "init_ready W m ehdr name" and a: "agrees_off W m m'"
  obtain p n where p: "init_array m ehdr name = Some (p, n)" "0 < n \<longrightarrow> p \<noteq> 0" "unat p + 4 * n < 2 ^ 32" "rng p (4 * n) \<inter> W = {}"
      "\<forall>m'. agrees_off W m m' \<longrightarrow> init_array m' ehdr name = Some (p, n)"
    using r unfolding init_ready_def by blast
  have "\<forall>m2. agrees_off W m' m2 \<longrightarrow> init_array m2 ehdr name = Some (p, n)" using p(5) agrees_off_trans [OF a] by blast
  moreover have "init_array m' ehdr name = Some (p, n)" using p(5) a by blast
  ultimately show ?thesis
    using p(1-4) word_list_cong [OF a p(4,3)] unfolding init_ready_def init_entries_def by simp
qed

lemma file_ready_keep:
  assumes "file_ready W m uf" "agrees_off W m m'"
  shows "file_ready W m' uf \<and> file_inits m' uf = file_inits m uf"
proof -
  have "a \<notin> W" if "a \<in> rng (uf_fse uf) 4" for a using assms(1) that unfolding file_ready_def by blast
  then have "ld32 m' (uf_fse uf) = ld32 m (uf_fse uf)" using assms(2) by (intro ld32_cong) (simp add: agrees_off_def)
  then have e: "file_ehdr m' uf = file_ehdr m uf" by (simp add: file_ehdr_def fse_at_def)
  have k: "\<forall>name\<in>set uld_exec_init_section_list. init_ready W m' (file_ehdr m uf) name
      \<and> init_entries m' (file_ehdr m uf) (uf_membase uf) name = init_entries m (file_ehdr m uf) (uf_membase uf) name"
    using assms init_ready_keep unfolding file_ready_def by blast
  then have "file_inits m' uf = file_inits m uf"
    unfolding file_inits_def e by (intro arg_cong [of _ _ concat] map_cong) simp_all
  then show ?thesis using k assms(1) unfolding file_ready_def e by simp
qed

lemma run_calls_map: "run_calls (\<lambda>(fp, b). call fp b) (map (\<lambda>fp. (fp, b)) fps) s = run_calls (\<lambda>fp. call fp b) fps s"
  by (induction fps arbitrary: s) (auto split: bind_split)

lemma init_array_call:
  assumes "writes_only W (\<lambda>(fp, b). env_call_fp env fp b)" "init_ready W (mem s) ehdr name"
    and h: "elf32_get_section_by_name (mem s) ehdr 0 name = Some h"
  shows "(if h = 0 then Some s
       else uld_exec_call_vv_fp_array_fdpic_base env (elf32_get_section_flash_addr (mem s) h ehdr)
              (elf32_get_section_flash_addr (mem s) h ehdr + 4 * (sh_size (shdr_at (mem s) h) div 4)) b s)
      = run_calls (\<lambda>(fp, b). env_call_fp env fp b) (init_entries (mem s) ehdr b name) s"
proof -
  define call where "call = (\<lambda>fp. env_call_fp env fp b)"
  have w: "writes_only W call" using assms(1) by (auto simp: writes_only_def call_def)
  obtain p n where a: "init_array (mem s) ehdr name = Some (p, n)" and pn: "0 < n \<longrightarrow> p \<noteq> 0" "unat p + 4 * n < 2 ^ 32"
      "rng p (4 * n) \<inter> W = {}"
    using assms(2) unfolding init_ready_def by blast
  have pn_eq: "(p, n) = (if h = 0 then (0, 0) else (elf32_get_section_flash_addr (mem s) h ehdr,
      unat (sh_size (shdr_at (mem s) h)) div 4))"
    using a h unfolding init_array_def by simp
  have r: "run_calls (\<lambda>(fp, b). env_call_fp env fp b) (init_entries (mem s) ehdr b name) s = run_calls call (word_list (mem s) p n) s"
    by (simp add: init_entries_def a call_def run_calls_map)
  have e: "p + 4 * of_nat n \<noteq> 0" if "p \<noteq> 0"
  proof -
    have "unat (p + 4 * of_nat n) = unat p + 4 * n" using pn(2) by (simp add: unat_word_ariths unat_of_nat)
    then show ?thesis using that by (metis add_is_0 unat_0 unat_eq_zero)
  qed
  have "uld_exec_call_vv_fp_array_fdpic_base env p (p + 4 * of_nat n) b s = run_calls call (word_list (mem s) p n) s"
    using call_array_loop_run [OF w pn(3) pn(1) [rule_format] pn(2)] pn(1) e
    unfolding uld_exec_call_vv_fp_array_fdpic_base_def call_def [symmetric] by (cases n) auto
  moreover have "of_nat (unat x div 4) = x div 4" for x :: u32
    using arg_cong [OF unat_div [of x 4], of "of_nat :: nat \<Rightarrow> u32"] by simp
  ultimately show ?thesis using r pn_eq by (cases "h = 0") auto
qed

lemma init_funcs_loop_run:
  assumes "writes_only W (\<lambda>(fp, b). env_call_fp env fp b)" "\<forall>name\<in>set names. init_ready W (mem s) ehdr name"
  shows "init_funcs_loop env ehdr b names s
    = run_calls (\<lambda>(fp, b). env_call_fp env fp b) (concat (map (init_entries (mem s) ehdr b) names)) s"
  using assms(2)
proof (induction names arbitrary: s)
  case (Cons name names)
  let ?call = "\<lambda>(fp, b). env_call_fp env fp b"
  obtain h where h: "elf32_get_section_by_name (mem s) ehdr 0 name = Some h"
    using Cons.prems unfolding init_ready_def init_array_def by (auto elim!: bind_SomeE)
  have rest: "init_funcs_loop env ehdr b names s1 = run_calls ?call (concat (map (init_entries (mem s) ehdr b) names)) s1"
    if "run_calls ?call (init_entries (mem s) ehdr b name) s = Some s1" for s1
  proof -
    have k: "\<forall>name\<in>set names. init_ready W (mem s1) ehdr name \<and> init_entries (mem s1) ehdr b name = init_entries (mem s) ehdr b name"
      using Cons.prems init_ready_keep [OF _ run_calls_writes [OF assms(1) that]] by simp
    have "concat (map (init_entries (mem s1) ehdr b) names) = concat (map (init_entries (mem s) ehdr b) names)"
      using k by (intro arg_cong [of _ _ concat] map_cong) simp_all
    then show ?thesis using Cons.IH [of s1] k by metis
  qed
  have "init_funcs_loop env ehdr b (name # names) s
      = Option.bind (run_calls ?call (init_entries (mem s) ehdr b name) s) (init_funcs_loop env ehdr b names)"
    unfolding init_array_call [OF assms(1) _ h, of b, symmetric, OF Cons.prems [THEN bspec, OF list.set_intros(1)]]
    by (simp add: h Let_def)
  then show ?case using rest by (simp add: run_calls_append split: bind_split)
qed simp

lemma call_all_run:
  assumes "writes_only W (\<lambda>(fp, b). env_call_fp env fp b)" "\<forall>uf\<in>set ufs. file_ready W (mem s) uf"
  shows "call_all_init_funcs env ufs s
    = run_calls (\<lambda>(fp, b). env_call_fp env fp b) (concat (map (file_inits (mem s)) ufs)) s"
  using assms(2)
proof (induction ufs arbitrary: s)
  case (Cons uf ufs)
  let ?call = "\<lambda>(fp, b). env_call_fp env fp b"
  have one: "init_funcs_loop env (file_ehdr (mem s) uf) (uf_membase uf) uld_exec_init_section_list s
      = run_calls ?call (file_inits (mem s) uf) s"
    unfolding file_inits_def using Cons.prems by (intro init_funcs_loop_run [OF assms(1)]) (simp add: file_ready_def)
  have rest: "call_all_init_funcs env ufs s1 = run_calls ?call (concat (map (file_inits (mem s)) ufs)) s1"
    if "run_calls ?call (file_inits (mem s) uf) s = Some s1" for s1
  proof -
    have k: "\<forall>uf\<in>set ufs. file_ready W (mem s1) uf \<and> file_inits (mem s1) uf = file_inits (mem s) uf"
      using Cons.prems file_ready_keep [OF _ run_calls_writes [OF assms(1) that]] by simp
    have "concat (map (file_inits (mem s1)) ufs) = concat (map (file_inits (mem s)) ufs)"
      using k by (intro arg_cong [of _ _ concat] map_cong) simp_all
    then show ?thesis using Cons.IH [of s1] k by metis
  qed
  have "call_all_init_funcs env (uf # ufs) s
      = Option.bind (run_calls ?call (file_inits (mem s) uf) s) (call_all_init_funcs env ufs)"
    by (simp add: uld_exec_elf_call_init_funcs_def one [unfolded file_ehdr_def] split: bind_split)
  then show ?case using rest by (simp add: run_calls_append split: bind_split)
qed simp

lemma array_run:
  assumes "writes_only W call" "rng p (4 * n) \<inter> W = {}" "unat p + 4 * n < 2 ^ 32"
  shows "uld_exec_call_vv_fp_array call p (p + 4 * of_nat n) s
    = run_calls call (if p = 0 then [] else word_list (mem s) p n) s"
proof (cases "p = 0")
  case False
  have "unat (p + 4 * of_nat n) = unat p + 4 * n" using assms(3) by (simp add: unat_word_ariths unat_of_nat)
  then have "p + 4 * of_nat n \<noteq> 0" using False by (metis add_is_0 unat_0 unat_eq_zero)
  then show ?thesis using False call_array_loop_run [OF assms(1,2) _ assms(3)]
    by (simp add: uld_exec_call_vv_fp_array_def)
qed (simp add: uld_exec_call_vv_fp_array_def)

text \<open>C3 Once the files of a dependency list are linked, their initialisation functions are called
  one by one with the static base of their own file: file by file in the order of the list, for each file first the
  table of \<open>.preinit_array\<close> and then the one of \<open>.init_array\<close>, each from its first word to its last. The run stops only
  when a function does not return. The functions may write anywhere but on what locates these tables.\<close>

theorem constructors_in_order:
  assumes "writes_only W (\<lambda>(fp, b). env_call_fp env fp b)" "\<forall>uf\<in>set ufile_list. file_ready W (mem s) uf"
  shows "call_all_init_funcs env ufile_list s
    = run_calls (\<lambda>(fp, b). env_call_fp env fp b) (concat (map (file_inits (mem s)) ufile_list)) s"
  using assms by (rule call_all_run)

text \<open>A file with two initialisation functions, at 7 and 9; a call appends the address as a digit.\<close>

definition init_mem :: mem where
  "init_mem = (\<lambda>_. 0)(0x81 := 1, 0x130 := 2, 0x12e := 40, 0x120 := 52, 0x15d := 1, 0x16d := 2, 0x170 := 8,
     0x200 := 46, 0x201 := 105, 0x202 := 110, 0x203 := 105, 0x204 := 116, 0x205 := 95, 0x206 := 97, 0x207 := 114,
     0x208 := 114, 0x209 := 97, 0x20a := 121, 0x300 := 7, 0x304 := 9)"

definition silent_out :: "unit FILE" where
  "silent_out = \<lparr>write_f = (\<lambda>m fd s n w. Some (uint n, w)), dputchar_f = (\<lambda>fd c w. Some (c, w)), file_data = 0, file_fd = 1\<rparr>"

definition init_env :: uld_env where
  "init_env = \<lparr>env_bss_end = 0, env_pstore = 0, env_estack = 0, env_stk_sec = uld_section_zero, env_stk_res =
     \<lparr>res_ptr = 0, res_membase = 0, res_match_sym = 0, res_file_idx = 0\<rparr>, env_stk_ptr = 0, env_out = silent_out, env_verbose = 0,
     env_call_fp = (\<lambda>fp b s. Some (s\<lparr>mem := (mem s)(0x5000 := 10 * mem s 0x5000 + ucast fp)\<rparr>)),
     env_call_entry = (\<lambda>e sp argc argv b s. Some (0, s))\<rparr>"

lemma init_mem_hdrs:
  "e_shnum (ehdr_at (init_mem(0x5000 := v)) 0x100) = 2" "e_shentsize (ehdr_at (init_mem(0x5000 := v)) 0x100) = 40"
  "e_shoff (ehdr_at (init_mem(0x5000 := v)) 0x100) = 52" "e_shstrndx (ehdr_at (init_mem(0x5000 := v)) 0x100) = 0"
  "sh_name (shdr_at (init_mem(0x5000 := v)) 0x15c) = 0x100" "sh_offset (shdr_at (init_mem(0x5000 := v)) 0x15c) = 0x200"
  "sh_size (shdr_at (init_mem(0x5000 := v)) 0x15c) = 8" "sh_offset (shdr_at (init_mem(0x5000 := v)) 0x134) = 0"
  "fse_base (fse_at (init_mem(0x5000 := v)) 0x80) = 0x100"
  by (simp_all add: ehdr_at_def shdr_at_def fse_at_def ld32_def ld16_def) (simp_all add: init_mem_def)

lemma init_mem_name: "cs_is (init_mem(0x5000 := v)) (Ptr 0x200) [46, 105, 110, 105, 116, 95, 97, 114, 114, 97, 121]"
  by (simp add: cs_is_Ptr_Cons) (simp add: cs_is_def init_mem_def)

lemma init_mem_arrays:
  "init_array (init_mem(0x5000 := v)) 0x100 (Lit (map of_char ''.preinit_array'')) = Some (0, 0)"
  "init_array (init_mem(0x5000 := v)) 0x100 (Lit (map of_char ''.init_array'')) = Some (0x300, 2)"
proof -
  have l: "elf32_for_each_shdr_base (init_mem(0x5000 := v)) 0x100 0 = [(1, 0x15c)]"
    by (simp add: elf32_for_each_shdr_base_eq init_mem_hdrs upt_rec elf32_get_section_by_index_def Let_def)
  show "init_array (init_mem(0x5000 := v)) 0x100 (Lit (map of_char ''.preinit_array'')) = Some (0, 0)"
   "init_array (init_mem(0x5000 := v)) 0x100 (Lit (map of_char ''.init_array'')) = Some (0x300, 2)"
    by (simp_all add: init_array_def elf32_get_section_by_name_def l elf32_get_section_name_def elf32_get_section_name_shstrtab_faddr_def
        init_mem_hdrs init_mem_name [THEN uld_strcmp_bytes, OF cs_is_Lit [THEN iffD2]]
        elf32_get_section_by_index_def elf32_get_section_flash_addr_def)
qed

theorem constructors_in_order_witness:
  "call_all_init_funcs init_env [uld_file_zero\<lparr>uf_fse := 0x80\<rparr>] (mach0 init_mem)
   = Some (mach0 (init_mem(0x5000 := 79)))"
proof -
  have m': "m' = init_mem(0x5000 := m' 0x5000)" if "agrees_off {0x5000} init_mem m'" for m'
    using that by (auto simp: agrees_off_def fun_eq_iff)
  have m0: "init_mem = init_mem(0x5000 := 0)" by (auto simp: init_mem_def fun_eq_iff)
  have z: "init_mem 0x5000 = 0" by (simp add: init_mem_def)
  note a = init_mem_arrays [of 0, folded m0]
  have h: "file_ehdr init_mem (uld_file_zero\<lparr>uf_fse := 0x80\<rparr>) = 0x100"
    using init_mem_hdrs(9) [of 0, folded m0] by (simp add: file_ehdr_def)
  have "init_ready {0x5000} init_mem 0x100 name"
    if "\<And>v. init_array (init_mem(0x5000 := v)) 0x100 name = Some (p, n)"
       "0 < n \<longrightarrow> p \<noteq> 0" "unat p + 4 * n < 2 ^ 32" "rng p (4 * n) \<inter> {0x5000} = {}" for name p n
    unfolding init_ready_def using that(2-4) that(1) [of 0, folded m0] that(1) m' by metis
  note this [OF init_mem_arrays(1)] this [OF init_mem_arrays(2)]
  then have "file_ready {0x5000} init_mem (uld_file_zero\<lparr>uf_fse := 0x80\<rparr>)"
    by (simp add: file_ready_def h uld_exec_init_section_list_def rng_iff)
  moreover have "writes_only {0x5000} (\<lambda>(fp, b). env_call_fp init_env fp b)"
    by (auto simp: writes_only_def init_env_def agrees_off_def)
  moreover have "word_list init_mem 0x300 2 = [7, 9]"
    unfolding numeral_2_eq_2 word_list.simps by (simp add: ld32_def init_mem_def)
  then have "file_inits init_mem (uld_file_zero\<lparr>uf_fse := 0x80\<rparr>) = [(7, 0), (9, 0)]"
    using a by (simp add: file_inits_def h uld_exec_init_section_list_def init_entries_def)
      (simp add: uld_file_zero_def)
  ultimately show ?thesis using constructors_in_order [of "{0x5000}" init_env "[uld_file_zero\<lparr>uf_fse := 0x80\<rparr>]" "mach0 init_mem"]
    using z by (simp add: init_env_def mach0_def)
qed

text \<open>C30 The loader's own start calls the functions of its preinit table and then those of its init
  table, each table from its first word to its last, and none of a table whose start is null (the tables are weak
  symbols). The functions may write anywhere but in the two tables; the run stops only when one does not return.\<close>

theorem start_init_in_order:
  assumes "writes_only W call" "rng p (4 * n) \<inter> W = {}" "rng q (4 * k) \<inter> W = {}"
    and "unat p + 4 * n < 2 ^ 32" "unat q + 4 * k < 2 ^ 32"
  shows "uld_start_init call p (p + 4 * of_nat n) q (q + 4 * of_nat k) s
    = run_calls call ((if p = 0 then [] else word_list (mem s) p n) @ (if q = 0 then [] else word_list (mem s) q k)) s"
proof (cases "run_calls call (if p = 0 then [] else word_list (mem s) p n) s")
  case None
  then show ?thesis by (simp only: uld_start_init_def run_calls_append array_run [OF assms(1,2,4)] Option.bind.simps)
next
  case (Some s1)
  have "word_list (mem s1) q k = word_list (mem s) q k"
    using run_calls_writes [OF assms(1) Some] assms(3,5) by (rule word_list_cong)
  then show ?thesis
    by (simp only: uld_start_init_def run_calls_append array_run [OF assms(1,2,4)] array_run [OF assms(1,3,5)] Some
        Option.bind.simps bind_runit)
qed

theorem start_init_in_order_witness:
  "uld_start_init (\<lambda>fp s. env_call_fp init_env fp 0 s) 0x300 0x304 0x304 0x308 (mach0 init_mem)
   = Some (mach0 (init_mem(0x5000 := 79)))"
proof -
  have w: "writes_only {0x5000} (\<lambda>fp s. env_call_fp init_env fp 0 s)"
    by (auto simp: writes_only_def init_env_def agrees_off_def)
  have t: "word_list init_mem 0x300 1 = [7]" "word_list init_mem 0x304 1 = [9]"
    unfolding One_nat_def word_list.simps by (simp_all add: ld32_def) (simp_all add: init_mem_def)
  have z: "init_mem 0x5000 = 0" by (simp add: init_mem_def)
  have d: "rng 0x300 (4 * 1) \<inter> {0x5000} = {}" "rng 0x304 (4 * 1) \<inter> {0x5000} = {}" by (simp_all add: rng_iff)
  have l: "unat (0x300 :: u32) + 4 * 1 < 2 ^ 32" "unat (0x304 :: u32) + 4 * 1 < 2 ^ 32" by simp_all
  have e: "0x300 + 4 * of_nat 1 = (0x304 :: u32)" "0x304 + 4 * of_nat 1 = (0x308 :: u32)" "mem (mach0 init_mem) = init_mem"
    by (simp_all add: mach0_def)
  have nz: "(0x300 :: u32) \<noteq> 0" "(0x304 :: u32) \<noteq> 0" by simp_all
  show ?thesis
    unfolding start_init_in_order [OF w d l, of "mach0 init_mem", unfolded e if_not_P [OF nz(1)] if_not_P [OF nz(2)] t]
    by (simp add: init_env_def mach0_def z)
qed

section \<open>Starting a program\<close>

lemma dump_tables_mem: "dump_tables f v ufs st = Some st' \<Longrightarrow> mem (fst st') = mem (fst st)"
proof (induction ufs arbitrary: st)
  case (Cons uf ufs)
  have k: "mem (fst y) = mem (fst x)" if "uld_fprint_section_file (Some f) (Some uf) x = Some (r, y)
      \<or> uld_fprint_dyn f (Some uf) True x = Some (r, y) \<or> uld_fprint_dynsym f (Some uf) x = Some (r, y)
      \<or> uld_fprint_rel_dyn f (Some uf) x = Some (r, y)" for r x y
    using that fprint_section_file_keeps [of "Some f" "Some uf" x] fprint_dyn_mem [of f "Some uf" True x]
      fprint_dynsym_mem [of f "Some uf" x] fprint_rel_dyn_mem [of f "Some uf" x]
    by (auto simp: keeps_mem_def)
  note k = k [OF disjI1] k [OF disjI2, OF disjI1] k [OF disjI2, OF disjI2, OF disjI1] k [OF disjI2, OF disjI2, OF disjI2]
  show ?case using Cons.prems unfolding dump_tables.simps
    by (auto split: if_splits elim!: bind_SomeE dest!: Cons.IH k pr_mem)
qed simp

lemma exec_dump_mem: "exec_dump env n ufs s = Some s' \<Longrightarrow> mem s' = mem s"
  unfolding exec_dump_def by (auto split: if_splits elim!: bind_SomeE dest!: dump_tables_mem pr_puts_mem)

text \<open>C4 When the start of a file returns, it returns 0, and by then it has, in this order: listed the
  files reachable from the file, each once and after the files it needs, the file itself last; loaded the files of the
  list with as many section descriptors as were counted for them; printed their tables when the start is verbose; linked
  them; printed the debugger commands for them, all printing without a change to memory; stopped at the breakpoint before the constructors and called the initialisation functions;
  stopped at the breakpoint before the entry and entered the program of the last file of the list: at its adjusted entry,
  with its own memory as static base, on an 8-byte aligned stack, with the arguments passed on. When the load succeeded,
  the loaded files are those of the list in its order and the program that was entered is the one of the given file. The
  results of the load and of the link step do not matter otherwise: a program is entered all the same.\<close>

theorem exec_enters_file:
  assumes "uld_dyn_exec_fse env fse sp_base argc argv s = Some (r, s')" "0 \<le> argc" "argc \<noteq> 0 \<longrightarrow> argv \<noteq> None"
  shows "r = 0 \<and> (\<exists>dep_list s2 sec_count s3 ret ufs base size s4 s4' lret l gret out s5 uf eret.
      distinct dep_list \<and> last dep_list = fse \<and> load_ordered (mem s) (env_stk_sec env) (env_pstore env) dep_list
    \<and> set dep_list = {x. (fse, x) \<in> (dep_rel (mem s) (env_stk_sec env) (env_pstore env))\<^sup>*}
    \<and> mem s2 = mem s \<and> uld_dyn_get_dep_list_sec_count s2 dep_list (int (length dep_list)) ULD_DYN_LOAD_SECTION_TYPE_MASK
        = Some (sec_count, s3)
    \<and> mem s3 = mem s \<and> uld_dyn_load_fse_dep_list (env_bss_end env) s3 (env_stk_sec env) dep_list sec_count 0 0
        = Some (ret, ufs, base, size, s4)
    \<and> exec_dump env (int (length dep_list)) ufs s4 = Some s4' \<and> mem s4' = mem s4
    \<and> uld_dyn_link_file_list s4' (env_stk_res env) ufs (base + size) = Some (lret, l)
    \<and> uld_fprint_gdb_sym_cmd_list (Some (env_out env)) (env_stk_sec env) (Some ufs) (int (length dep_list)) (ls_mach l, ())
        = Some (gret, out) \<and> mem (fst out) = mem (ls_mach l)
    \<and> call_all_init_funcs env ufs (swbkpt (fst out)) = Some s5
    \<and> ufile_at ufs (int (length dep_list) - 1) = Some uf
    \<and> env_call_entry env (elf32_get_adjusted_entry (mem s5) (fse_base (fse_at (mem s5) (uf_fse uf))) 0)
        (sp_base AND NOT 7) argc argv (uf_membase uf) (swbkpt s5) = Some (eret, s')
    \<and> (ret = 0 \<longrightarrow> map uf_fse ufs = dep_list \<and> uf_fse uf = fse))"
proof -
  obtain n s1 ret1 dep_list s2 c s3 ret ufs base size s4 s4' lret l gret out s5 uf eret where
    1: "uld_dyn_get_fse_dep_count s (env_stk_sec env) (env_pstore env) fse = Some (n, s1)" "\<not> n < 0"
    and 2: "uld_dyn_create_fse_dep_list s1 (env_stk_sec env) (env_pstore env) fse [] n = Some (ret1, dep_list, s2)"
    and 3: "uld_dyn_get_dep_list_sec_count s2 dep_list n ULD_DYN_LOAD_SECTION_TYPE_MASK = Some (c, s3)"
    and 4: "uld_dyn_load_fse_dep_list (env_bss_end env) s3 (env_stk_sec env) dep_list c 0 0 = Some (ret, ufs, base, size, s4)"
    and d4: "exec_dump env n ufs s4 = Some s4'"
    and 5: "uld_dyn_link_file_list s4' (env_stk_res env) ufs (base + size) = Some (lret, l)"
    and g: "uld_fprint_gdb_sym_cmd_list (Some (env_out env)) (env_stk_sec env) (Some ufs) (int (length dep_list)) (ls_mach l, ())
        = Some (gret, out)"
    and 6: "call_all_init_funcs env ufs (swbkpt (fst out)) = Some s5"
    and 7: "ufile_at ufs (int (length dep_list) - 1) = Some uf" "uld_exec_file env uf sp_base argc argv s5 = Some (eret, s')"
    and r: "r = 0"
    using assms(1) unfolding uld_dyn_exec_fse_def ULD_DYN_LOAD_SECTION_TYPE_MASK_def [symmetric]
    by (auto split: if_splits elim!: bind_SomeE)
  have ret1: "ret1 = 0" "int (length dep_list) = n" using dep_count_result [OF 1(1)] 1(2) 2 by auto
  note dl = dep_list_result [OF 2 [unfolded ret1(1)]]
  have m: "mem s1 = mem s" "mem s2 = mem s" "mem s3 = mem s"
    using dep_count_mem [OF 1(1)] get_dep_list_sec_count_mem [OF 3] dl by simp_all
  have gm: "mem (fst out) = mem (ls_mach l)" using gdb_sym_cmd_list_mem [OF g] by simp
  have ok: "map uf_fse ufs = dep_list \<and> uf_fse uf = fse" if ret: "ret = 0"
  proof -
    have f: "map uf_fse ufs = dep_list" using load_list_files 4 ret by blast
    then have ne: "ufs \<noteq> []" and len: "length dep_list = length ufs" using dl by auto
    then have uf: "uf = last ufs" using 7(1) by (simp add: ufile_at_def last_conv_nth nat_diff_distrib split: if_splits)
    then show ?thesis using f dl ne last_map [OF ne, of uf_fse] by simp
  qed
  have e: "env_call_entry env (elf32_get_adjusted_entry (mem s5) (fse_base (fse_at (mem s5) (uf_fse uf))) 0)
      (sp_base AND NOT 7) argc argv (uf_membase uf) (swbkpt s5) = Some (eret, s')"
    using 7(2) assms(2,3) unfolding uld_exec_file_def by (auto simp: Let_def split: if_splits)
  note d = dl [unfolded m(1)]
  show ?thesis
    using r d m(2,3) 3 [folded ret1(2)] 4 d4 [folded ret1(2)] exec_dump_mem [OF d4] 5 g gm 6 7(1) e ok by blast
qed

text \<open>The start of the file with one \<open>.bss\<close>; its program stores the static base at \<open>0x2000\<close>.\<close>

definition bss_env :: uld_env where
  "bss_env = init_env\<lparr>env_bss_end := 0x1000, env_pstore := 0x400,
     env_call_entry := (\<lambda>e sp argc argv b s. Some (0, s\<lparr>mem := st32 (mem s) 0x2000 b\<rparr>))\<rparr>"

lemma bss_not_found:
  assumes "xs \<noteq> [46, 98, 115, 115]" "xs \<noteq> [46, 114, 111, 102, 105, 120, 117, 112]" "0 \<notin> set xs"
  shows "elf32_get_section_by_name_shstrtab_faddr bss_mem 0x100 0 (Lit xs) 0x100 = Some 0"
    "elf32_get_section_by_name bss_mem 0x100 0 (Lit xs) = Some 0"
proof -
  have l: "elf32_for_each_shdr_base bss_mem 0x100 0 = [(1, 0x15c), (2, 0x184)]"
    using bss_mem_list by (simp add: elf32_for_each_shdr_def)
  have c: "uld_strcmp bss_mem (Ptr 0x200) (Lit xs) \<noteq> Some 0 \<and> uld_strcmp bss_mem (Ptr 0x200) (Lit xs) \<noteq> None"
    "uld_strcmp bss_mem (Ptr 0x208) (Lit xs) \<noteq> Some 0 \<and> uld_strcmp bss_mem (Ptr 0x208) (Lit xs) \<noteq> None"
    using assms bss_mem_name [THEN uld_strcmp_bytes, OF cs_is_Lit [THEN iffD2], of xs]
    by (auto simp: strcmp_bytes_eq_0)
  show "elf32_get_section_by_name_shstrtab_faddr bss_mem 0x100 0 (Lit xs) 0x100 = Some 0"
    using c by (auto simp: elf32_get_section_by_name_shstrtab_faddr_def l elf32_get_section_name_shstrtab_faddr_def bss_mem_shdr)
  show "elf32_get_section_by_name bss_mem 0x100 0 (Lit xs) = Some 0"
    using c by (auto simp: elf32_get_section_by_name_def l elf32_get_section_name_def bss_mem_ehdr Let_def
        elf32_get_section_by_index_def elf32_get_section_flash_addr_def elf32_get_section_name_shstrtab_faddr_def bss_mem_shdr)
qed

lemma bss_dep_sections: "uld_dyn_create_fse_dep_list_get_sections (mach0 bss_mem) stk 0x300 = Some (1, stk, stk, mach0 bss_mem)"
  by (simp add: uld_dyn_create_fse_dep_list_get_sections_def Let_def bss_mem_ehdr bss_not_found
      elf32_get_section_by_index_def elf32_get_section_flash_addr_def bss_mem_shdr)

lemma bss_dep_run: "1 \<le> n \<Longrightarrow> uld_dyn_create_fse_dep_list (mach0 bss_mem) stk ps 0x300 [] n = Some (0, [0x300], mach0 bss_mem)"
  by (simp add: uld_dyn_create_fse_dep_list_def dep_run.simps bss_dep_sections dep_finish_def)

lemma bss_count: "uld_dyn_get_fse_dep_count (mach0 bss_mem) stk 0x400 0x300 = Some (1, mach0 bss_mem)"
proof -
  have "fst_head (pstore_at bss_mem 0x400) = 0x300" "fse_next (fse_at bss_mem 0x300) = 0"
    by (simp_all add: pstore_at_def fse_at_def ld32_def) (simp_all add: bss_mem_def)
  then have "uld_fs_get_file_count bss_mem 0x300 = Some 1" "fst_head (pstore_at bss_mem 0x400) = 0x300"
    by (simp_all add: uld_fs_get_file_count_def fs_count_loop.simps)
  then show ?thesis by (simp add: uld_dyn_get_fse_dep_count_def bss_dep_run)
qed

lemma bss_sec_count: "uld_dyn_get_dep_list_sec_count (mach0 bss_mem) [0x300] 1
    (ULD_SECTION_FLAG_TYPE_FLASH OR ULD_SECTION_FLAG_TYPE_MEM OR ULD_SECTION_FLAG_TYPE_DYNAMIC) = Some (1, mach0 bss_mem)"
proof -
  have l: "elf32_for_each_shdr_base bss_mem 0x100 0 = [(1, 0x15c), (2, 0x184)]"
    using bss_mem_list by (simp add: elf32_for_each_shdr_def)
  show ?thesis
    by (simp add: uld_dyn_get_dep_list_sec_count_def uld_load_get_sec_count_def Let_def bss_mem_ehdr l
      elf32_get_section_by_index_def elf32_get_section_flash_addr_def bss_mem_shdr
      elf32_get_section_name_shstrtab_faddr_def bss_mem_type sec_flag_defs)
qed

lemma bss_env: "env_bss_end bss_env = 0x1000" "env_pstore bss_env = 0x400"
  "env_call_entry bss_env = (\<lambda>e sp argc argv b s. Some (0, s\<lparr>mem := st32 (mem s) 0x2000 b\<rparr>))"
  "env_out bss_env = silent_out" "env_verbose bss_env = 0"
  by (simp_all add: bss_env_def init_env_def)

lemma bss_exec:
  assumes "0 \<le> argc" "argc \<noteq> 0 \<longrightarrow> argv \<noteq> None"
  shows "uld_dyn_exec_fse bss_env 0x300 sp_base argc argv (mach0 bss_mem)
    = Some (0, (swbkpt (swbkpt (mach0 bss_mem)))\<lparr>mem := st32 bss_mem 0x2000 0x1000\<rparr>)"
proof -
  obtain uf where lf: "uld_load_file 0x1000 (mach0 bss_mem) (env_stk_sec bss_env) 0x300 [uld_section_zero] 1
      ULD_DYN_LOAD_SECTION_TYPE_MASK 0x1000 0 uld_file_zero = Some (0, 0x1000, 16, uf, mach0 bss_mem)"
      and uf: "uf_secs uf = [[], uf_mem uf, []]" "map sec_name (uf_mem uf) = [0x200]" "uf_membase uf = 0x1000"
    using bss_load [of "0x1000" "0x1000" 0 1 "env_stk_sec bss_env"]
    by (auto simp: uld_load_get_next_membase_def ULD_LOAD_MEMBASE_ALIGNMENT_def align_up_def uf_block_def)
  have n: "uld_load_get_next_membase 0x1000 0 0 = 0x1000"
    by (simp add: uld_load_get_next_membase_def ULD_LOAD_MEMBASE_ALIGNMENT_def align_up_def)
  have ld: "uld_dyn_load_fse_dep_list 0x1000 (mach0 bss_mem) (env_stk_sec bss_env) [0x300] 1 0 0
      = Some (0, [uf], 0x1000, 16, mach0 bss_mem)"
    using lf by (simp add: uld_dyn_load_fse_dep_list_def n)
  have fse: "uf_fse uf = 0x300" using load_list_files [OF ld] by simp
  obtain x where x: "uf_mem uf = [x]" "sec_name x = 0x200" using uf(2) by auto
  have lk: "uld_dyn_get_link_sections bss_mem uf = Some (None, None, None, None)"
    by (simp add: uld_dyn_get_link_sections_def uld_file_get_sec_hash_def uld_file_get_sec_rel_dyn_def
        uld_file_get_sec_dynsym_def uld_file_get_sec_dynstr_def uld_file_get_sec_def uld_file_get_sec_by_name_def uf x
        uld_file_idx_to_sec_type_def sec_flag_defs)
  have ln: "uld_dyn_link_file_list (mach0 bss_mem) res [uf] 0x1010
      = Some (0, \<lparr>ls_mach = mach0 bss_mem, ls_res = res, ls_base = 0x1010, ls_size = 0\<rparr>)" for res
    by (simp add: uld_dyn_link_file_list_def lk)
  have gdb: "uld_fprint_gdb_sym_cmd_list (Some silent_out) stk (Some [uf]) 1 (mach0 bss_mem, ())
      = Some (- 1, mach0 bss_mem, ())" for stk
    by (simp add: uld_fprint_gdb_sym_cmd_list_def uld_fprint_gdb_sym_cmd_def uld_file_copy_sec_by_name_def
        uld_file_get_sec_by_name_def uf x uld_file_idx_to_sec_type_def sec_flag_defs fse bss_mem_ehdr lit_def bss_not_found
        bss_env pr_putc_def uld_putc_def silent_out_def)
  have ini: "call_all_init_funcs bss_env [uf] (swbkpt (mach0 bss_mem)) = Some (swbkpt (mach0 bss_mem))"
    by (simp add: uld_exec_elf_call_init_funcs_def fse bss_mem_ehdr uld_exec_init_section_list_def bss_not_found)
  have xf: "uld_exec_file bss_env u sp_base argc argv x
      = Some (0, (swbkpt x)\<lparr>mem := st32 (mem x) 0x2000 (uf_membase u)\<rparr>)" for u x
    using assms by (auto simp: uld_exec_file_def bss_env Let_def)
  show ?thesis
    by (simp add: uld_dyn_exec_fse_def bss_env bss_count bss_dep_run bss_sec_count ld exec_dump_def ln gdb ini ufile_at_def xf uf(3) Let_def
        del: call_all_init_funcs.simps)
qed

theorem exec_enters_file_witness:
  "\<exists>s' (uf :: uld_file) s5. uld_dyn_exec_fse bss_env 0x300 0x3005 0 None (mach0 bss_mem) = Some (0, s')
    \<and> env_call_entry bss_env (elf32_get_adjusted_entry (mem s5) (fse_base (fse_at (mem s5) (uf_fse uf))) 0)
        0x3000 0 None (uf_membase uf) (swbkpt s5) = Some (0, s')
    \<and> bkpts s' = 2 \<and> ld32 (mem s') 0x2000 = 0x1000"
proof -
  define s' where "s' = (swbkpt (swbkpt (mach0 bss_mem)))\<lparr>mem := st32 bss_mem 0x2000 0x1000\<rparr>"
  have nz: "(0 :: int) \<noteq> 0 \<longrightarrow> None \<noteq> (None :: cstr list option)" by simp
  have run: "uld_dyn_exec_fse bss_env 0x300 0x3005 0 None (mach0 bss_mem) = Some (0, s')"
    unfolding s'_def by (rule bss_exec) simp_all
  have sp: "0x3005 AND NOT 7 = (0x3000 :: u32)" by simp
  obtain s5 eret and uf :: uld_file where e: "env_call_entry bss_env (elf32_get_adjusted_entry (mem s5) (fse_base (fse_at (mem s5) (uf_fse uf))) 0)
        0x3000 0 None (uf_membase uf) (swbkpt s5) = Some (eret, s')"
    using exec_enters_file [OF run order_refl nz] unfolding sp by blast
  moreover have "eret = 0" using e by (simp add: bss_env)
  moreover have "bkpts s' = 2" "ld32 (mem s') 0x2000 = 0x1000" by (simp_all add: s'_def swbkpt_def mach0_def)
  ultimately show ?thesis using run by blast
qed

section \<open>Booting\<close>

text \<open>C6 When a boot action that moves a file comes to its end, on a file table whose files
  lie in the store and do not overlap, it has first sought free space for the named file; what the search returned is a
  place in the store that overlaps no file of the table, or null when there is no room. It has then moved the file there
  (a move to null is refused), and after that started the named program, looked up before the move, with the arguments of
  the action; what the move returned does not matter. The actions that move a file are 2 and 5 and, in the code, also 1:
  its case falls through to that of 2, so that it moves the file and passes the three arguments of action 2, where the
  README gives it two arguments of its own and no move.\<close>

theorem boot_moves_then_runs:
  fixes env :: uld_env and s :: machine
  defines "ps \<equiv> pstore_at (mem s) (env_pstore env)"
  assumes "uld_main_select env (boot_action ps) s = (Lit ename, Some (Lit mname), sp_base, argc, argv, s)"
    and "fs_chain (mem s) (fst_head ps) qs" "fs_area_ok (mem s) (env_pstore env) qs" "env_pstore env \<noteq> 0"
    and "\<forall>q\<in>set qs. cs_is (mem s) (Ptr (fse_name (fse_at (mem s) q))) (names q)" "0 \<notin> set ename" "0 \<notin> set mname"
    and "first_idx (\<lambda>q. names q = ename) qs = Some i" "first_idx (\<lambda>q. names q = mname) qs = Some k"
    and "unat (fse_size (fse_at (mem s) (qs ! k))) + 8 \<le> 2 ^ 31"
    and "uld_main env s = Some s'"
  shows "\<exists>dest ret s3 r s4.
      uld_fs_find_free_space (mem s) (env_pstore env) (fse_size (fse_at (mem s) (qs ! k))) = Some dest
    \<and> (dest \<noteq> 0 \<longrightarrow> unat (files_base ps) \<le> unat dest
         \<and> unat dest + unat (fse_size (fse_at (mem s) (qs ! k))) \<le> unat (files_base ps) + unat (files_size ps)
         \<and> (\<forall>f\<in>set qs. spans_disjoint (unat dest) (unat dest + unat (fse_size (fse_at (mem s) (qs ! k))))
              (fse_lo (mem s) f) (fse_hi (mem s) f)))
    \<and> uld_reloc_move_fse s (env_stk_sec env) (replicate ULD_FILE_SECTION_MAX (env_stk_sec env)) uld_file_zero
        (env_pstore env) (qs ! k) dest = Some (ret, s3)
    \<and> uld_dyn_exec_fse (env\<lparr>env_verbose := uld_main_verbose (env_verbose env) (boot_action ps)\<rparr>)
        (qs ! i) sp_base argc argv s3 = Some (r, s4) \<and> s' = swbkpt s4"
proof -
  let ?f = "fse_at (mem s) (qs ! k)"
  have idx: "qs ! i \<in> set qs" "qs ! k \<in> set qs" using assms(9,10) by (auto dest: first_idx_hit)
  have nz: "qs ! i \<noteq> 0" "qs ! k \<noteq> 0" using fs_chain_nonzero [OF assms(3)] idx by blast+
  have look: "uld_fs_get_file_by_name (mem s) (fst_head ps) (Lit ename) = Some (qs ! i)"
    "uld_fs_get_file_by_name (mem s) (fst_head ps) (Lit mname) = Some (qs ! k)"
    using fs_by_name_eq [OF assms(3,6), of "Lit ename" ename] fs_by_name_eq [OF assms(3,6), of "Lit mname" mname] assms(7-10)
    by simp_all
  have al: "unat (fse_size ?f) \<le> unat (align_up (fse_size ?f) 3)" "unat (align_up (fse_size ?f) 3) < 2 ^ 31"
    using align_up_bounds [of "fse_size ?f" 3] assms(11) by simp_all
  have "fse_lo (mem s) (qs ! k) < fse_hi (mem s) (qs ! k)"
    using assms(4) idx(2) by (auto simp: fs_area_ok_def Let_def)
  then have "fse_size ?f \<noteq> 0" by (auto simp: fse_lo_def fse_hi_def)
  from find_free_space_sound [OF assms(3) [unfolded ps_def] assms(4,5) this al(2)]
  obtain dest where dest: "uld_fs_find_free_space (mem s) (env_pstore env) (fse_size ?f) = Some dest"
      "dest \<noteq> 0 \<longrightarrow> unat (files_base ps) \<le> unat dest
         \<and> unat dest + unat (align_up (fse_size ?f) 3) \<le> unat (files_base ps) + unat (files_size ps)
         \<and> (\<forall>f\<in>set qs. spans_disjoint (unat dest) (unat dest + unat (align_up (fse_size ?f) 3)) (fse_lo (mem s) f) (fse_hi (mem s) f))"
    by (auto simp: ps_def)
  obtain ret s3 r s4 where "uld_reloc_move_fse s (env_stk_sec env) (replicate ULD_FILE_SECTION_MAX (env_stk_sec env)) uld_file_zero
        (env_pstore env) (qs ! k) dest = Some (ret, s3)"
      "uld_dyn_exec_fse (env\<lparr>env_verbose := uld_main_verbose (env_verbose env) (boot_action ps)\<rparr>) (qs ! i) sp_base argc argv s3
        = Some (r, s4)" "s' = swbkpt s4"
    using assms(12) look nz dest(1) unfolding uld_main_def Let_def assms(2) [unfolded ps_def] ps_def
    by (auto elim!: bind_SomeE)
  moreover have "spans_disjoint (unat dest) (unat dest + unat (fse_size ?f)) l h"
    if "spans_disjoint (unat dest) (unat dest + unat (align_up (fse_size ?f) 3)) l h" for l h
    using that al(1) by (auto simp: spans_disjoint_def)
  ultimately show ?thesis using dest al(1) by (intro exI [of _ dest] exI conjI impI) (auto intro: order_trans)
qed

text \<open>The file of the move example (Reloc), named \<open>hello_world.elf\<close>, is moved to the free half of the store and then
  started from there.\<close>

definition mv_ready :: "mem \<Rightarrow> bool" where
  "mv_ready m \<longleftrightarrow> mv_at m 0x1c8 \<and> fse_base (fse_at m 0x80) = 0x1c8 \<and> fse_next (fse_at m 0x80) = 0
     \<and> fst_head (pstore_at m 0x40) = 0x80 \<and> ld32 m 0x288 = 0x288"

lemma mv_new_low: "x < 0x1c8 \<Longrightarrow> mv_new x = mv_mem x"
  by (simp add: mv_new_def moved_def) (unat_arith; simp)

lemma mv_moved_byte:
  "x \<notin> rng 0x80 4 \<union> rng 0x8c 4 \<union> rng 0x58 4 \<union> rng 0x288 4 \<Longrightarrow> mv_moved x = mv_new x"
  by (simp add: mv_moved_def sealed_def Let_def st32_outside)

lemma mv_ready_moved: "mv_ready mv_moved"
proof -
  have d: "rng 0x80 4 \<inter> rng 0x288 4 = {}" "rng 0x8c 4 \<inter> rng 0x288 4 = {}" "rng 0x58 4 \<inter> rng 0x288 4 = {}"
    "rng 0x58 4 \<inter> rng 0x80 4 = {}"  "rng 0x80 4 \<inter> rng 0x8c 4 = {}"
    by (rule rng_disjoint_linear; simp)+
  have "mv_moved (0x1c8 + k) = mv_mem (0x100 + k)" if "k < 200" "k \<notin> {0xc0, 0xc1, 0xc2, 0xc3}" for k
  proof -
    have u: "unat (0x1c8 + k) = 0x1c8 + unat k" using that(1) by (simp add: unat_word_ariths word_less_nat_alt)
    have "unat k < 200" using that(1) by (simp add: word_less_nat_alt)
    moreover have "unat k \<noteq> 0xc0 \<and> unat k \<noteq> 0xc1 \<and> unat k \<noteq> 0xc2 \<and> unat k \<noteq> 0xc3"
      using that(2) by (auto simp: word_unat_eq_iff)
    ultimately have "0x1c8 + k \<notin> rng 0x80 4 \<union> rng 0x8c 4 \<union> rng 0x58 4 \<union> rng 0x288 4"
      by (simp add: rng_linear u)
    then show ?thesis using mv_moved_byte mv_new_byte [OF that(1)] by simp
  qed
  moreover have "ld32 mv_moved 0x80 = 0x1c8"
    using d by (simp add: mv_moved_def sealed_def Let_def ld32_st32_other Int_commute)
  moreover have "ld32 mv_moved 0x288 = 0x288"
    using d by (simp add: mv_moved_def sealed_def Let_def ld32_st32_other)
  moreover have "ld32 mv_moved p = ld32 mv_mem p" if "p \<in> {0x84, 0x4c}" for p
  proof (rule ld32_cong)
    fix a assume "a \<in> rng p 4"
    then have "unat a < 0x58 \<or> 0x84 \<le> unat a \<and> unat a < 0x8c" using that by (auto simp: rng_linear)
    then have "a \<notin> rng 0x80 4 \<union> rng 0x8c 4 \<union> rng 0x58 4 \<union> rng 0x288 4" "a < 0x1c8"
      by (auto simp: rng_linear word_less_nat_alt)
    then show "mv_moved a = mv_mem a" using mv_moved_byte mv_new_low by simp
  qed
  moreover have "ld32 mv_mem 0x84 = 0" "ld32 mv_mem 0x4c = 0x80"
    by (simp_all add: ld32_def) (simp_all add: mv_mem_def)
  ultimately show ?thesis by (simp add: mv_ready_def mv_at_def fse_at_def pstore_at_def)
qed

lemma mv_ready_keep:
  assumes "mv_ready m" "agrees_off (rng 0x1000 4) m m'"
  shows "mv_ready m'"
proof -
  have e: "m' x = m x" if "x < 0x1000" for x
    using assms(2) that by (simp add: agrees_off_def rng_linear word_less_nat_alt)
  have "m' (0x1c8 + k) = m (0x1c8 + k)" if "k < 200" for k
    using that by (intro e) unat_arith
  then have "mv_at m' 0x1c8" using assms(1) by (simp add: mv_ready_def mv_at_def)
  moreover have "ld32 m' p = ld32 m p" if "p \<in> {0x80, 0x84, 0x4c, 0x288}" for p
    using that e by (auto simp: ld32_def)
  ultimately show ?thesis using assms(1) by (simp add: mv_ready_def fse_at_def pstore_at_def)
qed

lemma mv_not_found:
  assumes "mv_at m b" "xs \<noteq> [46, 100, 97, 116, 97]" "xs \<noteq> [46, 114, 111, 102, 105, 120, 117, 112]" "0 \<notin> set xs"
  shows "elf32_get_section_by_name_shstrtab_faddr m b 0 (Lit xs) b = Some 0"
    "elf32_get_section_by_name m b 0 (Lit xs) = Some 0"
proof -
  have l: "elf32_for_each_shdr_base m b 0 = [(1, b + 0x5c), (2, b + 0x84)]"
    using mv_list(1) [OF assms(1)] by (simp add: elf32_for_each_shdr_def)
  have c: "uld_strcmp m (Ptr (b + 0xac)) (Lit xs) \<noteq> Some 0 \<and> uld_strcmp m (Ptr (b + 0xac)) (Lit xs) \<noteq> None"
    "uld_strcmp m (Ptr (b + 0xb5)) (Lit xs) \<noteq> Some 0 \<and> uld_strcmp m (Ptr (b + 0xb5)) (Lit xs) \<noteq> None"
    using assms mv_name [OF assms(1), THEN uld_strcmp_bytes, OF cs_is_Lit [THEN iffD2], of xs]
    by (auto simp: strcmp_bytes_eq_0)
  note [simp] = mv_read [OF assms(1)] mv_nonzero [OF assms(1)]
  show "elf32_get_section_by_name_shstrtab_faddr m b 0 (Lit xs) b = Some 0"
    using c by (auto simp: elf32_get_section_by_name_shstrtab_faddr_def l elf32_get_section_name_shstrtab_faddr_def)
  show "elf32_get_section_by_name m b 0 (Lit xs) = Some 0"
    using c by (auto simp: elf32_get_section_by_name_def l elf32_get_section_name_def Let_def
        elf32_get_section_by_index_def elf32_get_section_flash_addr_def elf32_get_section_name_shstrtab_faddr_def)
qed

definition mv_env :: uld_env where "mv_env = bss_env\<lparr>env_pstore := 0x40\<rparr>"

lemma mv_dep:
  assumes "mv_ready (mem s)"
  shows "1 \<le> n \<Longrightarrow> uld_dyn_create_fse_dep_list s stk ps 0x80 [] n = Some (0, [0x80], s)"
    "uld_dyn_get_fse_dep_count s stk 0x40 0x80 = Some (1, s)"
proof -
  have a: "mv_at (mem s) 0x1c8" and f: "fse_base (fse_at (mem s) 0x80) = 0x1c8" "fse_next (fse_at (mem s) 0x80) = 0"
    "fst_head (pstore_at (mem s) 0x40) = 0x80"
    using assms by (simp_all add: mv_ready_def)
  note [simp] = mv_read [OF a, simplified] f
  have "uld_dyn_create_fse_dep_list_get_sections s stk 0x80 = Some (1, stk, stk, s)" for stk
    by (simp add: uld_dyn_create_fse_dep_list_get_sections_def Let_def mv_not_found [OF a]
        elf32_get_section_by_index_def elf32_get_section_flash_addr_def)
  then show 1: "uld_dyn_create_fse_dep_list s stk ps 0x80 [] n = Some (0, [0x80], s)" if "1 \<le> n" for n ps stk
    using that by (simp add: uld_dyn_create_fse_dep_list_def dep_run.simps dep_finish_def)
  have "uld_fs_get_file_count (mem s) 0x80 = Some 1"
    by (simp add: uld_fs_get_file_count_def fs_count_loop.simps)
  then show "uld_dyn_get_fse_dep_count s stk 0x40 0x80 = Some (1, s)"
    by (simp add: uld_dyn_get_fse_dep_count_def 1)
qed

lemma mv_sec_count:
  assumes "mv_ready (mem s)"
  shows "uld_dyn_get_dep_list_sec_count s [0x80] 1
    (ULD_SECTION_FLAG_TYPE_FLASH OR ULD_SECTION_FLAG_TYPE_MEM OR ULD_SECTION_FLAG_TYPE_DYNAMIC) = Some (2, s)"
proof -
  have a: "mv_at (mem s) 0x1c8" and f: "fse_base (fse_at (mem s) 0x80) = 0x1c8"
    using assms by (simp_all add: mv_ready_def)
  have l: "elf32_for_each_shdr_base (mem s) 0x1c8 0 = [(1, 0x224), (2, 0x24c)]"
    using mv_list(1) [OF a] by (simp add: elf32_for_each_shdr_def)
  show ?thesis
    by (simp add: uld_dyn_get_dep_list_sec_count_def uld_load_get_sec_count_def Let_def f l mv_read [OF a, simplified]
      elf32_get_section_by_index_def elf32_get_section_flash_addr_def
      elf32_get_section_name_shstrtab_faddr_def mv_type [OF a, simplified] sec_flag_defs)
qed

definition mv_last :: "uld_section \<Rightarrow> uld_section" where
  "mv_last sec = sec\<lparr>sec_flags := sec_flags sec OR ULD_SECTION_FLAG_LAST\<rparr>"

lemma mv_load_secs:
  assumes "mv_at (mem s) 0x1c8"
  shows "uld_load_create_sec_list s 0x1c8 0 [x, y] 2 ULD_SECTION_FLAG_TYPE_MEM = Some (1, [mv_last (mv_data 0x1c8), y], s)"
    "uld_load_create_sec_list s 0x1c8 0 [y] 1 ULD_SECTION_FLAG_TYPE_FLASH = Some (1, [mv_last (mv_rof 0x1c8)], s)"
proof -
  note [simp] = mv_read [OF assms, simplified] mv_list [OF assms, simplified] mv_type [OF assms, simplified]
    mv_create [OF assms, simplified]
  show "uld_load_create_sec_list s 0x1c8 0 [x, y] 2 ULD_SECTION_FLAG_TYPE_MEM = Some (1, [mv_last (mv_data 0x1c8), y], s)"
    "uld_load_create_sec_list s 0x1c8 0 [y] 1 ULD_SECTION_FLAG_TYPE_FLASH = Some (1, [mv_last (mv_rof 0x1c8)], s)"
    by (simp_all add: uld_load_create_sec_list_def Let_def elf32_get_section_by_index_def
      elf32_get_section_flash_addr_def elf32_get_section_name_shstrtab_faddr_def sec_insert_slot_def sec_flag_defs mv_last_def)
qed

lemma mv_load_file:
  assumes "mv_ready (mem s)"
  shows "uld_load_create_file s 0x80 [x, y] 2 ULD_DYN_LOAD_SECTION_TYPE_MASK uld_file_zero
    = Some (0, uld_file_zero\<lparr>uf_fse := 0x80, uf_mem := [mv_last (mv_data 0x1c8)], uf_flash := [mv_last (mv_rof 0x1c8)]\<rparr>, s)"
proof -
  have a: "mv_at (mem s) 0x1c8" and f: "fse_base (fse_at (mem s) 0x80) = 0x1c8"
    using assms by (simp_all add: mv_ready_def)
  note l = mv_load_secs [OF a, unfolded sec_flag_defs]
  show ?thesis
    by (simp add: uld_load_create_file_def f mv_read [OF a, simplified] sec_idx_lut_def uld_file_idx_to_sec_type_def
      ULD_DYN_LOAD_SECTION_TYPE_MASK_def ULD_FILE_FLAG_NONE_def sec_flag_defs l set_secs_def elf_consts Let_def)
      (simp add: uld_file_zero_def)
qed

definition mv_placed :: uld_section where
  "mv_placed = (mv_last (mv_data 0x1c8))\<lparr>sec_adjusted_vma := 0x1000,
     sec_flags := sec_flags (mv_last (mv_data 0x1c8)) OR ULD_SECTION_FLAG_STATUS_MEM_LOADED\<rparr>"

lemma mv_secs_fields:
  "sec_shdr (mv_last (mv_data 0x1c8)) = 0x24c" "sec_adjusted_lma (mv_last (mv_data 0x1c8)) = 0x288"
  "sec_name mv_placed = 0x27d" "sec_shdr mv_placed = 0x24c" "sec_lma mv_placed = 0x3000" "sec_adjusted_vma mv_placed = 0x1000"
  "sec_name (mv_last (mv_rof 0x1c8)) = 0x274" "sec_shdr (mv_last (mv_rof 0x1c8)) = 0x224"
  "sec_adjusted_lma (mv_last (mv_rof 0x1c8)) = 0x284"
  by (simp_all add: mv_placed_def mv_last_def mv_data_def mv_rof_def)

lemma mv_secs_flags:
  "sec_flags (mv_last (mv_data 0x1c8)) AND ULD_SECTION_FLAG_TYPE_MEM \<noteq> 0"
  "sec_flags mv_placed AND ULD_SECTION_FLAG_STATUS_MEM_NEEDS_FIXUP = ULD_SECTION_FLAG_STATUS_MEM_NEEDS_FIXUP"
  "ULD_SECTION_FLAG_STATUS_MEM_NEEDS_FIXUP \<noteq> 0"
  by (simp_all add: mv_placed_def mv_last_def mv_data_def sec_flag_defs bit_simps)

lemma mv_copy:
  assumes "mv_ready m"
  defines "m' \<equiv> uld_memcpy m 0x1000 0x288 4"
  shows "mv_ready m'" "ld32 m' 0x1000 = 0x288"
proof -
  have "rng 0x1000 4 \<inter> rng 0x288 4 = {}" using rng_disjoint_linear [of "0x288" 4 "0x1000" 4] by (simp add: Int_commute)
  then have w: "m' = wr_bytes m 0x1000 (bytes m 0x288 4)"
    using memcpy_disjoint [of 4 "0x1000" "0x288" m] by (simp add: m'_def)
  have "agrees_off (rng 0x1000 4) m m'" unfolding w by (rule agrees_off_wr) simp
  then show "mv_ready m'" by (rule mv_ready_keep [OF assms(1)])
  have "m' (0x1000 + of_nat i) = m (0x288 + of_nat i)" if "i < 4" for i
    unfolding w using that by (subst wr_bytes_at) auto
  from this [of 0] this [of 1] this [of 2] this [of 3]
  have "ld32 m' 0x1000 = ld32 m 0x288" by (simp add: ld32_def)
  then show "ld32 m' 0x1000 = 0x288" using assms(1) by (simp add: mv_ready_def)
qed

lemma mv_alloc:
  assumes "mv_ready (mem s)"
  shows "uld_load_alloc_mem_sections s 0x1c8 0 0x1000 al [mv_last (mv_data 0x1c8)]
    = (0, 4, [mv_placed], s\<lparr>mem := uld_memcpy (mem s) 0x1000 0x288 4\<rparr>)"
proof -
  let ?m' = "uld_memcpy (mem s) 0x1000 0x288 4"
  have a: "mv_at (mem s) 0x1c8" "mv_at ?m' 0x1c8" using assms mv_copy(1) by (simp_all add: mv_ready_def)
  note h = mv_read(8) [OF a(1), simplified] mv_read(8) [OF a(2), simplified]
  have "unat (4 :: u32) = 4" by simp
  then show ?thesis
    using mv_secs_fields mv_secs_flags(1) h
    by (simp add: uld_load_alloc_mem_sections_def mv_placed_def elf_consts)
qed

lemma mv_mem_fixups:
  assumes "mv_ready (mem s)" "ld32 (mem s) 0x1000 = 0x288"
  shows "\<exists>sec. uld_rofixup_apply_mem_fixups s stk 0x1c8 0 [mv_last (mv_rof 0x1c8)] [mv_placed] 0x1000 = Some (0, [sec], swbkpt s)
    \<and> sec_name sec = 0x27d"
proof -
  have a: "mv_at (mem s) 0x1c8" using assms by (simp add: mv_ready_def)
  note h = mv_read(7,8,10) [OF a, simplified]
  have rof: "sec_adjusted_lma (mv_rof 0x1c8) = 0x284" "sec_shdr (mv_rof 0x1c8) = 0x224" by (simp_all add: mv_rof_def)
  have lim: "fixup_limits (mem s) ULD_SECTION_FLAG_STATUS_MEM_NEEDS_FIXUP [mv_placed] = (0x3000, 0x3004)"
    using mv_secs_flags by (simp add: fixup_limits_def mv_secs_fields h min_def max_def)
  have end': "fixup_loop f need lo hi secs (mv_rof 0x1c8) 0x288 x = Some (0, x)" if "mem x = mem s" for f need lo hi secs x
    using that by (subst fixup_loop.simps) (simp add: rof h)
  have fx: "uld_rofixup_do_mem_fixup [mv_last (mv_rof 0x1c8)] [mv_placed] g p 0x1000 s 0x284 0 = Some (1, 0x1000, 0, swbkpt s)" for g p
    by (simp add: uld_rofixup_do_mem_fixup_def Let_def h mv_secs_fields assms(2) lma_search.search_first
        adj_lma_search.search_first in_extent_def)
  have lp: "fixup_loop (uld_rofixup_do_mem_fixup [mv_last (mv_rof 0x1c8)] [mv_placed] g p 0x1000)
      ULD_SECTION_FLAG_STATUS_MEM_NEEDS_FIXUP 0x3000 0x3004 [mv_placed] (mv_rof 0x1c8) 0x284 s = Some (0, swbkpt s)" for g p
    using end' [of "swbkpt s"] fx mv_secs_flags
    by (subst fixup_loop.simps)
      (simp add: rof h uld_section_find_in_list_by_lma_flag_def find_in_list_by_lma_eq mv_secs_fields in_extent_def)
  note n = uld_strcmp_bytes [OF cs_is_Lit [THEN iffD2] mv_name(2) [OF a, simplified]]
  show ?thesis
    using lp lim mv_find_rof [OF a, simplified] mv_create(3) [OF a, simplified]
    by (simp add: uld_rofixup_apply_mem_fixups_def uld_rofixup_apply_fixups_def rof
      uld_section_find_in_list_by_name_def uld_section_find_in_list_def mv_secs_fields n
      ULD_SECTION_FLAG_NONE_def)
qed

lemma mv_load:
  assumes "mv_ready (mem s)"
  shows "\<exists>uf s'. uld_dyn_load_fse_dep_list 0x1000 s stk [0x80] 2 0 0 = Some (0, [uf], 0x1000, 4, s')
    \<and> mv_ready (mem s') \<and> uf_fse uf = 0x80 \<and> uf_membase uf = 0x1000
    \<and> uf_flash uf = [mv_last (mv_rof 0x1c8)] \<and> map sec_name (uf_mem uf) = [0x27d] \<and> uf_other uf = []"
proof -
  define s1 where "s1 = s\<lparr>mem := uld_memcpy (mem s) 0x1000 0x288 4\<rparr>"
  have r1: "mv_ready (mem s1)" "ld32 (mem s1) 0x1000 = 0x288" using mv_copy [OF assms] by (simp_all add: s1_def)
  obtain sec where fx: "uld_rofixup_apply_mem_fixups s1 stk 0x1c8 0 [mv_last (mv_rof 0x1c8)] [mv_placed] 0x1000
      = Some (0, [sec], swbkpt s1)" "sec_name sec = 0x27d"
    using mv_mem_fixups [OF r1] by blast
  have f: "fse_base (fse_at (mem s) 0x80) = 0x1c8" "fse_base (fse_at (mem s1) 0x80) = 0x1c8"
    using assms r1 by (simp_all add: mv_ready_def)
  have n: "uld_load_get_next_membase 0x1000 0 0 = 0x1000" "uld_load_get_next_membase 0x1000 0x1000 0 = 0x1000"
    by (simp_all add: uld_load_get_next_membase_def ULD_LOAD_MEMBASE_ALIGNMENT_def align_up_def)
  have "\<exists>uf. uld_load_file 0x1000 s stk 0x80 [uld_section_zero, uld_section_zero] 2 ULD_DYN_LOAD_SECTION_TYPE_MASK 0x1000 0
      uld_file_zero = Some (0, 0x1000, 4, uf, swbkpt s1) \<and> uf_fse uf = 0x80 \<and> uf_membase uf = 0x1000
    \<and> uf_flash uf = [mv_last (mv_rof 0x1c8)] \<and> map sec_name (uf_mem uf) = [0x27d] \<and> uf_other uf = []"
    using mv_alloc [OF assms, folded s1_def] fx
    by (simp add: uld_load_file_def mv_load_file [OF assms] Let_def n f) (simp add: uld_file_zero_def)
  then show ?thesis using r1(1) by (auto simp: uld_dyn_load_fse_dep_list_def n numeral_2_eq_2)
qed

text \<open>The file has none of the sections of a dynamic executable and no initialisation functions.\<close>

lemma mv_file_sec:
  assumes "mv_at m 0x1c8" "uf_flash uf = [mv_last (mv_rof 0x1c8)]" "map sec_name (uf_mem uf) = [0x27d]" "uf_other uf = []"
    and "xs \<noteq> [46, 100, 97, 116, 97]" "xs \<noteq> [46, 114, 111, 102, 105, 120, 117, 112]" "0 \<notin> set xs" "xs \<noteq> []"
  shows "uld_file_get_sec_by_name m uf (Lit xs) tmask = Some None"
proof -
  obtain x where x: "uf_mem uf = [x]" "sec_name x = 0x27d" using assms(3) by auto
  have c: "\<exists>r. uld_strcmp m (Ptr 0x274) (Lit xs) = Some r \<and> r \<noteq> 0" "\<exists>r. uld_strcmp m (Ptr 0x27d) (Lit xs) = Some r \<and> r \<noteq> 0"
    using assms(5-7) mv_name [OF assms(1), simplified, THEN uld_strcmp_bytes, OF cs_is_Lit [THEN iffD2], of xs]
    by (auto simp: strcmp_bytes_eq_0)
  then show ?thesis
    using assms(2,4) x
    by (auto simp: uld_file_get_sec_by_name_def uf_secs_def mv_secs_fields uld_section_find_in_list_by_name_def
        uld_section_find_in_list_def split: if_splits)
qed

lemma mv_exec:
  assumes "mv_ready (mem s)" "0 \<le> argc" "argc \<noteq> 0 \<longrightarrow> argv \<noteq> None"
  shows "\<exists>s'. uld_dyn_exec_fse mv_env 0x80 sp_base argc argv s = Some (0, s') \<and> ld32 (mem s') 0x2000 = 0x1000"
proof -
  obtain uf s4 where ld: "uld_dyn_load_fse_dep_list 0x1000 s (env_stk_sec mv_env) [0x80] 2 0 0 = Some (0, [uf], 0x1000, 4, s4)"
      and r4: "mv_ready (mem s4)" and uf: "uf_fse uf = 0x80" "uf_membase uf = 0x1000" "uf_flash uf = [mv_last (mv_rof 0x1c8)]"
        "map sec_name (uf_mem uf) = [0x27d]" "uf_other uf = []"
    using mv_load [OF assms(1), of "env_stk_sec mv_env"] by (elim exE conjE) (rule that)
  have a: "mv_at (mem s4) 0x1c8" and f: "fse_base (fse_at (mem s4) 0x80) = 0x1c8" using r4 by (simp_all add: mv_ready_def)
  note none = mv_file_sec [OF a uf(3-5)]
  have lk: "uld_dyn_get_link_sections (mem s4) uf = Some (None, None, None, None)"
    by (simp add: uld_dyn_get_link_sections_def uld_file_get_sec_hash_def uld_file_get_sec_rel_dyn_def
        uld_file_get_sec_dynsym_def uld_file_get_sec_dynstr_def uld_file_get_sec_def none)
  have ln: "uld_dyn_link_file_list s4 res [uf] 0x1004
      = Some (0, \<lparr>ls_mach = s4, ls_res = res, ls_base = 0x1004, ls_size = 0\<rparr>)" for res
    by (simp add: uld_dyn_link_file_list_def lk)
  have gdb: "uld_fprint_gdb_sym_cmd_list (Some silent_out) stk (Some [uf]) 1 (s4, ()) = Some (- 1, s4, ())" for stk
    by (simp add: uld_fprint_gdb_sym_cmd_list_def uld_fprint_gdb_sym_cmd_def uld_file_copy_sec_by_name_def
        none uf f lit_def mv_not_found [OF a] pr_putc_def uld_putc_def silent_out_def)
  have ini: "call_all_init_funcs mv_env [uf] (swbkpt s4) = Some (swbkpt s4)"
    by (simp add: uld_exec_elf_call_init_funcs_def uf f uld_exec_init_section_list_def mv_not_found [OF a])
  have env: "env_bss_end mv_env = 0x1000" "env_pstore mv_env = 0x40" "env_out mv_env = silent_out" "env_verbose mv_env = 0"
    "env_call_entry mv_env = (\<lambda>e sp argc argv b s. Some (0, s\<lparr>mem := st32 (mem s) 0x2000 b\<rparr>))"
    by (simp_all add: mv_env_def bss_env)
  have xf: "uld_exec_file mv_env u sp_base argc argv x
      = Some (0, (swbkpt x)\<lparr>mem := st32 (mem x) 0x2000 (uf_membase u)\<rparr>)" for u x
    using assms by (auto simp: uld_exec_file_def env Let_def)
  show ?thesis
    by (simp add: uld_dyn_exec_fse_def env mv_dep [OF assms(1)] mv_sec_count [OF assms(1)] ld exec_dump_def ln gdb ini ufile_at_def xf uf Let_def
        del: call_all_init_funcs.simps)
qed

lemma mv_store:
  "fst_head (pstore_at mv_mem 0x40) = 0x80" "boot_action (pstore_at mv_mem 0x40) = 2" "files_base (pstore_at mv_mem 0x40) = 0x100"
  "files_size (pstore_at mv_mem 0x40) = 400" "fse_next (fse_at mv_mem 0x80) = 0" "fse_name (fse_at mv_mem 0x80) = 0x94"
  by (simp_all add: pstore_at_def fse_at_def ld32_def) (simp_all add: mv_mem_def)

lemma mv_file_name: "cs_is mv_mem (Ptr 0x94) (map of_char ''hello_world.elf'')"
  by (simp add: cs_is_Ptr_Cons) (simp add: cs_is_def mv_mem_def)

lemma mv_free: "uld_fs_find_free_space mv_mem 0x40 200 = Some 0x1c8"
proof -
  have chain: "fs_chain mv_mem 0x80 [0x80]" by (simp add: mv_store)
  have "uld_fs_get_file_count mv_mem 0x80 = Some 1" using fs_count_loop_eq [OF chain] by (simp add: uld_fs_get_file_count_def)
  moreover have "fs_sort_loop mv_mem 0x80 [] = Some [0x80]"
    using fs_sort_loop_eq [OF chain, of "[]"] by (simp add: fs_insert_def)
  moreover have "align_up 200 3 = (200 :: u32)" by (simp add: align_up_3)
  ultimately show ?thesis by (simp add: uld_fs_find_free_space_def mv_store mv_file Let_def)
qed

lemma mv_boot: "\<exists>s'. uld_main mv_env (mach0 mv_mem) = Some s'"
proof -
  define argv where "argv = Some (map main_str [''moved'', ''hello'', ''world''])"
  let ?s3 = "(cpu_flash_unlock (mach0 mv_mem))\<lparr>mem := mv_moved\<rparr>"
  obtain s' where ex: "uld_dyn_exec_fse mv_env 0x80 0 3 argv ?s3 = Some (0, s')"
    using mv_exec [of ?s3 3 argv 0] mv_ready_moved by (auto simp: argv_def)
  have chain: "fs_chain mv_mem 0x80 [0x80]" by (simp add: mv_store)
  have look: "uld_fs_get_file_by_name mv_mem 0x80 (main_str ''hello_world.elf'') = Some 0x80"
    using fs_by_name_eq [OF chain, of "\<lambda>_. map of_char ''hello_world.elf''" "main_str ''hello_world.elf''" "map of_char ''hello_world.elf''"]
      mv_file_name mv_store(6) by (simp add: main_str_def)
  have env: "env_pstore mv_env = 0x40" "mv_env\<lparr>env_verbose := uld_main_verbose (env_verbose mv_env) 2\<rparr> = mv_env"
    by (simp_all add: mv_env_def uld_main_verbose_def)
  show ?thesis
    using ex look mv_free mv_run by (simp add: uld_main_def env mv_store mv_file uld_main_select_def Let_def argv_def)
qed


theorem boot_moves_then_runs_witness:
  "\<exists>s3 r s4. uld_fs_find_free_space mv_mem 0x40 200 = Some 0x1c8
    \<and> uld_reloc_move_fse (mach0 mv_mem) (env_stk_sec mv_env)
        (replicate ULD_FILE_SECTION_MAX (env_stk_sec mv_env)) uld_file_zero 0x40 0x80 0x1c8 = Some (0, s3)
    \<and> uld_dyn_exec_fse mv_env 0x80 0 3 (Some (map main_str [''moved'', ''hello'', ''world''])) s3 = Some (r, s4)
    \<and> uld_main mv_env (mach0 mv_mem) = Some (swbkpt s4)"
proof -
  let ?nm = "map of_char ''hello_world.elf'' :: u8 list" and ?s = "mach0 mv_mem"
  obtain s' where run: "uld_main mv_env ?s = Some s'" using mv_boot by blast
  have env: "env_pstore mv_env = 0x40" and m: "mem ?s = mv_mem"
    and v: "mv_env\<lparr>env_verbose := uld_main_verbose (env_verbose mv_env) (boot_action (pstore_at mv_mem 0x40))\<rparr> = mv_env"
    by (simp_all add: mv_env_def mach0_def mv_store uld_main_verbose_def)
  have sel: "uld_main_select mv_env (boot_action (pstore_at (mem ?s) (env_pstore mv_env))) ?s
      = (Lit ?nm, Some (Lit ?nm), 0, 3, Some (map main_str [''moved'', ''hello'', ''world'']), ?s)"
    by (simp add: uld_main_select_def env m mv_store main_str_def)
  have area: "fs_area_ok (mem ?s) (env_pstore mv_env) [0x80]"
    by (simp add: fs_area_ok_def mv_store fse_lo_def fse_hi_def mv_file env m Let_def)
  have chain: "fs_chain (mem ?s) (fst_head (pstore_at (mem ?s) (env_pstore mv_env))) [0x80]"
    by (simp add: mv_store env m)
  have names: "\<forall>q\<in>set [0x80]. cs_is (mem ?s) (Ptr (fse_name (fse_at (mem ?s) q))) ?nm" "0 \<notin> set ?nm"
    using mv_file_name mv_store(6) by (simp_all add: m del: list.map)
  have idx: "first_idx (\<lambda>q. ?nm = ?nm) [0x80 :: u32] = Some 0" by simp
  have small: "unat (fse_size (fse_at (mem ?s) ([0x80] ! 0))) + 8 \<le> 2 ^ 31" by (simp add: mv_file m)
  have ps: "env_pstore mv_env \<noteq> 0" by (simp add: env)
  obtain dest ret s3 r s4 where e: "uld_fs_find_free_space mv_mem 0x40 (fse_size (fse_at mv_mem 0x80)) = Some dest"
    "uld_reloc_move_fse ?s (env_stk_sec mv_env) (replicate ULD_FILE_SECTION_MAX (env_stk_sec mv_env)) uld_file_zero
        0x40 0x80 dest = Some (ret, s3)"
    "uld_dyn_exec_fse mv_env 0x80 0 3 (Some (map main_str [''moved'', ''hello'', ''world''])) s3 = Some (r, s4)" "s' = swbkpt s4"
    using boot_moves_then_runs [OF sel chain area ps names(1) names(2) names(2) idx idx small run]
    unfolding env m v nth_Cons_0 by blast
  have "dest = 0x1c8" using e(1) mv_free by (simp add: mv_file)
  moreover from this have "ret = 0" using e(2) mv_run [of "env_stk_sec mv_env" uld_file_zero] by simp
  ultimately show ?thesis using e run mv_free by blast
qed

end
