(* ===== verification/Base64.thy ===== *)
theory Base64
  imports Prelude
begin

text \<open>\<open>src/base64.c\<close>: the resumable base64 encoder, one output line at a time.\<close>

definition base64_char :: "nat \<Rightarrow> u8" where
  "base64_char i = of_char
     (''ABCDEFGHIJKLMNOPQRSTUVWXYZabcdefghijklmnopqrstuvwxyz0123456789+/'' ! i)"

record base64_state =
  dest_len :: nat
  dest_pos :: nat
  brem :: nat
  brem_len :: nat
  b64_init :: bool
  b64_final :: bool

definition BASE64_STATE_INIT :: "nat \<Rightarrow> base64_state" where
  "BASE64_STATE_INIT n = \<lparr>dest_len = n mod 256, dest_pos = 0, brem = 0, brem_len = 0,
     b64_init = False, b64_final = False\<rparr>"

definition b64_start :: "base64_state \<Rightarrow> base64_state" where
  "b64_start st = \<lparr>dest_len = (((dest_len st - 1) div 4) * 4 + 1) mod 256, dest_pos = 0, brem = 0,
     brem_len = 0, b64_init = True, b64_final = False\<rparr>"

definition base64_do_final :: "mem \<Rightarrow> u32 \<Rightarrow> base64_state \<Rightarrow> int \<times> base64_state \<times> mem" where
  "base64_do_final m destp st0 =
     (let st = st0\<lparr>b64_final := True\<rparr>
      in if dest_pos st = 0 then (0, st, m)
         else if brem_len st = 0
         then (0, st\<lparr>dest_pos := (dest_pos st + 1) mod 256\<rparr>, m(destp := 0))
         else if brem_len st = 1
         then (0, st\<lparr>dest_pos := (dest_pos st + 4) mod 256\<rparr>,
               m(destp := base64_char (brem st * 16), destp + 1 := of_char CHR ''='',
                 destp + 2 := of_char CHR ''='', destp + 3 := 0))
         else if brem_len st = 2
         then (0, st\<lparr>dest_pos := (dest_pos st + 3) mod 256\<rparr>,
               m(destp := base64_char (brem st * 4), destp + 1 := of_char CHR ''='', destp + 2 := 0))
         else (- 1, st, m))"

record b64_cursor =
  cur_mem :: mem
  cur_srcp :: u32
  cur_destp :: u32
  cur_rem :: nat
  cur_brem :: nat
  cur_brem_len :: nat

definition base64_step :: "b64_cursor \<Rightarrow> b64_cursor" where
  "base64_step c =
     (let m = cur_mem c; d = cur_destp c; v = unat (m (cur_srcp c)); rem = cur_rem c;
          c1 = (if cur_brem_len c = 0
                then c\<lparr>cur_mem := m(d := base64_char (v div 4)), cur_destp := d + 1,
                       cur_brem := v mod 4, cur_brem_len := 1\<rparr>
                else if cur_brem_len c = 1
                then c\<lparr>cur_mem := m(d := base64_char (cur_brem c * 16 + v div 16)), cur_destp := d + 1,
                       cur_brem := v mod 16, cur_brem_len := 2\<rparr>
                else let m1 = m(d := base64_char (cur_brem c * 4 + v div 64))
                     in c\<lparr>cur_mem := m1(d + 1 := base64_char (unat (m1 (cur_srcp c)) mod 64)),
                          cur_destp := d + 2,
                          cur_brem := 0, cur_brem_len := 0, cur_rem := rem - 1\<rparr>);
          c2 = c1\<lparr>cur_srcp := cur_srcp c + 1, cur_rem := cur_rem c1 - 1\<rparr>
      in if cur_rem c2 = 1
         then c2\<lparr>cur_mem := (cur_mem c2)(cur_destp c2 := 0), cur_rem := 0\<rparr>
         else c2)"

fun base64_loop :: "nat \<Rightarrow> b64_cursor \<Rightarrow> nat \<times> b64_cursor" where
  "base64_loop 0 c = (0, c)"
| "base64_loop (Suc n) c =
     (let c' = base64_step c in if cur_rem c' = 0 then (n, c') else base64_loop n c')"

definition base64_encode ::
    "mem \<Rightarrow> u32 \<Rightarrow> u32 \<Rightarrow> int \<Rightarrow> base64_state \<Rightarrow> int \<times> u32 \<times> base64_state \<times> mem" where
  "base64_encode m dest src n st0 =
     (if dest = 0 \<or> b64_final st0 \<or> n < 0 then (- 1, src, st0, m)
      else if \<not> b64_init st0 \<and> dest_len st0 < 5 then (- 1, src, st0, m)
      else let st1 = (if b64_init st0 then st0 else b64_start st0);
               st = (if dest_pos st1 = dest_len st1 then st1\<lparr>dest_pos := 0\<rparr> else st1);
               destp = dest + of_nat (dest_pos st)
           in if n = 0
              then case base64_do_final m destp st of (ret, st', m') \<Rightarrow> (ret, src, st', m')
              else if src = 0 then (- 1, src, st, m)
              else if brem_len st > 2 then (- 1, src, st, m)
              else case base64_loop (nat n)
                     \<lparr>cur_mem = m, cur_srcp = src, cur_destp = destp,
                      cur_rem = dest_len st - dest_pos st, cur_brem = brem st,
                      cur_brem_len = brem_len st\<rparr> of
                   (n', c) \<Rightarrow>
                     (int n', cur_srcp c,
                      st\<lparr>dest_pos := (dest_len st - cur_rem c) mod 256, brem := cur_brem c mod 16,
                         brem_len := cur_brem_len c mod 4\<rparr>, cur_mem c))"

definition base64_final :: "mem \<Rightarrow> u32 \<Rightarrow> base64_state \<Rightarrow> int \<times> base64_state \<times> mem" where
  "base64_final m dest st =
     (case base64_encode m dest 0 0 st of (ret, src, st', m') \<Rightarrow> (ret, st', m'))"

lemma base64_loop_consumes: "fst (base64_loop n c) < n \<or> n = 0"
  by (induction n c rule: base64_loop.induct) (auto simp: Let_def)

lemma base64_do_final_le_0: "fst (base64_do_final m d st) \<le> 0"
  by (simp add: base64_do_final_def Let_def)

lemma base64_encode_consumes_fst:
  assumes "0 < fst (base64_encode m dest p n st)"
  shows "fst (base64_encode m dest p n st) < n"
proof -
  have l: "0 < n \<Longrightarrow> int (fst (base64_loop (nat n) c)) < n" for c
    using base64_loop_consumes [of "nat n" c] by linarith
  have d: "(0 < fst (base64_do_final m d st)) = False" for d st
    using base64_do_final_le_0 [of m d st] by simp
  show ?thesis
    using assms l unfolding base64_encode_def Let_def
    by (simp add: split_beta d split: if_split_asm)
qed

lemma base64_encode_consumes:
  "base64_encode m dest p n st = (n', p', st', m') \<Longrightarrow> 0 < n' \<Longrightarrow> n' < n"
  using base64_encode_consumes_fst [of m dest p n st] by simp

function base64_encode_cb ::
    "(mem \<Rightarrow> base64_state \<Rightarrow> 'o \<Rightarrow> int \<times> 'o) \<Rightarrow> mem \<Rightarrow> u32 \<Rightarrow> u32 \<Rightarrow> int \<Rightarrow> base64_state \<Rightarrow> 'o
       \<Rightarrow> int \<times> base64_state \<times> mem \<times> 'o" where
  "base64_encode_cb cb m dest p n st out =
     (if n > 0
      then case base64_encode m dest p n st of
             (n', p', st', m') \<Rightarrow>
               if n' \<le> 0 then (n', st', m', out)
               else case cb m' st' out of
                      (ret, out') \<Rightarrow> if ret < 0 then (ret, st', m', out')
                                    else base64_encode_cb cb m' dest p' n' st' out'
      else (n, st, m, out))"
  by pat_completeness auto
termination
  by (relation "measure (\<lambda>(cb, m, dest, p, n, st, out). nat n)")
     (auto dest: base64_encode_consumes [OF sym])

declare base64_encode_cb.simps [simp del]

definition base64_encode_cb_puts ::
    "(mem \<Rightarrow> u32 \<Rightarrow> 'o \<Rightarrow> int \<times> 'o) \<Rightarrow> mem \<Rightarrow> u32 \<Rightarrow> u32 \<Rightarrow> int \<Rightarrow> base64_state \<Rightarrow> 'o
       \<Rightarrow> int \<times> base64_state \<times> mem \<times> 'o" where
  "base64_encode_cb_puts cb m dest src n st out =
     base64_encode_cb (\<lambda>m st out. cb m dest out) m dest src n st out"

definition base64_final_cb_puts ::
    "(mem \<Rightarrow> u32 \<Rightarrow> 'o \<Rightarrow> int \<times> 'o) \<Rightarrow> mem \<Rightarrow> u32 \<Rightarrow> base64_state \<Rightarrow> 'o
       \<Rightarrow> int \<times> base64_state \<times> mem \<times> 'o" where
  "base64_final_cb_puts cb m dest st out =
     (case base64_final m dest st of
        (ret, st', m') \<Rightarrow>
          (case (if ret = 0 then cb m' dest out else (ret, out)) of
             (ret', out') \<Rightarrow> (if ret' > 0 then 0 else ret', st', m', out')))"

definition base64_encode_cb_write ::
    "(int \<Rightarrow> mem \<Rightarrow> u32 \<Rightarrow> nat \<Rightarrow> 'o \<Rightarrow> int \<times> 'o) \<Rightarrow> int \<Rightarrow> mem \<Rightarrow> u32 \<Rightarrow> u32 \<Rightarrow> int \<Rightarrow> base64_state \<Rightarrow> 'o
       \<Rightarrow> int \<times> base64_state \<times> mem \<times> 'o" where
  "base64_encode_cb_write cb fd m dest src n st out =
     base64_encode_cb (\<lambda>m st out. cb fd m dest (dest_len st - 1) out) m dest src n st out"

definition base64_final_cb_write ::
    "(int \<Rightarrow> mem \<Rightarrow> u32 \<Rightarrow> nat \<Rightarrow> 'o \<Rightarrow> int \<times> 'o) \<Rightarrow> int \<Rightarrow> mem \<Rightarrow> u32 \<Rightarrow> base64_state \<Rightarrow> 'o
       \<Rightarrow> int \<times> base64_state \<times> mem \<times> 'o" where
  "base64_final_cb_write cb fd m dest st out =
     (case base64_final m dest st of
        (ret, st', m') \<Rightarrow>
          (let len = (if dest_pos st' \<noteq> 0 then dest_pos st' else dest_len st') - 1
           in case (if ret = 0 then cb fd m' dest len out else (ret, out)) of
                (ret', out') \<Rightarrow> (if ret' > 0 then 0 else ret', st', m', out')))"

section \<open>The reference encoding\<close>

text \<open>Three bytes are one 24-bit number, written as four digits of base 64; a rest of one or two bytes is filled with
  zero bits and padded.\<close>

fun base64_ref :: "u8 list \<Rightarrow> u8 list" where
  "base64_ref [] = []"
| "base64_ref [a] =
     (let v = unat a * 65536
      in [base64_char (v div 262144), base64_char (v div 4096 mod 64), of_char CHR ''='', of_char CHR ''=''])"
| "base64_ref [a, b] =
     (let v = unat a * 65536 + unat b * 256
      in [base64_char (v div 262144), base64_char (v div 4096 mod 64), base64_char (v div 64 mod 64),
          of_char CHR ''=''])"
| "base64_ref (a # b # c # bs) =
     (let v = unat a * 65536 + unat b * 256 + unat c
      in [base64_char (v div 262144), base64_char (v div 4096 mod 64), base64_char (v div 64 mod 64),
          base64_char (v mod 64)] @ base64_ref bs)"

text \<open>The encoder as a stream: the state is the bits that are left over and the number of bytes they come from.\<close>

type_synonym b64_rest = "nat \<times> nat"

fun b64_push :: "b64_rest \<Rightarrow> u8 \<Rightarrow> u8 list \<times> b64_rest" where
  "b64_push (b, l) v =
     (if l = 0 then ([base64_char (unat v div 4)], (unat v mod 4, 1))
      else if l = 1 then ([base64_char (b * 16 + unat v div 16)], (unat v mod 16, 2))
      else ([base64_char (b * 4 + unat v div 64), base64_char (unat v mod 64)], (0, 0)))"

fun b64_stream :: "b64_rest \<Rightarrow> u8 list \<Rightarrow> u8 list \<times> b64_rest" where
  "b64_stream s [] = ([], s)"
| "b64_stream s (v # vs) =
     (case b64_push s v of (cs, s1) \<Rightarrow> case b64_stream s1 vs of (ds, s2) \<Rightarrow> (cs @ ds, s2))"

fun b64_flush :: "b64_rest \<Rightarrow> u8 list" where
  "b64_flush (b, l) =
     (if l = 1 then [base64_char (b * 16), of_char CHR ''='', of_char CHR ''='']
      else if l = 2 then [base64_char (b * 4), of_char CHR ''='']
      else [])"

definition b64_all :: "b64_rest \<Rightarrow> u8 list \<Rightarrow> u8 list" where
  "b64_all s vs = (case b64_stream s vs of (cs, s') \<Rightarrow> cs @ b64_flush s')"

lemma b64_all_simps [simp]:
  "b64_all s [] = b64_flush s"
  "b64_all s (v # vs) = fst (b64_push s v) @ b64_all (snd (b64_push s v)) vs"
  by (simp_all add: b64_all_def split_beta)

lemma four_digits:
  fixes p x y z :: nat
  assumes "x < 64" "y < 64" "z < (64 :: nat)"
  defines "v \<equiv> 262144 * p + 4096 * x + 64 * y + z"
  shows "v div 262144 = p" "v div 4096 mod 64 = x" "v div 64 mod 64 = y" "v mod 64 = z"
proof -
  show "v div 262144 = p" using assms by (intro div_nat_eqI) (simp_all add: algebra_simps)
  have "v div 4096 = x + p * 64" using assms by (intro div_nat_eqI) (simp_all add: algebra_simps)
  then show "v div 4096 mod 64 = x" using assms by simp
  have "v div 64 = y + (4096 * p + 64 * x)" using assms by (intro div_nat_eqI) (simp_all add: algebra_simps)
  also have "\<dots> = y + (64 * p + x) * 64" by simp
  finally show "v div 64 mod 64 = y" using assms by (simp only: mod_mult_self1) simp
  have "v = z + (4096 * p + 64 * x + y) * 64" by (simp add: v_def)
  then show "v mod 64 = z" using assms(3) by (simp only: mod_mult_self1) simp
qed

lemma sextets:
  fixes a b c :: nat
  assumes "a < 256" "b < 256" "c < (256 :: nat)"
  defines "v \<equiv> a * 65536 + b * 256 + c"
  shows "v div 262144 = a div 4" "v div 4096 mod 64 = a mod 4 * 16 + b div 16"
    "v div 64 mod 64 = b mod 16 * 4 + c div 64" "v mod 64 = c mod 64"
proof -
  define p q r s t u where "p = a div 4" and "q = a mod 4" and "r = b div 16" and "s = b mod 16"
    and "t = c div 64" and "u = c mod 64"
  note d = this
  have "a = 4 * p + q" "b = 16 * r + s" "c = 64 * t + u" by (simp_all add: d)
  then have "v = 262144 * p + 4096 * (q * 16 + r) + 64 * (s * 4 + t) + u"
    by (simp add: v_def algebra_simps)
  note v = this [unfolded d]
  have "a mod 4 < 4" "b div 16 < 16" "b mod 16 < 16" "c div 64 < 4" using assms by simp_all
  then have "a mod 4 * 16 + b div 16 < 64" "b mod 16 * 4 + c div 64 < 64" "c mod 64 < 64" by simp_all
  from four_digits [OF this, of "a div 4", folded v]
  show "v div 262144 = a div 4" "v div 4096 mod 64 = a mod 4 * 16 + b div 16"
    "v div 64 mod 64 = b mod 16 * 4 + c div 64" "v mod 64 = c mod 64" by simp_all
qed

lemma unat8: "unat (x :: u8) < 256"
  using unsigned_less [of x] by simp

lemma b64_all_ref: "b64_all (0, 0) vs = base64_ref vs"
proof (induction vs rule: base64_ref.induct)
  case (2 a)
  then show ?case using sextets [OF unat8 [of a], of 0 0] by (simp add: Let_def)
next
  case (3 a b)
  then show ?case using sextets [OF unat8 [of a] unat8 [of b], of 0] by (simp add: Let_def)
next
  case (4 a b c bs)
  then show ?case using sextets [OF unat8 [of a] unat8 [of b] unat8 [of c]] by (simp add: Let_def)
qed simp

lemma b64_stream_append:
  "b64_stream s (vs @ ws) = (case b64_stream s vs of (cs, s1) \<Rightarrow> case b64_stream s1 ws of (ds, s2) \<Rightarrow> (cs @ ds, s2))"
  by (induction vs arbitrary: s) (auto split: prod.splits)

section \<open>The encoder\<close>

text \<open>\<open>line\<close> is what the buffer of length \<open>L\<close> holds and \<open>s\<close> the left-over bits; a full line is terminated.\<close>

definition b64_line_ok :: "nat \<Rightarrow> u8 list \<Rightarrow> b64_rest \<Rightarrow> bool" where
  "b64_line_ok L line s \<longleftrightarrow> L mod 4 = 1 \<and> L < 256 \<and> length line < L \<and> length line mod 4 = snd s \<and> snd s < 3"

definition b64_at :: "mem \<Rightarrow> u32 \<Rightarrow> nat \<Rightarrow> u8 list \<Rightarrow> b64_rest \<Rightarrow> b64_cursor \<Rightarrow> bool" where
  "b64_at m dest L line s c \<longleftrightarrow>
     cur_destp c = dest + of_nat (length line) \<and> cur_brem c = fst s \<and> cur_brem_len c = snd s \<and>
     (if Suc (length line) = L then cur_rem c = 0 \<and> cur_mem c = wr_bytes m dest (line @ [0])
      else cur_rem c = L - length line \<and> cur_mem c = wr_bytes m dest line)"

lemma base64_step_at:
  assumes ok: "b64_line_ok L line s" "Suc (length line) < L" and c: "b64_at m dest L line s c"
    and v: "m (cur_srcp c) = v" "cur_srcp c \<notin> rng dest L"
    and push: "b64_push s v = (cs, s')"
  shows "b64_line_ok L (line @ cs) s' \<and> b64_at m dest L (line @ cs) s' (base64_step c)
    \<and> cur_srcp (base64_step c) = cur_srcp c + 1"
proof -
  obtain b l where s: "s = (b, l)" by (cases s)
  have len: "length line < 2 ^ 32" "Suc (length line) < 2 ^ 32" using ok by (auto simp: b64_line_ok_def)
  have nin: "cur_srcp c \<notin> rng dest n" if "n \<le> L" for n using v(2) rng_mono [OF that] by blast
  have rd: "wr_bytes m dest xs (cur_srcp c) = v" if "length xs \<le> L" for xs
    using that v(1) nin by (simp add: wr_bytes_outside)
  have c': "cur_destp c = dest + of_nat (length line)" "cur_brem c = b" "cur_brem_len c = l"
      "cur_rem c = L - length line" "cur_mem c = wr_bytes m dest line"
    using c ok(2) by (auto simp: b64_at_def s)
  have put: "(wr_bytes m dest line)(dest + of_nat (length line) := x) = wr_bytes m dest (line @ [x])"
      "(wr_bytes m dest (line @ [x]))(dest + of_nat (length line) + 1 := y) = wr_bytes m dest (line @ [x, y])" for x y
    using wr_bytes_put [OF len(1), of m dest x] wr_bytes_put [of "line @ [x]" m dest y] len(2)
    by (simp_all add: algebra_simps)
  have ne: "cur_srcp c \<noteq> dest + of_nat (length line)"
    using v(2) ok by (auto simp: rng_plus b64_line_ok_def)
  have nul: "(wr_bytes m dest xs)(dest + of_nat (length xs) := 0) = wr_bytes m dest (xs @ [0])"
    if "length xs < 256" for xs :: "u8 list"
    using that by (intro wr_bytes_put) simp
  consider "l = 0" | "l = 1" | "l = 2" using ok(1) s by (fastforce simp: b64_line_ok_def)
  then show ?thesis
  proof cases
    case 1
    then have "length line mod 4 = 0" "L mod 4 = 1" using ok(1) s by (auto simp: b64_line_ok_def)
    then have r: "Suc (Suc (length line)) < L" using ok(2) by presburger
    then show ?thesis using 1 ok push c' put rd s
      by (auto simp: b64_line_ok_def b64_at_def base64_step_def Let_def v(1) algebra_simps mod_Suc)
  next
    case 2
    then have "length line mod 4 = 1" "L mod 4 = 1" using ok(1) s by (auto simp: b64_line_ok_def)
    then have r: "Suc (Suc (length line)) < L" using ok(2) by presburger
    then show ?thesis using 2 ok push c' put rd s
      by (auto simp: b64_line_ok_def b64_at_def base64_step_def Let_def v(1) algebra_simps mod_Suc)
  next
    case 3
    then have "length line mod 4 = 2" "L mod 4 = 1" using ok(1) s by (auto simp: b64_line_ok_def)
    then have r: "Suc (Suc (length line)) < L" "(length line + 2) mod 4 = 0" using ok(2) by presburger+
    have "cs = [base64_char (b * 4 + unat v div 64), base64_char (unat v mod 64)]" "s' = (0, 0)"
      using push s 3 by auto
    then show ?thesis using 3 ok r ne c' put rd s nul [of "line @ cs"]
      by (auto simp: b64_line_ok_def b64_at_def base64_step_def Let_def v(1) algebra_simps)
  qed
qed

lemma b64_push_wf: "snd s < 3 \<Longrightarrow> snd (snd (b64_push s v)) < 3"
  by (cases s) auto

text \<open>The loop encodes bytes until the line is full or the input ends.\<close>

lemma base64_loop_at:
  assumes "b64_line_ok L line s" "Suc (length line) < L" "b64_at m dest L line s c"
    and "vs = bytes m (cur_srcp c) n" "vs \<noteq> []" "rng (cur_srcp c) n \<inter> rng dest L = {}" "n < 2 ^ 32"
  shows "\<exists>j cs s' c'. base64_loop n c = (n - j, c') \<and> 0 < j \<and> j \<le> n
    \<and> b64_stream s (take j vs) = (cs, s') \<and> cur_srcp c' = cur_srcp c + of_nat j
    \<and> b64_line_ok L (line @ cs) s' \<and> b64_at m dest L (line @ cs) s' c'
    \<and> (j < n \<longrightarrow> Suc (length (line @ cs)) = L)"
  using assms
proof (induction n arbitrary: line s c vs)
  case 0
  then show ?case by (simp add: bytes_def)
next
  case (Suc n)
  let ?v = "m (cur_srcp c)" and ?c1 = "base64_step c"
  obtain cs s1 where push: "b64_push s ?v = (cs, s1)" by (cases "b64_push s ?v")
  have vs: "vs = ?v # bytes m (cur_srcp c + 1) n" using Suc.prems(4) by (simp add: bytes_Suc)
  have rn: "rng (cur_srcp c) (Suc n) = insert (cur_srcp c) (rng (cur_srcp c + 1) n)"
    using Suc.prems(7) by (intro rng_Suc) simp
  then have nin: "cur_srcp c \<notin> rng dest L" "rng (cur_srcp c + 1) n \<inter> rng dest L = {}"
    using Suc.prems(6) by blast+
  note st = base64_step_at [OF Suc.prems(1-3) refl nin(1) push]
  have src: "cur_srcp ?c1 = cur_srcp c + 1" using st by blast
  show ?case
  proof (cases "n = 0 \<or> Suc (length (line @ cs)) = L")
    case True
    have "cur_rem ?c1 = 0 \<longleftrightarrow> Suc (length (line @ cs)) = L"
      using st by (auto simp: b64_at_def b64_line_ok_def split: if_splits)
    then have l: "base64_loop (Suc n) c = (Suc n - 1, ?c1)"
      using True by (cases "n = 0") (simp_all add: Let_def)
    have "b64_stream s (take 1 vs) = (cs, s1)" using push vs by simp
    moreover have "cur_srcp ?c1 = cur_srcp c + of_nat 1" using src by simp
    moreover have "1 < Suc n \<longrightarrow> Suc (length (line @ cs)) = L" using True by auto
    ultimately show ?thesis using l st
      by (intro exI [of _ 1] exI [of _ cs] exI [of _ s1] exI [of _ ?c1] conjI) simp_all
  next
    case False
    then have lt: "Suc (length (line @ cs)) < L" using st by (auto simp: b64_line_ok_def)
    then have "cur_rem ?c1 \<noteq> 0" using st by (auto simp: b64_at_def)
    then have loop: "base64_loop (Suc n) c = base64_loop n ?c1" by (simp add: Let_def)
    have ne: "bytes m (cur_srcp ?c1) n \<noteq> []" using False by (simp flip: length_0_conv)
    from st have ok1: "b64_line_ok L (line @ cs) s1" and at1: "b64_at m dest L (line @ cs) s1 ?c1" by blast+
    have "rng (cur_srcp ?c1) n \<inter> rng dest L = {}" "n < 2 ^ 32" using nin(2) src Suc.prems(7) by simp_all
    from Suc.IH [OF ok1 lt at1 refl ne this]
    obtain j ds s2 c' where IH: "base64_loop n ?c1 = (n - j, c')" "0 < j" "j \<le> n"
        "b64_stream s1 (take j (bytes m (cur_srcp ?c1) n)) = (ds, s2)" "cur_srcp c' = cur_srcp ?c1 + of_nat j"
        "b64_line_ok L ((line @ cs) @ ds) s2" "b64_at m dest L ((line @ cs) @ ds) s2 c'"
        "j < n \<longrightarrow> Suc (length ((line @ cs) @ ds)) = L"
      by blast
    have "b64_stream s (take (Suc j) vs) = (cs @ ds, s2)" using IH(4) push vs src by simp
    moreover have "cur_srcp c' = cur_srcp c + of_nat (Suc j)" using IH(5) src by simp
    moreover have "base64_loop (Suc n) c = (Suc n - Suc j, c')" using IH(1) loop by simp
    ultimately show ?thesis using IH(2,3,6,7,8)
      by (intro exI [of _ "Suc j"] exI [of _ "cs @ ds"] exI [of _ s2] exI [of _ c'] conjI) simp_all
  qed
qed

section \<open>One call\<close>

text \<open>The state of an encoder between calls: it holds the line and the left-over bits; at a full line the position is
  the length of the buffer.\<close>

definition b64_state_ok :: "mem \<Rightarrow> u32 \<Rightarrow> base64_state \<Rightarrow> u8 list \<Rightarrow> b64_rest \<Rightarrow> bool" where
  "b64_state_ok m dest st line s \<longleftrightarrow>
     b64_init st \<and> \<not> b64_final st \<and> brem st = fst s \<and> fst s < 16 \<and> brem_len st = snd s
     \<and> b64_line_ok (dest_len st) line s \<and> 5 \<le> dest_len st \<and> bytes m dest (length line) = line
     \<and> dest_pos st = (if Suc (length line) = dest_len st then dest_len st else length line)"

definition b64_fresh :: "base64_state \<Rightarrow> u8 list \<Rightarrow> u8 list" where
  "b64_fresh st line = (if Suc (length line) = dest_len st then [] else line)"

lemma b64_push_lt: "fst s < 16 \<Longrightarrow> fst (snd (b64_push s v)) < 16"
  by (cases s) auto

lemma b64_stream_lt: "fst s < 16 \<Longrightarrow> fst (snd (b64_stream s vs)) < 16"
  by (induction vs arbitrary: s) (auto simp: split_beta b64_push_lt)

lemma base64_encode_run:
  assumes st: "b64_state_ok m dest st line s" and n: "0 < n" "n < 2 ^ 32" and p: "dest \<noteq> 0" "src \<noteq> 0"
    and apart: "rng src n \<inter> rng dest (dest_len st) = {}"
  shows "\<exists>j cs s' st' m'. base64_encode m dest src (int n) st = (int (n - j), src + of_nat j, st', m')
    \<and> 0 < j \<and> j \<le> n \<and> b64_stream s (take j (bytes m src n)) = (cs, s')
    \<and> b64_state_ok m' dest st' (b64_fresh st line @ cs) s' \<and> dest_len st' = dest_len st
    \<and> agrees_off (rng dest (dest_len st)) m m'
    \<and> (j < n \<longrightarrow> Suc (length (b64_fresh st line @ cs)) = dest_len st)"
proof -
  let ?L = "dest_len st" and ?line = "b64_fresh st line"
  let ?st = "if dest_pos st = ?L then st\<lparr>dest_pos := 0\<rparr> else st"
  let ?c = "\<lparr>cur_mem = m, cur_srcp = src, cur_destp = dest + of_nat (dest_pos ?st), cur_rem = ?L - dest_pos ?st,
    cur_brem = brem st, cur_brem_len = brem_len st\<rparr>"
  have L: "?L mod 4 = 1" "?L < 256" "length line < ?L" "5 \<le> ?L" using st by (auto simp: b64_state_ok_def b64_line_ok_def)
  have pos: "dest_pos ?st = length ?line"
    using st L(3) by (auto simp: b64_state_ok_def b64_fresh_def)
  have ok: "b64_line_ok ?L ?line s" "Suc (length ?line) < ?L"
    using st L by (auto simp: b64_state_ok_def b64_fresh_def b64_line_ok_def) presburger
  have "bytes m dest (length ?line) = ?line" using st by (simp add: b64_state_ok_def b64_fresh_def bytes_def)
  then have "wr_bytes m dest ?line = m" using wr_bytes_same [of "length ?line" m dest] ok L(2) by simp
  then have at: "b64_at m dest ?L ?line s ?c"
    using st ok(2) pos by (simp add: b64_at_def b64_state_ok_def)
  have ne: "bytes m (cur_srcp ?c) n \<noteq> []" using n(1) by (simp flip: length_0_conv)
  have "rng (cur_srcp ?c) n \<inter> rng dest ?L = {}" using apart by simp
  from base64_loop_at [OF ok at refl ne this n(2)]
  obtain j cs s' c' where r: "base64_loop n ?c = (n - j, c')" "0 < j" "j \<le> n"
      "b64_stream s (take j (bytes m src n)) = (cs, s')" "cur_srcp c' = src + of_nat j"
      "b64_line_ok ?L (?line @ cs) s'" "b64_at m dest ?L (?line @ cs) s' c'"
      "j < n \<longrightarrow> Suc (length (?line @ cs)) = ?L"
    by auto
  define st' where "st' = ?st\<lparr>dest_pos := (?L - cur_rem c') mod 256, brem := cur_brem c' mod 16,
    brem_len := cur_brem_len c' mod 4\<rparr>"
  have enc: "base64_encode m dest src (int n) st = (int (n - j), src + of_nat j, st', cur_mem c')"
    using st n(1) p r(1,5) L(4) unfolding base64_encode_def Let_def st'_def
    by (simp add: b64_state_ok_def b64_line_ok_def split: if_splits)
  have len: "length (?line @ cs) < ?L" using r(6) by (simp add: b64_line_ok_def)
  obtain tail where tail: "cur_mem c' = wr_bytes m dest (?line @ cs @ tail)" "length (?line @ cs @ tail) \<le> ?L"
    using r(7) len that [of "[]"] that [of "[0]"] by (cases "Suc (length (?line @ cs)) = ?L") (auto simp: b64_at_def)
  have "bytes (cur_mem c') dest (length (?line @ cs)) = ?line @ cs"
  proof (rule nth_equalityI)
    fix i assume "i < length (bytes (cur_mem c') dest (length (?line @ cs)))"
    then have "i < length (?line @ cs)" by simp
    then show "bytes (cur_mem c') dest (length (?line @ cs)) ! i = (?line @ cs) ! i"
      using tail wr_bytes_at [of i "(?line @ cs) @ tail" m dest] L(2) len
      by (simp add: nth_append_left [of i "?line @ cs" tail] del: append_assoc flip: append_assoc)
  qed simp
  moreover have "fst s' < 16" using b64_stream_lt [of s "take j (bytes m src n)"] st r(4) by (simp add: b64_state_ok_def)
  ultimately have "b64_state_ok (cur_mem c') dest st' (?line @ cs) s'"
    using st r(6,7) L unfolding st'_def
    by (auto simp: b64_state_ok_def b64_at_def b64_line_ok_def split: if_splits)
  moreover have "agrees_off (rng dest ?L) m (cur_mem c')" using agrees_off_wr tail by metis
  moreover have "dest_len st' = ?L" by (simp add: st'_def)
  ultimately show ?thesis using enc r(2,3,4,8) by blast
qed

lemma base64_encode_start:
  assumes "\<not> b64_init st" "\<not> b64_final st" "5 \<le> dest_len st" "dest \<noteq> 0" "0 \<le> n"
  shows "base64_encode m dest src n st = base64_encode m dest src n (b64_start st)"
  using assms by (auto simp: base64_encode_def Let_def b64_start_def)

lemma b64_start_ok:
  assumes "5 \<le> dest_len st" "dest_len st < 256"
  shows "b64_state_ok m dest (b64_start st) [] (0, 0)"
    "dest_len (b64_start st) = (dest_len st - 1) div 4 * 4 + 1" "dest_len (b64_start st) \<le> dest_len st"
proof -
  have "(dest_len st - 1) div 4 * 4 + 1 \<le> dest_len st" "5 \<le> (dest_len st - 1) div 4 * 4 + 1"
    using assms by presburger+
  moreover have "((dest_len st - 1) div 4 * 4 + 1) mod 4 = 1" by presburger
  ultimately show "b64_state_ok m dest (b64_start st) [] (0, 0)"
    "dest_len (b64_start st) = (dest_len st - 1) div 4 * 4 + 1" "dest_len (b64_start st) \<le> dest_len st"
    using assms(2) by (auto simp: b64_state_ok_def b64_start_def b64_line_ok_def bytes_def)
qed

section \<open>The callback loop\<close>

text \<open>A write callback that records what it is given.\<close>

definition b64_record :: "int \<Rightarrow> mem \<Rightarrow> u32 \<Rightarrow> nat \<Rightarrow> u8 list \<Rightarrow> int \<times> u8 list" where
  "b64_record fd m p n out = (int n, out @ bytes m p n)"

lemma b64_stream_ne: "b64_stream s vs = (cs, s') \<Longrightarrow> vs \<noteq> [] \<Longrightarrow> cs \<noteq> []"
  by (cases vs; cases s) (auto split: prod.splits if_splits)

lemma encode_cb_run:
  assumes "b64_state_ok m dest st line s" "0 < n" "n < 2 ^ 32" "dest \<noteq> 0" "unat src + n < 2 ^ 32"
    and "rng src n \<inter> rng dest (dest_len st) = {}" "src \<noteq> 0"
  shows "\<exists>st' m' out' line'. base64_encode_cb_write b64_record fd m dest src (int n) st out = (0, st', m', out')
    \<and> b64_state_ok m' dest st' line' (snd (b64_stream s (bytes m src n))) \<and> dest_len st' = dest_len st \<and> line' \<noteq> []
    \<and> out' @ line' = out @ b64_fresh st line @ fst (b64_stream s (bytes m src n))
    \<and> agrees_off (rng dest (dest_len st)) m m'"
  using assms
proof (induction n arbitrary: m st line s src out rule: less_induct)
  case (less n)
  let ?L = "dest_len st"
  let ?cb = "\<lambda>m st out. b64_record fd m dest (dest_len st - 1) out"
  obtain j cs s1 st1 m1 where e: "base64_encode m dest src (int n) st = (int (n - j), src + of_nat j, st1, m1)"
      "0 < j" "j \<le> n" "b64_stream s (take j (bytes m src n)) = (cs, s1)"
      "b64_state_ok m1 dest st1 (b64_fresh st line @ cs) s1" "dest_len st1 = ?L"
      "agrees_off (rng dest ?L) m m1" "j < n \<longrightarrow> Suc (length (b64_fresh st line @ cs)) = ?L"
    using base64_encode_run [OF less.prems(1-4,7,6)] by blast
  have tk: "bytes m src n = bytes m src j @ bytes m (src + of_nat j) (n - j)"
    using bytes_split [of m src j "n - j"] e(3) by simp
  then have s1: "b64_stream s (bytes m src j) = (cs, s1)" using e(4) by simp
  then have ne: "cs \<noteq> []" using e(2) by (intro b64_stream_ne [OF s1]) (simp flip: length_0_conv)
  show ?case
  proof (cases "j = n")
    case True
    then have "base64_encode_cb_write b64_record fd m dest src (int n) st out = (0, st1, m1, out)"
      using e(1) less.prems(2) by (simp add: base64_encode_cb_write_def base64_encode_cb.simps)
    then show ?thesis using True e s1 ne
      by (intro exI [of _ st1] exI [of _ m1] exI [of _ out] exI [of _ "b64_fresh st line @ cs"] conjI) simp_all
  next
    case False
    then have jn: "j < n" using e(3) by simp
    let ?src = "src + of_nat j" and ?line = "b64_fresh st line @ cs"
    have full: "Suc (length ?line) = ?L" using jn e(8) by blast
    then have "?L - 1 = length ?line" by simp
    then have b1: "bytes m1 dest (?L - 1) = ?line" using e(5) unfolding b64_state_ok_def by metis
    have step: "base64_encode_cb_write b64_record fd m dest src (int n) st out
        = base64_encode_cb_write b64_record fd m1 dest ?src (int (n - j)) st1 (out @ ?line)"
      using e(1,6) jn b1 unfolding base64_encode_cb_write_def
      by (subst base64_encode_cb.simps) (simp add: b64_record_def)
    have sub: "rng ?src (n - j) \<subseteq> rng src n" using rng_sub [of j n src] jn less.prems(3) by simp
    have same: "bytes m1 ?src (n - j) = bytes m ?src (n - j)"
      using e(7) sub less.prems(3,6) by (intro agrees_off_bytes) auto
    have us: "unat ?src = unat src + j" using less.prems(5) jn by (intro unat_add_of_nat) simp
    then have nz: "?src \<noteq> 0" "unat ?src + (n - j) < 2 ^ 32" using e(2) less.prems(5) jn by auto
    have lt: "n - j < n" "0 < n - j" "n - j < 2 ^ 32" using e(2) jn less.prems(3) by auto
    have disj: "rng ?src (n - j) \<inter> rng dest (dest_len st1) = {}" using sub less.prems(6) e(6) by auto
    have fr: "b64_fresh st1 ?line = []" using full e(6) by (simp add: b64_fresh_def)
    obtain st' m' out' line' where IH: "base64_encode_cb_write b64_record fd m1 dest ?src (int (n - j)) st1 (out @ ?line) = (0, st', m', out')"
        "b64_state_ok m' dest st' line' (snd (b64_stream s1 (bytes m1 ?src (n - j))))" "dest_len st' = dest_len st1" "line' \<noteq> []"
        "out' @ line' = (out @ ?line) @ b64_fresh st1 ?line @ fst (b64_stream s1 (bytes m1 ?src (n - j)))"
        "agrees_off (rng dest (dest_len st1)) m1 m'"
      by (rule less.IH [OF lt(1) e(5) lt(2,3) less.prems(4) nz(2) disj nz(1), of "out @ ?line", THEN exE]) blast
    then show ?thesis using step e(6,7) fr s1 tk same
      by (intro exI [of _ st'] exI [of _ m'] exI [of _ out'] exI [of _ line'] conjI)
        (auto simp: b64_stream_append split_beta intro: agrees_off_trans)
  qed
qed

section \<open>The end of the stream\<close>

lemma do_final_wr:
  assumes st: "b64_state_ok m dest st line s" and "line \<noteq> []" and "Suc (length line) \<noteq> dest_len st"
  shows "\<exists>st'. base64_do_final m (dest + of_nat (length line)) st
      = (0, st', wr_bytes m dest (line @ b64_flush s @ [0]))
    \<and> dest_pos st' = length line + length (b64_flush s) + 1 \<and> dest_pos st' \<le> dest_len st"
proof -
  obtain b l where s: "s = (b, l)" by (cases s)
  have f: "dest_pos st = length line" "brem st = b" "brem_len st = l" "l < 3" "length line mod 4 = l"
      "dest_len st mod 4 = 1" "dest_len st < 256" "length line < dest_len st" "bytes m dest (length line) = line"
    using st assms(3) s by (auto simp: b64_state_ok_def b64_line_ok_def)
  have m: "m = wr_bytes m dest line" using wr_bytes_same [of "length line" m dest] f by simp
  have put: "(wr_bytes m dest xs)(dest + of_nat (length xs) := x) = wr_bytes m dest (xs @ [x])"
    if "length xs < 300" for xs x using that by (intro wr_bytes_put) simp
  have p0: "m(dest + of_nat (length line) := x) = wr_bytes m dest (line @ [x])" for x
    using put [of line x] m f by simp
  have p1: "(wr_bytes m dest (line @ [x]))(dest + of_nat (length line) + 1 := y) = wr_bytes m dest (line @ [x, y])"
    "(wr_bytes m dest (line @ [x, y]))(dest + of_nat (length line) + 2 := z) = wr_bytes m dest (line @ [x, y, z])"
    "(wr_bytes m dest (line @ [x, y, z]))(dest + of_nat (length line) + 3 := w) = wr_bytes m dest (line @ [x, y, z, w])"
    for x y z w
    using put [of "line @ [x]" y] put [of "line @ [x, y]" z] put [of "line @ [x, y, z]" w] f
    by (simp_all add: algebra_simps)
  consider "l = 0" | "l = 1" | "l = 2" using f(4) by linarith
  then show ?thesis
  proof cases
    case 1
    then have "length line + 1 \<le> dest_len st" using f(8) by simp
    then show ?thesis using 1 f s assms(2) p0 by (simp add: base64_do_final_def Let_def)
  next
    case 2
    then have "length line + 4 \<le> dest_len st" using f(5,6,8) by presburger
    then show ?thesis using 2 f s assms(2) p0 p1 by (simp add: base64_do_final_def Let_def)
  next
    case 3
    then have "length line + 3 \<le> dest_len st" using f(5,6,8) by presburger
    then show ?thesis using 3 f s assms(2) p0 p1 by (simp add: base64_do_final_def Let_def)
  qed
qed

lemma final_cb_run:
  assumes st: "b64_state_ok m dest st line s" and ne: "line \<noteq> []" and d: "dest \<noteq> 0"
  shows "\<exists>st' m'. base64_final_cb_write b64_record fd m dest st out = (0, st', m', out @ line @ b64_flush s)
    \<and> agrees_off (rng dest (dest_len st)) m m'"
proof (cases "Suc (length line) = dest_len st")
  case True
  then have "snd s = 0" and L: "dest_len st < 256" using st by (auto simp: b64_state_ok_def b64_line_ok_def) presburger
  then have fl: "b64_flush s = []" by (cases s) simp
  have b: "bytes m dest (dest_len st - 1) = line"
  proof -
    have "dest_len st - 1 = length line" using True by simp
    then show ?thesis using st unfolding b64_state_ok_def by metis
  qed
  have "base64_final m dest st = (0, st\<lparr>dest_pos := 0, b64_final := True\<rparr>, m)"
    using st True d by (simp add: b64_state_ok_def base64_final_def base64_encode_def Let_def base64_do_final_def)
  then show ?thesis using b fl
    by (simp add: base64_final_cb_write_def Let_def b64_record_def)
next
  case False
  obtain st' where st': "base64_do_final m (dest + of_nat (length line)) st = (0, st', wr_bytes m dest (line @ b64_flush s @ [0]))"
      "dest_pos st' = length line + length (b64_flush s) + 1" "dest_pos st' \<le> dest_len st"
    using do_final_wr [OF st ne False] by blast
  have L: "dest_len st < 256" using st by (simp add: b64_state_ok_def b64_line_ok_def)
  have "base64_final m dest st = (0, st', wr_bytes m dest (line @ b64_flush s @ [0]))"
    using st False d st' ne by (simp add: b64_state_ok_def base64_final_def base64_encode_def Let_def)
  moreover have "bytes (wr_bytes m dest (line @ b64_flush s @ [0])) dest (length line + length (b64_flush s))
      = line @ b64_flush s"
    using bytes_wr_take [of "length line + length (b64_flush s)" "line @ b64_flush s @ [0]" m dest] st' L by simp
  moreover have "agrees_off (rng dest (dest_len st)) m (wr_bytes m dest (line @ b64_flush s @ [0]))"
    using st' by (intro agrees_off_wr) simp
  ultimately show ?thesis using st'(2)
    by (simp add: base64_final_cb_write_def Let_def b64_record_def)
qed

section \<open>Properties\<close>

text \<open>C10 Encoding a block through the callback and then closing the stream hands the callback, line
  by line, exactly the base 64 encoding of the block, whatever the length of the buffer, and writes only inside the
  buffer.\<close>

theorem base64_lines_encode:
  assumes "\<not> b64_init st" "\<not> b64_final st" "5 \<le> dest_len st" "dest_len st < 256"
    and "0 < n" "unat src + n < 2 ^ 32" "src \<noteq> 0" "dest \<noteq> 0"
    and "rng src n \<inter> rng dest (dest_len st) = {}"
  shows "\<exists>st1 m1 out1 st2 m2. base64_encode_cb_write b64_record fd m dest src (int n) st out = (0, st1, m1, out1)
    \<and> base64_final_cb_write b64_record fd m1 dest st1 out1 = (0, st2, m2, out @ base64_ref (bytes m src n))
    \<and> agrees_off (rng dest (dest_len st)) m m2"
proof -
  let ?st = "b64_start st"
  note start = b64_start_ok [OF assms(3,4)]
  have eq: "base64_encode_cb_write b64_record fd m dest src (int n) st out
      = base64_encode_cb_write b64_record fd m dest src (int n) ?st out"
    using base64_encode_start [OF assms(1-3,8), of "int n" m src] assms(5)
    unfolding base64_encode_cb_write_def by (subst (1 2) base64_encode_cb.simps) simp
  have disj: "rng src n \<inter> rng dest (dest_len ?st) = {}" using assms(9) rng_mono [OF start(3)] by blast
  have n: "n < 2 ^ 32" using assms(6) by simp
  obtain st1 m1 out1 line where e: "base64_encode_cb_write b64_record fd m dest src (int n) ?st out = (0, st1, m1, out1)"
      "b64_state_ok m1 dest st1 line (snd (b64_stream (0, 0) (bytes m src n)))" "dest_len st1 = dest_len ?st" "line \<noteq> []"
      "out1 @ line = out @ b64_fresh ?st [] @ fst (b64_stream (0, 0) (bytes m src n))"
      "agrees_off (rng dest (dest_len ?st)) m m1"
    by (rule encode_cb_run [OF start(1) assms(5) n assms(8,6) disj assms(7), THEN exE]) blast
  obtain st2 m2 where f: "base64_final_cb_write b64_record fd m1 dest st1 out1
      = (0, st2, m2, out1 @ line @ b64_flush (snd (b64_stream (0, 0) (bytes m src n))))"
      "agrees_off (rng dest (dest_len st1)) m1 m2"
    using final_cb_run [OF e(2,4) assms(8)] by blast
  have "b64_fresh ?st [] = []" by (simp add: b64_fresh_def)
  then have "out1 @ line @ b64_flush (snd (b64_stream (0, 0) (bytes m src n))) = out @ base64_ref (bytes m src n)"
    using e(5) by (simp add: b64_all_ref [symmetric] b64_all_def split_beta flip: append_assoc)
  moreover have "agrees_off (rng dest (dest_len st)) m m2"
    using agrees_off_trans [OF e(6) f(2) [unfolded e(3)]] rng_mono [OF start(3)] by (rule agrees_off_mono)
  ultimately show ?thesis using eq e(1) f(1) by auto
qed

theorem base64_lines_encode_witness:
  "\<exists>st1 m1 out1 st2 m2. base64_encode_cb_write b64_record 1 ((\<lambda>a. 0)(0x100 := 77, 0x101 := 97, 0x102 := 110, 0x103 := 33))
      0x200 0x100 4 (BASE64_STATE_INIT 5) [] = (0, st1, m1, out1)
    \<and> base64_final_cb_write b64_record 1 m1 0x200 st1 out1 = (0, st2, m2, map of_char ''TWFuIQ=='')"
proof -
  let ?m = "(\<lambda>a. 0)(0x100 := 77, 0x101 := 97, 0x102 := 110, 0x103 := 33) :: mem"
  have b: "bytes ?m 0x100 4 = [77, 97, 110, 33]" by (simp add: bytes_def upt_rec)
  have "rng 0x100 4 \<inter> rng 0x200 5 = {}" by (rule rng_disjoint_linear) simp_all
  then show ?thesis
    using base64_lines_encode [of "BASE64_STATE_INIT 5" 4 "0x100" "0x200" 1 ?m "[]"]
    by (simp add: BASE64_STATE_INIT_def b base64_char_def) blast
qed

text \<open>C28 A block that ends exactly at the end of a line leaves that line in the buffer; when
  another block follows, the line is overwritten and never reaches the callback: the output goes on with the second
  block.\<close>

theorem base64_full_line_dropped:
  assumes "b64_state_ok m dest st line s" "Suc (length line) = dest_len st"
    and "0 < n" "unat src + n < 2 ^ 32" "src \<noteq> 0" "dest \<noteq> 0" "rng src n \<inter> rng dest (dest_len st) = {}"
  shows "\<exists>st1 m1 out1 st2 m2. base64_encode_cb_write b64_record fd m dest src (int n) st out = (0, st1, m1, out1)
    \<and> base64_final_cb_write b64_record fd m1 dest st1 out1 = (0, st2, m2, out @ base64_ref (bytes m src n))"
proof -
  have n: "n < 2 ^ 32" using assms(4) by simp
  obtain st1 m1 out1 line1 where e: "base64_encode_cb_write b64_record fd m dest src (int n) st out = (0, st1, m1, out1)"
      "b64_state_ok m1 dest st1 line1 (snd (b64_stream s (bytes m src n)))" "line1 \<noteq> []"
      "out1 @ line1 = out @ b64_fresh st line @ fst (b64_stream s (bytes m src n))"
    by (rule encode_cb_run [OF assms(1,3) n assms(6,4,7,5), THEN exE]) blast
  obtain st2 m2 where f: "base64_final_cb_write b64_record fd m1 dest st1 out1
      = (0, st2, m2, out1 @ line1 @ b64_flush (snd (b64_stream s (bytes m src n))))"
    using final_cb_run [OF e(2,3) assms(6)] by blast
  have "snd s = 0" using assms(1,2) by (auto simp: b64_state_ok_def b64_line_ok_def) presburger
  then obtain b where s: "s = (b, 0)" by (cases s) auto
  obtain v vs where v: "bytes m src n = v # vs" using assms(3) by (cases "bytes m src n") (auto simp flip: length_0_conv)
  have "b64_stream s (bytes m src n) = b64_stream (0, 0) (bytes m src n)" by (simp add: v s)
  then have "out1 @ line1 @ b64_flush (snd (b64_stream s (bytes m src n))) = out @ base64_ref (bytes m src n)"
    using e(4) assms(2)
    by (simp add: b64_fresh_def b64_all_ref [symmetric] b64_all_def split_beta flip: append_assoc)
  then show ?thesis using e(1) f by auto
qed

text \<open>The line \<open>TWFu\<close> is pending in a buffer of five bytes; the block \<open>Foo\<close> follows.\<close>

theorem base64_full_line_dropped_witness:
  "\<exists>st m st1 m1 out1 st2 m2. base64_encode_cb_write b64_record 1
        ((\<lambda>a. 0)(0x100 := 77, 0x101 := 97, 0x102 := 110, 0x110 := 70, 0x111 := 111, 0x112 := 111)) 0x200 0x100 3
        (BASE64_STATE_INIT 5) [] = (0, st, m, [])
    \<and> base64_encode_cb_write b64_record 1 m 0x200 0x110 3 st [] = (0, st1, m1, out1)
    \<and> base64_final_cb_write b64_record 1 m1 0x200 st1 out1 = (0, st2, m2, map of_char ''Rm9v'')"
proof -
  let ?k = "(\<lambda>a. 0)(0x100 := 77, 0x101 := 97, 0x102 := 110, 0x110 := 70, 0x111 := 111, 0x112 := 111) :: mem"
  let ?m = "?k(0x200 := 84, 0x201 := 87, 0x202 := 70, 0x203 := 117, 0x204 := 0)"
  let ?st = "\<lparr>dest_len = 5, dest_pos = 5, brem = 0, brem_len = 0, b64_init = True, b64_final = False\<rparr>"
  have b: "bytes ?m 0x110 3 = [70, 111, 111]" "bytes ?m 0x200 4 = [84, 87, 70, 117]"
    by (simp_all add: bytes_def upt_rec)
  have four: "bytes ?m 0x200 (Suc (Suc (Suc (Suc 0)))) = bytes ?m 0x200 4" by (rule arg_cong) simp
  have "rng 0x110 3 \<inter> rng 0x200 5 = {}" by (rule rng_disjoint_linear) simp_all
  moreover have "b64_state_ok ?m 0x200 ?st [84, 87, 70, 117] (0, 0)"
    using b(2) four by (simp add: b64_state_ok_def b64_line_ok_def)
  ultimately have A: "\<exists>st1 m1 out1 st2 m2. base64_encode_cb_write b64_record 1 ?m 0x200 0x110 3 ?st [] = (0, st1, m1, out1)
    \<and> base64_final_cb_write b64_record 1 m1 0x200 st1 out1 = (0, st2, m2, map of_char ''Rm9v'')"
    using base64_full_line_dropped [of ?m "0x200" ?st "[84, 87, 70, 117]" "(0, 0)" 3 "0x110" 1 "[]"]
    by (simp add: b base64_char_def)
  have B: "base64_encode_cb_write b64_record 1 ?k 0x200 0x100 3 (BASE64_STATE_INIT 5) [] = (0, ?st, ?m, [])"
    unfolding base64_encode_cb_write_def
    by (subst base64_encode_cb.simps)
      (simp add: base64_encode_def BASE64_STATE_INIT_def b64_start_def base64_step_def numeral_3_eq_3 base64_char_def)
  show ?thesis by (rule exI [of _ ?st], rule exI [of _ ?m]) (use A B in simp)
qed

text \<open>Closing a stream that got no bytes writes nothing, and yet the callback is handed the buffer.\<close>

lemma base64_final_empty:
  assumes "\<not> b64_init st" "\<not> b64_final st" "5 \<le> dest_len st" "dest_len st < 256" "dest \<noteq> 0"
  shows "\<exists>st' n. base64_final_cb_write b64_record fd m dest st out = (0, st', m, out @ bytes m dest n) \<and> 4 \<le> n"
proof -
  have "base64_final m dest st = (0, (b64_start st)\<lparr>b64_final := True\<rparr>, m)"
    using assms b64_start_ok(2) [OF assms(3,4)]
    by (simp add: base64_final_def base64_encode_def Let_def base64_do_final_def b64_start_def)
  then have "base64_final_cb_write b64_record fd m dest st out
      = (0, (b64_start st)\<lparr>b64_final := True\<rparr>, m, out @ bytes m dest (dest_len (b64_start st) - 1))"
    by (simp add: base64_final_cb_write_def Let_def b64_record_def b64_start_def)
  moreover have "4 \<le> dest_len (b64_start st) - 1"
    using b64_start_ok(1) [OF assms(3,4), of m dest] by (auto simp: b64_state_ok_def)
  ultimately show ?thesis by blast
qed

end
