(* ===== verification/ExPrint.thy ===== *)
theory ExPrint
  imports Swi
begin

text \<open>The print library \<open>src/example/ex_lib_print.c\<close>: repeated characters, boxes, case conversion, the cow.\<close>

definition ascii :: "string \<Rightarrow> u8 list" where "ascii x = map of_char x"

definition line :: "string \<Rightarrow> u8 list" where "line x = ascii x @ [10]"

section \<open>The print library\<close>

definition moo_str :: "u8 list" where
  "moo_str = concat (map line [
     '' ______'',
     ''< moo! >'',
     '' ------'',
     ''        '' @ [CHR 0x5C] @ ''   ^__^'',
     ''         '' @ [CHR 0x5C] @ ''  (oo)'' @ [CHR 0x5C] @ ''_______'',
     ''            (__)'' @ [CHR 0x5C] @ ''       )'' @ [CHR 0x5C] @ ''/'' @ [CHR 0x5C],
     ''                ||----w |'',
     ''                ||     ||''])"

partial_function (option) nputchar_loop :: "'w FILE \<Rightarrow> mem \<Rightarrow> u8 list \<Rightarrow> u32 \<Rightarrow> 'w \<Rightarrow> 'w option" where
  "nputchar_loop std_out m chars n w =
     (if n \<noteq> 0
      then Option.bind (uld_fwrite std_out m (Lit chars) 1 (min n 16) w)
             (\<lambda>(r, w1). nputchar_loop std_out m chars (n - r) w1)
      else Some w)"

definition ex_print_nputchar :: "'w FILE \<Rightarrow> mem \<Rightarrow> int \<Rightarrow> u32 \<Rightarrow> 'w \<Rightarrow> (int \<times> 'w) option" where
  "ex_print_nputchar std_out m c n w =
     (if n = 0 then Some (0, w)
      else do { w1 \<leftarrow> nputchar_loop std_out m (replicate 16 (word_of_int c)) n w; Some (0, w1) })"

definition ex_print_lmr :: "'w FILE \<Rightarrow> mem \<Rightarrow> char \<Rightarrow> char \<Rightarrow> char \<Rightarrow> u32 \<Rightarrow> 'w \<Rightarrow> 'w option" where
  "ex_print_lmr std_out m left middle right n w = do {
     (r1, w1) \<leftarrow> uld_putc std_out (of_char left) w;
     (r2, w2) \<leftarrow> ex_print_nputchar std_out m (of_char middle) n w1;
     (r3, w3) \<leftarrow> uld_putc std_out (of_char right) w2;
     (r4, w4) \<leftarrow> uld_putc std_out 10 w3;
     Some w4 }"

definition ex_print_box_top :: "'w FILE \<Rightarrow> mem \<Rightarrow> int \<Rightarrow> 'w \<Rightarrow> 'w option" where
  "ex_print_box_top std_out m x w = ex_print_lmr std_out m (CHR ''/'') (CHR ''-'') (CHR 0x5C) (word_of_int x) w"

definition ex_print_box_bottom :: "'w FILE \<Rightarrow> mem \<Rightarrow> int \<Rightarrow> 'w \<Rightarrow> 'w option" where
  "ex_print_box_bottom std_out m x w = ex_print_lmr std_out m (CHR 0x5C) (CHR ''-'') (CHR ''/'') (word_of_int x) w"

fun box_rows :: "'w FILE \<Rightarrow> mem \<Rightarrow> int \<Rightarrow> nat \<Rightarrow> 'w \<Rightarrow> 'w option" where
  "box_rows std_out m x 0 w = Some w"
| "box_rows std_out m x (Suc y) w = do {
     (r1, w1) \<leftarrow> uld_putc std_out (of_char (CHR ''|'')) w;
     (r2, w2) \<leftarrow> ex_print_nputchar std_out m (of_char (CHR '' '')) (word_of_int x) w1;
     (r3, w3) \<leftarrow> uld_putc std_out (of_char (CHR ''|'')) w2;
     (r4, w4) \<leftarrow> uld_putc std_out 10 w3;
     box_rows std_out m x y w4 }"

definition ex_print_box :: "'w FILE \<Rightarrow> mem \<Rightarrow> int \<Rightarrow> int \<Rightarrow> 'w \<Rightarrow> (int \<times> 'w) option" where
  "ex_print_box std_out m x0 y0 w = (let x = max x0 2 - 2; y = max y0 2 - 2 in do {
     w1 \<leftarrow> ex_print_box_top std_out m x w;
     w2 \<leftarrow> box_rows std_out m x (nat y) w1;
     w3 \<leftarrow> ex_print_box_bottom std_out m x w2;
     Some (0, w3) })"

definition ex_print_box_text ::
    "'w FILE \<Rightarrow> cstr \<Rightarrow> machine \<Rightarrow> 'w \<Rightarrow> (int \<times> machine \<times> 'w) option" where
  "ex_print_box_text std_out str s w =
     (if str = Ptr 0 then Some (- 1, s, w)
      else do {
        n \<leftarrow> cs_strlen (mem s) str;
        let x = sint (of_nat n :: u32);
        w1 \<leftarrow> ex_print_box_top std_out (mem s) x w;
        (r, s1, w2) \<leftarrow> uld_printf std_out (Lit (line ''|%s|'')) [Str str] s w1;
        w3 \<leftarrow> ex_print_box_bottom std_out (mem s1) x w2;
        Some (0, s1, w3) })"

definition case_char :: "bool \<Rightarrow> u8 \<Rightarrow> u8" where
  "case_char up c =
     (if up then (if c \<ge> ch CHR ''a'' \<and> c \<le> ch CHR ''z'' then c - ch CHR ''a'' + ch CHR ''A'' else c)
      else (if c \<ge> ch CHR ''A'' \<and> c \<le> ch CHR ''Z'' then c - ch CHR ''A'' + ch CHR ''a'' else c))"

partial_function (option) case_loop :: "mem \<Rightarrow> bool \<Rightarrow> cstr \<Rightarrow> nat \<Rightarrow> u8 list \<Rightarrow> u8 list option" where
  "case_loop m up str i chars =
     (if cs_byte m str i \<noteq> 0 then case_loop m up str (Suc i) (chars @ [case_char up (cs_byte m str i)])
      else Some chars)"

definition ex_print_case :: "'w FILE \<Rightarrow> mem \<Rightarrow> cstr \<Rightarrow> bool \<Rightarrow> 'w \<Rightarrow> (int \<times> 'w) option" where
  "ex_print_case std_out m str up w =
     (if str = Ptr 0 then Some (- 1, w)
      else do {
        chars \<leftarrow> case_loop m up str 0 [];
        (r, w1) \<leftarrow> uld_fputs std_out m (Lit chars) w;
        Some (0, w1) })"

definition ex_print_upper :: "'w FILE \<Rightarrow> mem \<Rightarrow> cstr \<Rightarrow> 'w \<Rightarrow> (int \<times> 'w) option" where
  "ex_print_upper std_out m str w = ex_print_case std_out m str True w"

definition ex_print_lower :: "'w FILE \<Rightarrow> mem \<Rightarrow> cstr \<Rightarrow> 'w \<Rightarrow> (int \<times> 'w) option" where
  "ex_print_lower std_out m str w = ex_print_case std_out m str False w"

definition ex_print_cow :: "'w FILE \<Rightarrow> mem \<Rightarrow> 'w \<Rightarrow> 'w option" where
  "ex_print_cow std_out m w = do { (r, w1) \<leftarrow> uld_puts std_out m (Lit moo_str) w; Some w1 }"

definition box_line :: "char \<Rightarrow> char \<Rightarrow> char \<Rightarrow> nat \<Rightarrow> u8 list" where
  "box_line l c r n = [ch l] @ replicate n (ch c) @ [ch r, 10]"

lemma ascii_word [simp]: "word_of_int (of_char c) = (of_char c :: u8)"
  by (cases c) simp

definition box_pic :: "nat \<Rightarrow> u8 list list \<Rightarrow> u8 list" where
  "box_pic n rows = box_line (CHR ''/'') (CHR ''-'') (CHR 0x5C) n
     @ concat (map (\<lambda>row. ascii ''|'' @ row @ line ''|'') rows) @ box_line (CHR 0x5C) (CHR ''-'') (CHR ''/'') n"

lemma small_int: "0 \<le> x \<Longrightarrow> x < 2147483648 \<Longrightarrow> unat (word_of_int x :: u32) = nat x"
  using small_word(2) [of "nat x"] by (simp add: nat_less_iff)

lemma str_is_Lit: "0 \<notin> set bs \<Longrightarrow> length bs < 2147483648 \<Longrightarrow> str_is m (Lit bs) bs"
  by (simp add: str_is_def cs_from_def cs_is_Lit)

context text_stream
begin

lemma putc_out: "\<exists>r w'. uld_putc stream c w = Some (r, w') \<and> out w' = out w @ [word_of_int c]"
  using putchar_text [of c w] by (auto simp: uld_putc_def)

lemma nputchar_loop_out:
  "unat n < 2147483648 \<Longrightarrow> \<exists>w'. nputchar_loop stream m (replicate 16 c) n w = Some w' \<and> out w' = out w @ replicate (unat n) c"
proof (induction "unat n" arbitrary: n w rule: less_induct)
  case less
  show ?case
  proof (cases "n = 0")
    case True
    then show ?thesis by (subst nputchar_loop.simps) simp
  next
    case False
    define k where "k = min n 16"
    have k: "k \<noteq> 0" "k \<le> n" "unat k \<le> 16" using False by (auto simp: k_def min_def word_le_nat_alt)
    have k0: "0 < unat k" "unat k \<le> unat n" using k by (auto simp: word_le_nat_alt unat_gt_0)
    obtain w1 where w1: "write_f stream m (file_fd stream) (Lit (replicate 16 c)) k w = Some (int (unat k), w1)"
      "out w1 = out w @ replicate (unat k) c"
      using write_lit [of "replicate 16 c" "unat k" m w] k by (auto simp: min_def)
    have d: "unat (n - k) = unat n - unat k" using k by (simp add: unat_sub)
    obtain w2 where "nputchar_loop stream m (replicate 16 c) (n - k) w1 = Some w2"
      "out w2 = out w1 @ replicate (unat (n - k)) c"
      using less.hyps [of "n - k" w1] less.prems d k0 less_imp_diff_less [OF less.prems] by auto
    moreover have "uld_fwrite stream m (Lit (replicate 16 c)) 1 k w = Some (k, w1)"
      using w1(1) by (simp add: uld_fwrite_def)
    ultimately show ?thesis using False w1(2) d k0
      by (subst nputchar_loop.simps) (simp add: k_def [symmetric] flip: replicate_add)
  qed
qed

lemma nputchar_out:
  "unat n < 2147483648 \<Longrightarrow> \<exists>w'. ex_print_nputchar stream m c n w = Some (0, w') \<and> out w' = out w @ replicate (unat n) (word_of_int c)"
  using nputchar_loop_out [of n m "word_of_int c" w] by (auto simp: ex_print_nputchar_def)

lemma lmr_out:
  assumes "unat n < 2147483648"
  shows "\<exists>w'. ex_print_lmr stream m l c r n w = Some w' \<and> out w' = out w @ box_line l c r (unat n)"
proof -
  obtain r1 w1 where 1: "uld_putc stream (of_char l) w = Some (r1, w1)" "out w1 = out w @ [ch l]"
    using putc_out [of "of_char l" w] by (auto simp: ch_def)
  obtain w2 where 2: "ex_print_nputchar stream m (of_char c) n w1 = Some (0, w2)" "out w2 = out w1 @ replicate (unat n) (ch c)"
    using nputchar_out [OF assms, of m "of_char c" w1] by (auto simp: ch_def)
  obtain r3 w3 where 3: "uld_putc stream (of_char r) w2 = Some (r3, w3)" "out w3 = out w2 @ [ch r]"
    using putc_out [of "of_char r" w2] by (auto simp: ch_def)
  obtain r4 w4 where 4: "uld_putc stream 10 w3 = Some (r4, w4)" "out w4 = out w3 @ [10]"
    using putc_out [of 10 w3] by auto
  show ?thesis using 1 2 3 4 by (simp add: ex_print_lmr_def box_line_def)
qed

lemma box_rows_out:
  assumes "0 \<le> x" "x < 2147483648"
  shows "\<exists>w'. box_rows stream m x y w = Some w'
    \<and> out w' = out w @ concat (replicate y (ascii ''|'' @ replicate (nat x) 32 @ line ''|''))"
proof (induction y arbitrary: w)
  case (Suc y)
  have n: "unat (word_of_int x :: u32) = nat x" using assms by (simp add: small_int)
  obtain r1 w1 where 1: "uld_putc stream (of_char CHR ''|'') w = Some (r1, w1)" "out w1 = out w @ ascii ''|''"
    using putc_out [of "of_char CHR ''|''" w] by (auto simp: ascii_def)
  obtain w2 where 2: "ex_print_nputchar stream m (of_char CHR '' '') (word_of_int x) w1 = Some (0, w2)"
    "out w2 = out w1 @ replicate (nat x) 32"
    using nputchar_out [of "word_of_int x" m "of_char CHR '' ''" w1] assms n by (auto simp: nat_less_iff)
  obtain r3 w3 where 3: "uld_putc stream (of_char CHR ''|'') w2 = Some (r3, w3)" "out w3 = out w2 @ ascii ''|''"
    using putc_out [of "of_char CHR ''|''" w2] by (auto simp: ascii_def)
  obtain r4 w4 where 4: "uld_putc stream 10 w3 = Some (r4, w4)" "out w4 = out w3 @ [10]"
    using putc_out [of 10 w3] by auto
  obtain w5 where "box_rows stream m x y w4 = Some w5"
    "out w5 = out w4 @ concat (replicate y (ascii ''|'' @ replicate (nat x) 32 @ line ''|''))"
    using Suc by blast
  then show ?case using 1 2 3 4 by (simp add: line_def)
qed simp

lemma box_out:
  assumes "x < 2147483648"
  shows "\<exists>w'. ex_print_box stream m x y w = Some (0, w')
    \<and> out w' = out w @ box_pic (nat (x - 2)) (replicate (nat (y - 2)) (replicate (nat (x - 2)) 32))"
proof -
  define x1 where "x1 = max x 2 - 2"
  have x1: "0 \<le> x1" "x1 < 2147483648" "nat x1 = nat (x - 2)" "nat (max y 2 - 2) = nat (y - 2)" using assms by (auto simp: x1_def)
  have n: "unat (word_of_int x1 :: u32) = nat x1" using x1 by (simp add: small_int)
  note l = lmr_out [of "word_of_int x1" m, unfolded n, OF iffD2 [OF nat_less_iff [OF x1(1)]]]
  obtain w1 where 1: "ex_print_box_top stream m x1 w = Some w1" "out w1 = out w @ box_line (CHR ''/'') (CHR ''-'') (CHR 0x5C) (nat x1)"
    using l x1 unfolding ex_print_box_top_def by fastforce
  obtain w2 where 2: "box_rows stream m x1 (nat (y - 2)) w1 = Some w2"
    "out w2 = out w1 @ concat (replicate (nat (y - 2)) (ascii ''|'' @ replicate (nat x1) 32 @ line ''|''))"
    using box_rows_out [OF x1(1,2)] by blast
  obtain w3 where 3: "ex_print_box_bottom stream m x1 w2 = Some w3" "out w3 = out w2 @ box_line (CHR 0x5C) (CHR ''-'') (CHR ''/'') (nat x1)"
    using l x1 unfolding ex_print_box_bottom_def by fastforce
  show ?thesis using 1 2 3 x1 by (simp add: ex_print_box_def Let_def x1_def [symmetric] box_pic_def)
qed

lemma printf_lit:
  assumes "0 \<notin> set fs" "length fs < 2147483648" "known_text (mem s) tx" "fmt_text tx ap fs = Some t" "fmt_bkpts fs = 0"
  shows "\<exists>w'. uld_printf stream (Lit fs) ap s w = Some (int (length t), s, w') \<and> out w' = out w @ t"
  using vfprintf_out [OF str_is_Lit [OF assms(1,2)] assms(3,4), of w] assms(5) by (simp add: uld_printf_def)

lemma box_text_out:
  assumes "str_is (mem s) str bs"
  shows "\<exists>w'. ex_print_box_text stream str s w = Some (0, s, w') \<and> out w' = out w @ box_pic (length bs) [bs]"
proof -
  have a: "cs_is (mem s) str bs" "length bs < 2147483648" "str \<noteq> Ptr 0" using assms by (auto simp: str_is_def cs_from_def)
  have n: "unat (word_of_int (int (length bs)) :: u32) = length bs" using a(2) by (simp add: small_word)
  have l: "cs_strlen (mem s) str = Some (length bs)" "sint (of_nat (length bs) :: u32) = int (length bs)"
    using a by (simp_all add: cs_strlen_is small_word)
  obtain w1 where 1: "ex_print_box_top stream (mem s) (int (length bs)) w = Some w1"
    "out w1 = out w @ box_line (CHR ''/'') (CHR ''-'') (CHR 0x5C) (length bs)"
    using lmr_out a(2) n unfolding ex_print_box_top_def by metis
  have k: "known_text (mem s) [str \<mapsto> bs]" using assms by (simp add: known_text_def)
  have f: "fmt_text [str \<mapsto> bs] [Str str] (line ''|%s|'') = Some (ascii ''|'' @ bs @ line ''|'')" "fmt_bkpts (line ''|%s|'') = 0"
    by (simp_all add: line_def ascii_def ch_def mod_step_def conv_text_def va_str_def field_text_def pad_text_def conv_known_def)
  obtain w2 where 2: "uld_printf stream (Lit (line ''|%s|'')) [Str str] s w1
      = Some (int (length (ascii ''|'' @ bs @ line ''|'')), s, w2)"
    "out w2 = out w1 @ ascii ''|'' @ bs @ line ''|''"
    using printf_lit [OF _ _ k f, of w1] by (auto simp: line_def ascii_def)
  obtain w3 where 3: "ex_print_box_bottom stream (mem s) (int (length bs)) w2 = Some w3"
    "out w3 = out w2 @ box_line (CHR 0x5C) (CHR ''-'') (CHR ''/'') (length bs)"
    using lmr_out a(2) n unfolding ex_print_box_bottom_def by metis
  show ?thesis using 1 2 3 a l by (simp add: ex_print_box_text_def Let_def box_pic_def)
qed

end

lemma case_loop_is:
  assumes "cs_is m str bs" "i \<le> length bs"
  shows "case_loop m up str i chars = Some (chars @ map (case_char up) (drop i bs))"
  using assms
proof (induction "length bs - i" arbitrary: i chars)
  case 0
  then show ?case by (subst case_loop.simps) (simp add: cs_is_def)
next
  case (Suc k)
  then have i: "i < length bs" by simp
  have c: "cs_byte m str i = bs ! i" "bs ! i \<noteq> 0" using Suc.prems i by (auto simp: cs_is_def) (metis nth_mem)
  have "case_loop m up str (Suc i) (chars @ [case_char up (bs ! i)])
      = Some ((chars @ [case_char up (bs ! i)]) @ map (case_char up) (drop (Suc i) bs))"
    using Suc i by (intro Suc.hyps) auto
  then show ?case using c i by (subst case_loop.simps) (simp add: Cons_nth_drop_Suc [symmetric])
qed

lemma case_char_nz: "c \<noteq> 0 \<Longrightarrow> case_char up c \<noteq> 0"
proof -
  have u: "c - 97 + 65 \<noteq> 0" if "97 \<le> c" for c :: u8
  proof
    assume "c - 97 + 65 = 0"
    then have "c = 32" by (simp add: algebra_simps)
    then show False using that by simp
  qed
  have l: "c - 65 + 97 \<noteq> 0" if "c \<le> 90" for c :: u8
  proof
    assume "c - 65 + 97 = 0"
    then have "c = - 32" by (simp add: algebra_simps eq_neg_iff_add_eq_0)
    then show False using that by simp
  qed
  show "c \<noteq> 0 \<Longrightarrow> case_char up c \<noteq> 0" using u l by (auto simp: case_char_def ch_def)
qed

context text_stream
begin

lemma fputs_out:
  assumes "str_is m str bs"
  shows "\<exists>r w'. uld_fputs stream m str w = Some (r, w') \<and> out w' = out w @ bs"
proof -
  have a: "cs_is m str bs" "length bs < 2147483648" "cs_from str 0 \<noteq> Ptr 0" "cs_from str 0 = str"
    using assms by (auto simp: str_is_def cs_from_def split: cstr.split)
  show ?thesis using write_str [of "length bs" str 0 m bs w] a
    by (auto simp: uld_fputs_def cs_strlen_is Let_def)
qed

lemma case_out:
  assumes "str_is m str bs"
  shows "\<exists>w'. ex_print_case stream m str up w = Some (0, w') \<and> out w' = out w @ map (case_char up) bs"
proof -
  have a: "cs_is m str bs" "length bs < 2147483648" "str \<noteq> Ptr 0" "0 \<notin> set bs"
    using assms by (auto simp: str_is_def cs_from_def cs_is_def)
  have "str_is m (Lit (map (case_char up) bs)) (map (case_char up) bs)"
    using a(2,4) by (intro str_is_Lit) (auto, metis case_char_nz)
  from fputs_out [OF this, of w] show ?thesis
    using a case_loop_is [OF a(1), of 0 up "[]"] by (auto simp: ex_print_case_def)
qed

end

lemma std_out_stream:
  assumes "\<And>fd buf w. \<exists>w'. host_write h fd buf w = (0, w') \<and> out w' = out w @ buf"
  shows "text_stream (SWI_STDOUT h) out"
proof -
  have r: "reliable_host h out" by unfold_locales (rule assms)
  show ?thesis
    by unfold_locales (use reliable_host.swi_write_ok [OF r, of 1] reliable_host.swi_dputchar_ok [OF r, of 1] in
      \<open>auto simp: SWI_STDOUT_def swi_file_def SWI_STDOUT_FILENO_def\<close>)
qed

text \<open>C40 With a host that accepts every write, \<open>ex_print_box\<close> draws a frame of the given width and height (at
  least two by two) and \<open>ex_print_box_text\<close> a frame around its text, whatever the text holds, and both return 0 without
  meeting a breakpoint.\<close>

theorem box_drawn:
  assumes "\<And>fd buf w. \<exists>w'. host_write h fd buf w = (0, w') \<and> out w' = out w @ buf"
    and "x < 2147483648" "str_is (mem s) str bs"
  shows "(\<exists>w'. ex_print_box (SWI_STDOUT h) m x y w = Some (0, w')
      \<and> out w' = out w @ box_pic (nat (x - 2)) (replicate (nat (y - 2)) (replicate (nat (x - 2)) (ch CHR '' ''))))
    \<and> (\<exists>w'. ex_print_box_text (SWI_STDOUT h) str s w = Some (0, s, w') \<and> out w' = out w @ box_pic (length bs) [bs])"
proof -
  note st = std_out_stream [of h, OF assms(1)]
  show ?thesis using text_stream.box_out [OF st assms(2)] text_stream.box_text_out [OF st assms(3)] by (simp add: ch_def)
qed

theorem box_drawn_witness:
  "\<exists>w'. ex_print_box_text (SWI_STDOUT log_host) (Lit [104, 105]) (mach0 (\<lambda>_. 0)) [] = Some (0, mach0 (\<lambda>_. 0), w')
    \<and> w' = ascii ''/--'' @ [92, 10] @ line ''|hi|'' @ [92] @ line ''--/''"
proof -
  have h: "\<exists>w'. host_write log_host fd buf w = (0, w') \<and> w' = w @ buf" for fd buf w by (simp add: log_host_def)
  have s: "str_is (mem (mach0 (\<lambda>_. 0))) (Lit [104, 105]) [104, 105]" by (rule str_is_Lit) simp_all
  show ?thesis using box_drawn [of log_host "\<lambda>w. w" 5, OF h _ s, of "\<lambda>_. 0" 4]
    by (auto simp: box_pic_def box_line_def ascii_def line_def ch_def)
qed

end
