(* ===== verification/ExFtable.thy ===== *)
theory ExFtable
  imports ExPrint
begin

text \<open>The function table library \<open>src/example/ex_lib_ftable.c\<close>: three functions behind a table that a switch rewrites,
  and the console of the example programs, a machine and a state of the stream.\<close>

datatype ex_ftable_func = Func_a | Func_b | Func_c

record ex_ftable =
  ptr_a :: ex_ftable_func
  ptr_b :: ex_ftable_func
  ptr_c :: ex_ftable_func

text \<open>The exported table, to which \<open>ex_ftable_ptr\<close> points, and the static state of the switch.\<close>

record ftable_lib =
  lib_table :: ex_ftable
  lib_state :: int

definition ex_ftable_init :: ftable_lib where
  "ex_ftable_init = \<lparr>lib_table = \<lparr>ptr_a = Func_a, ptr_b = Func_b, ptr_c = Func_c\<rparr>, lib_state = 0\<rparr>"

text \<open>The addresses that the examples print are known to the linker only.\<close>

record ex_addrs =
  reg_pc :: u32
  reg_sp :: u32
  reg_fb :: u32
  addr_std :: "u32 list"
  addr_io :: "u32 list"
  addr_table :: u32
  addr_func :: "ex_ftable_func \<Rightarrow> u32"
  addr_dl_alloc :: "u32 list"
  addr_main :: u32

type_synonym 'w con = "machine \<times> 'w"

definition con_printf :: "'w FILE \<Rightarrow> u8 list \<Rightarrow> va_arg list \<Rightarrow> 'w con \<Rightarrow> 'w con option" where
  "con_printf std_out fs ap c = do { (r, s, w) \<leftarrow> uld_printf std_out (Lit fs) ap (fst c) (snd c); Some (s, w) }"

definition print_ctor :: "'w FILE \<Rightarrow> ex_addrs \<Rightarrow> string \<Rightarrow> 'w con \<Rightarrow> 'w con option" where
  "print_ctor std_out ad func c = do {
     c1 \<leftarrow> con_printf std_out (line ''** constructor %s called **'') [Str (Lit (ascii func))] c;
     con_printf std_out (line ''registers pc: 0x%08lx sp: 0x%08lx fb: 0x%08lx'')
       [Word (reg_pc ad), Word (reg_sp ad), Word (reg_fb ad)] c1 }"

definition table_args :: "ex_addrs \<Rightarrow> ftable_lib \<Rightarrow> va_arg list" where
  "table_args ad lib = map (Word \<circ> addr_func ad) [ptr_a (lib_table lib), ptr_b (lib_table lib), ptr_c (lib_table lib)]"

definition ex_ftable_ctor :: "'w FILE \<Rightarrow> ex_addrs \<Rightarrow> ftable_lib \<Rightarrow> 'w con \<Rightarrow> 'w con option" where
  "ex_ftable_ctor std_out ad lib c = do {
     c1 \<leftarrow> print_ctor std_out ad ''ex_ftable_ctor'' c;
     con_printf std_out (line ''[<%p>] ex_ftable .ptr_a: 0x%p  .ptr_b 0x%p  .ptr_c 0x%p'')
       (Word (addr_table ad) # table_args ad lib) c1 }"

definition ex_ftable_func_a :: "'w FILE \<Rightarrow> u32 \<Rightarrow> 'w con \<Rightarrow> 'w con option" where
  "ex_ftable_func_a std_out x c = con_printf std_out (line ''ex_ftable_func_a called with x: %d'') [Word x] c"

definition ex_ftable_func_b :: "'w FILE \<Rightarrow> u32 \<Rightarrow> 'w con \<Rightarrow> 'w con option" where
  "ex_ftable_func_b std_out x c = con_printf std_out (line ''ex_ftable_func_b called with x: %d'') [Word x] c"

definition ex_ftable_func_c :: "'w FILE \<Rightarrow> u32 \<Rightarrow> 'w con \<Rightarrow> 'w con option" where
  "ex_ftable_func_c std_out x c = con_printf std_out (line ''ex_ftable_func_c called with x: %d'') [Word x] c"

fun call_ftable_func :: "'w FILE \<Rightarrow> ex_ftable_func \<Rightarrow> u32 \<Rightarrow> 'w con \<Rightarrow> 'w con option" where
  "call_ftable_func std_out Func_a x c = ex_ftable_func_a std_out x c"
| "call_ftable_func std_out Func_b x c = ex_ftable_func_b std_out x c"
| "call_ftable_func std_out Func_c x c = ex_ftable_func_c std_out x c"

definition switch_table :: "ftable_lib \<Rightarrow> ftable_lib" where
  "switch_table lib =
     (if lib_state lib = 0
      then \<lparr>lib_table = \<lparr>ptr_a = Func_b, ptr_b = Func_c, ptr_c = Func_a\<rparr>, lib_state = 1\<rparr>
      else if lib_state lib = 1
      then \<lparr>lib_table = \<lparr>ptr_a = Func_c, ptr_b = Func_a, ptr_c = Func_b\<rparr>, lib_state = 2\<rparr>
      else if lib_state lib = 2
      then \<lparr>lib_table = \<lparr>ptr_a = Func_a, ptr_b = Func_a, ptr_c = Func_a\<rparr>, lib_state = 3\<rparr>
      else \<lparr>lib_table = \<lparr>ptr_a = Func_c, ptr_b = Func_c, ptr_c = Func_c\<rparr>, lib_state = 0\<rparr>)"

definition ex_ftable_change_funcs :: "'w FILE \<Rightarrow> ftable_lib \<Rightarrow> 'w con \<Rightarrow> (ftable_lib \<times> 'w con) option" where
  "ex_ftable_change_funcs std_out lib c = (let lib' = switch_table lib in do {
     c1 \<leftarrow> con_printf std_out (line ''ex_ftable_change_funcs switching table to state %d'')
             [Word (word_of_int (lib_state lib'))] c;
     Some (lib', c1) })"

end
