(* ===== verification/ExGarage.thy ===== *)
theory ExGarage
  imports ExFtable
begin

text \<open>The garage library \<open>src/example/ex_lib_garage.c\<close>: counters of cars and trucks and of the calls, and their
  printers.\<close>

record 'w garage =
  call_count_get :: u32
  call_count_set :: u32
  call_count_inc_dec :: u32
  call_count_print :: u32
  car_count :: u32
  truck_count :: u32
  garage_name :: cstr
  mystery_func :: "'w FILE \<Rightarrow> mem \<Rightarrow> 'w \<Rightarrow> 'w option"

definition garage_init :: "'w garage" where
  "garage_init = \<lparr>call_count_get = 0, call_count_set = 2, call_count_inc_dec = 0, call_count_print = 1,
     car_count = 2, truck_count = 0, garage_name = Lit (ascii ''Squeaky'' @ [39] @ ascii ''s garage''),
     mystery_func = ex_print_cow\<rparr>"

definition ex_garage_set_cars :: "u32 \<Rightarrow> 'w garage \<Rightarrow> 'w garage" where
  "ex_garage_set_cars cars g = g\<lparr>call_count_set := call_count_set g + 1, car_count := cars\<rparr>"

definition ex_garage_get_cars :: "'w garage \<Rightarrow> u32 \<times> 'w garage" where
  "ex_garage_get_cars g = (let g1 = g\<lparr>call_count_get := call_count_get g + 1\<rparr> in (car_count g1, g1))"

definition ex_garage_inc_car :: "'w garage \<Rightarrow> 'w garage" where
  "ex_garage_inc_car g =
     (case ex_garage_get_cars (g\<lparr>call_count_inc_dec := call_count_inc_dec g + 1\<rparr>) of
        (n, g1) \<Rightarrow> ex_garage_set_cars (n + 1) g1)"

definition ex_garage_dec_car :: "'w garage \<Rightarrow> 'w garage" where
  "ex_garage_dec_car g =
     (case ex_garage_get_cars (g\<lparr>call_count_inc_dec := call_count_inc_dec g + 1\<rparr>) of
        (n, g1) \<Rightarrow> ex_garage_set_cars (n - 1) g1)"

definition ex_garage_set_trucks :: "u32 \<Rightarrow> 'w garage \<Rightarrow> 'w garage" where
  "ex_garage_set_trucks trucks g = g\<lparr>call_count_set := call_count_set g + 1, truck_count := trucks\<rparr>"

definition ex_garage_get_trucks :: "'w garage \<Rightarrow> u32 \<times> 'w garage" where
  "ex_garage_get_trucks g = (let g1 = g\<lparr>call_count_get := call_count_get g + 1\<rparr> in (truck_count g1, g1))"

definition ex_garage_inc_truck :: "'w garage \<Rightarrow> 'w garage" where
  "ex_garage_inc_truck g =
     (case ex_garage_get_trucks (g\<lparr>call_count_inc_dec := call_count_inc_dec g + 1\<rparr>) of
        (n, g1) \<Rightarrow> ex_garage_set_trucks (n + 1) g1)"

definition ex_garage_dec_truck :: "'w garage \<Rightarrow> 'w garage" where
  "ex_garage_dec_truck g =
     (case ex_garage_get_trucks (g\<lparr>call_count_inc_dec := call_count_inc_dec g + 1\<rparr>) of
        (n, g1) \<Rightarrow> ex_garage_set_trucks (n - 1) g1)"

definition ex_garage_get_vehicles :: "'w garage \<Rightarrow> u32 \<times> 'w garage" where
  "ex_garage_get_vehicles g =
     (let g1 = g\<lparr>call_count_get := call_count_get g + 1\<rparr> in (car_count g1 + truck_count g1, g1))"

definition count_print :: "'w garage \<Rightarrow> 'w garage" where
  "count_print g = g\<lparr>call_count_print := call_count_print g + 1\<rparr>"

definition ex_garage_print_car_count ::
    "'w FILE \<Rightarrow> 'w garage \<Rightarrow> 'w con \<Rightarrow> ('w garage \<times> 'w con) option" where
  "ex_garage_print_car_count std_out g c = (let g1 = count_print g in do {
     (r, w1) \<leftarrow> ex_print_upper std_out (mem (fst c)) (Lit (ascii ''CAR count: '')) (snd c);
     let (n, g2) = ex_garage_get_cars g1;
     c2 \<leftarrow> con_printf std_out (line ''%d cars'') [Word n] (fst c, w1);
     Some (g2, c2) })"

definition ex_garage_print_truck_count ::
    "'w FILE \<Rightarrow> 'w garage \<Rightarrow> 'w con \<Rightarrow> ('w garage \<times> 'w con) option" where
  "ex_garage_print_truck_count std_out g c = (let g1 = count_print g in do {
     (r, w1) \<leftarrow> ex_print_lower std_out (mem (fst c)) (Lit (ascii ''TRUCK count: '')) (snd c);
     let (n, g2) = ex_garage_get_trucks g1;
     c2 \<leftarrow> con_printf std_out (line ''%d trucks'') [Word n] (fst c, w1);
     Some (g2, c2) })"

definition ex_garage_print_vehicle_count ::
    "'w FILE \<Rightarrow> 'w garage \<Rightarrow> 'w con \<Rightarrow> ('w garage \<times> 'w con) option" where
  "ex_garage_print_vehicle_count std_out g c = (case ex_garage_get_vehicles (count_print g) of
     (n, g1) \<Rightarrow> do {
       c1 \<leftarrow> con_printf std_out (line ''total count: %d vehicles'') [Word n] c;
       Some (g1, c1) })"

definition ex_garage_print_call_counts ::
    "'w FILE \<Rightarrow> 'w garage \<Rightarrow> 'w con \<Rightarrow> ('w garage \<times> 'w con) option" where
  "ex_garage_print_call_counts std_out g c = (let g1 = count_print g in do {
     c1 \<leftarrow> con_printf std_out (line ''call count - get: %d set: %d inc/dec: %d print: %d'')
       [Word (call_count_get g1), Word (call_count_set g1), Word (call_count_inc_dec g1), Word (call_count_print g1)] c;
     Some (g1, c1) })"

definition ex_garage_print_banner ::
    "'w FILE \<Rightarrow> 'w garage \<Rightarrow> 'w con \<Rightarrow> ('w garage \<times> 'w con) option" where
  "ex_garage_print_banner std_out g c = (let g1 = count_print g in do {
     len \<leftarrow> cs_strlen (mem (fst c)) (garage_name g1);
     let banner = ascii ''Welcome to '' @ map (cs_byte (mem (fst c)) (garage_name g1)) [0..<len];
     (r, s1, w1) \<leftarrow> ex_print_box_text std_out (Lit banner) (fst c) (snd c);
     Some (g1, (s1, w1)) })"

definition print_std_addrs :: "'w FILE \<Rightarrow> ex_addrs \<Rightarrow> 'w con \<Rightarrow> 'w con option" where
  "print_std_addrs std_out ad c = do {
     c1 \<leftarrow> con_printf std_out (line ''stdin: %p stdout: %p stderr: %p'') (map Word (addr_std ad)) c;
     con_printf std_out (line ''write: %p puts: %p printf: %p'') (map Word (addr_io ad)) c1 }"

definition ex_garage_ctor_1 ::
    "'w FILE \<Rightarrow> ex_addrs \<Rightarrow> 'w garage \<Rightarrow> 'w con \<Rightarrow> ('w garage \<times> 'w con) option" where
  "ex_garage_ctor_1 std_out ad g c = do {
     c1 \<leftarrow> print_ctor std_out ad ''ex_garage_ctor_1'' c;
     c2 \<leftarrow> print_std_addrs std_out ad c1;
     ex_garage_print_call_counts std_out g c2 }"

definition ex_garage_ctor_2 :: "'w FILE \<Rightarrow> ex_addrs \<Rightarrow> 'w con \<Rightarrow> 'w con option" where
  "ex_garage_ctor_2 std_out ad c = do {
     c1 \<leftarrow> print_ctor std_out ad ''ex_garage_ctor_2'' c;
     con_printf std_out (line ''ex_print_dl_alloc_* [<%p>] [<%p>] [<%p>]'') (map Word (addr_dl_alloc ad)) c1 }"

end
