(* ===== verification/ExTest.thy ===== *)
theory ExTest
  imports ExGarage
begin

text \<open>The programs \<open>src/example/ex_app_dyn_test.c\<close> and \<open>src/example/ex_app_hello_world.c\<close>, run to their last
  breakpoint.\<close>

definition con_putchar :: "'w FILE \<Rightarrow> int \<Rightarrow> 'w con \<Rightarrow> 'w con option" where
  "con_putchar std_out x c = do { (r, w) \<leftarrow> uld_putchar std_out x (snd c); Some (fst c, w) }"

section \<open>The dynamic linking test\<close>

definition ex_dyn_test_ctor :: "'w FILE \<Rightarrow> ex_addrs \<Rightarrow> 'w con \<Rightarrow> 'w con option" where
  "ex_dyn_test_ctor std_out ad c = do {
     c1 \<leftarrow> print_ctor std_out ad ''ex_dyn_test_ctor'' c;
     print_std_addrs std_out ad c1 }"

definition ex_dyn_test_print_ex_ftable :: "'w FILE \<Rightarrow> ex_addrs \<Rightarrow> ftable_lib \<Rightarrow> 'w con \<Rightarrow> 'w con option" where
  "ex_dyn_test_print_ex_ftable std_out ad lib c =
     con_printf std_out (line '' .ptr_a: 0x%p  .ptr_b 0x%p  .ptr_c 0x%p'') (table_args ad lib) c"

definition ex_dyn_test_print_ex_ftable_ptr :: "'w FILE \<Rightarrow> ex_addrs \<Rightarrow> ftable_lib \<Rightarrow> 'w con \<Rightarrow> 'w con option" where
  "ex_dyn_test_print_ex_ftable_ptr std_out ad lib c =
     con_printf std_out (line ''->ptr_a: 0x%p ->ptr_b 0x%p ->ptr_c 0x%p'') (table_args ad lib) c"

definition call_table :: "'w FILE \<Rightarrow> ftable_lib \<Rightarrow> u32 \<Rightarrow> 'w con \<Rightarrow> 'w con option" where
  "call_table std_out lib x c = do {
     c1 \<leftarrow> call_ftable_func std_out (ptr_a (lib_table lib)) x c;
     c2 \<leftarrow> call_ftable_func std_out (ptr_b (lib_table lib)) (x + 1) c1;
     call_ftable_func std_out (ptr_c (lib_table lib)) (x + 2) c2 }"

definition ex_dyn_test_libftable ::
    "'w FILE \<Rightarrow> ex_addrs \<Rightarrow> ftable_lib \<Rightarrow> 'w con \<Rightarrow> (ftable_lib \<times> 'w con) option" where
  "ex_dyn_test_libftable std_out ad lib c = do {
     c1 \<leftarrow> ex_dyn_test_print_ex_ftable std_out ad lib c;
     c2 \<leftarrow> ex_dyn_test_print_ex_ftable_ptr std_out ad lib c1;
     c3 \<leftarrow> con_printf std_out (line ''** using libftable via ftable [<%p>]...'') [Word (addr_table ad)] c2;
     c4 \<leftarrow> call_table std_out lib 1 c3;
     c5 \<leftarrow> con_printf std_out (line ''** using libftable directly...'') [] c4;
     c6 \<leftarrow> ex_ftable_func_c std_out 4 c5;
     (lib1, c7) \<leftarrow> ex_ftable_change_funcs std_out lib c6;
     c8 \<leftarrow> ex_dyn_test_print_ex_ftable_ptr std_out ad lib1 c7;
     c9 \<leftarrow> con_printf std_out (line ''** using libftable via ftable pointer...'') [] c8;
     c10 \<leftarrow> call_table std_out lib1 5 c9;
     c11 \<leftarrow> con_printf std_out (line ''** using libftable via function pointers...'') [] c10;
     c12 \<leftarrow> ex_ftable_func_c std_out 8 c11;
     (lib2, c13) \<leftarrow> ex_ftable_change_funcs std_out lib1 c12;
     c14 \<leftarrow> ex_dyn_test_print_ex_ftable std_out ad lib2 c13;
     c15 \<leftarrow> ex_dyn_test_print_ex_ftable_ptr std_out ad lib2 c14;
     c16 \<leftarrow> con_putchar std_out 10 c15;
     Some (lib2, c16) }"

definition ex_dyn_test_print_libgarage ::
    "'w FILE \<Rightarrow> 'w garage \<Rightarrow> 'w con \<Rightarrow> ('w garage \<times> 'w con) option" where
  "ex_dyn_test_print_libgarage std_out g c = do {
     c1 \<leftarrow> con_printf std_out (ascii ''expected car count: %d - '') [Word (car_count g)] c;
     (g2, c2) \<leftarrow> ex_garage_print_car_count std_out g c1;
     c3 \<leftarrow> con_printf std_out (ascii ''expected truck count: %d - '') [Word (truck_count g2)] c2;
     (g4, c4) \<leftarrow> ex_garage_print_truck_count std_out g2 c3;
     c5 \<leftarrow> con_printf std_out (ascii ''expected total count: %d - '') [Word (car_count g4 + truck_count g4)] c4;
     ex_garage_print_vehicle_count std_out g4 c5 }"

definition ex_dyn_test_verify_libgarage ::
    "'w FILE \<Rightarrow> u32 \<Rightarrow> u32 \<Rightarrow> 'w garage \<Rightarrow> 'w con \<Rightarrow> 'w con option" where
  "ex_dyn_test_verify_libgarage std_out cars trucks g c = do {
     c1 \<leftarrow> (if cars \<noteq> car_count g
            then do { c' \<leftarrow> con_printf std_out (line ''cars: %d != ex_garage_car_count: %d'')
                              [Word cars, Word (car_count g)] c;
                      Some (swbkpt (fst c'), snd c') }
            else Some c);
     if trucks \<noteq> truck_count g
     then do { c' \<leftarrow> con_printf std_out (line ''trucks: %d != ex_garage_truck_count: %d'')
                       [Word trucks, Word (truck_count g)] c1;
               Some (swbkpt (fst c'), snd c') }
     else Some c1 }"

text \<open>One round of the test: a loop of calls, the check of the counts, the report.\<close>

definition garage_round ::
    "'w FILE \<Rightarrow> nat \<Rightarrow> ('w garage \<Rightarrow> 'w garage) \<Rightarrow> u32 \<Rightarrow> u32 \<Rightarrow> 'w garage \<Rightarrow> 'w con \<Rightarrow> ('w garage \<times> 'w con) option" where
  "garage_round std_out n body cars trucks g c = (let g1 = (body ^^ n) g in do {
     c1 \<leftarrow> ex_dyn_test_verify_libgarage std_out cars trucks g1 c;
     ex_dyn_test_print_libgarage std_out g1 c1 })"

definition ex_dyn_test_libgarage ::
    "'w FILE \<Rightarrow> 'w garage \<Rightarrow> 'w con \<Rightarrow> ('w garage \<times> 'w con) option" where
  "ex_dyn_test_libgarage std_out g c = (let cars = car_count g; trucks = truck_count g in do {
     (g1, c1) \<leftarrow> ex_garage_print_banner std_out g c;
     (g2, c2) \<leftarrow> ex_dyn_test_print_libgarage std_out g1 c1;
     c3 \<leftarrow> con_putchar std_out 10 c2;
     (g4, c4) \<leftarrow> garage_round std_out 5 (ex_garage_inc_truck \<circ> ex_garage_inc_car) (cars + 5) (trucks + 5) g2 c3;
     c5 \<leftarrow> con_putchar std_out 10 c4;
     (g6, c6) \<leftarrow> garage_round std_out 2 (ex_garage_dec_truck \<circ> ex_garage_dec_car) (cars + 5 - 2) (trucks + 5 - 2) g4 c5;
     c7 \<leftarrow> con_putchar std_out 10 c6;
     (g8, c8) \<leftarrow> garage_round std_out 5 (ex_garage_inc_truck \<circ> ex_garage_inc_car)
                  (cars + 5 - 2 + 5) (trucks + 5 - 2 + 5) g6 c7;
     c9 \<leftarrow> con_putchar std_out 10 c8;
     (g10, c10) \<leftarrow> garage_round std_out 2 (ex_garage_dec_truck \<circ> ex_garage_dec_car)
                  (cars + 5 - 2 + 5 - 2) (trucks + 5 - 2 + 5 - 2) g8 c9;
     ex_garage_print_call_counts std_out g10 c10 })"

fun print_args :: "'w FILE \<Rightarrow> cstr list \<Rightarrow> 'w con \<Rightarrow> 'w con option" where
  "print_args std_out [] c = Some c"
| "print_args std_out (a # argv) c = do {
     c1 \<leftarrow> con_printf std_out (ascii '' %s'') [Str a] c;
     print_args std_out argv c1 }"

definition print_start :: "'w FILE \<Rightarrow> ex_addrs \<Rightarrow> cstr list \<Rightarrow> 'w con \<Rightarrow> 'w con option" where
  "print_start std_out ad argv c = do {
     c1 \<leftarrow> con_printf std_out (ascii ''started with args:'') [] c;
     c2 \<leftarrow> (if argv \<noteq> [] then print_args std_out argv c1 else con_printf std_out (ascii '' <none>'') [] c1);
     con_printf std_out ([10] @ line ''registers pc: 0x%08lx sp: 0x%08lx fb: 0x%08lx'')
       [Word (reg_pc ad), Word (reg_sp ad), Word (reg_fb ad)] c2 }"

text \<open>The program ends in an endless loop behind its last breakpoint; the result is the state there.\<close>

definition dyn_test_main ::
    "'w FILE \<Rightarrow> ex_addrs \<Rightarrow> cstr list \<Rightarrow> ftable_lib \<Rightarrow> 'w garage \<Rightarrow> 'w con \<Rightarrow> (ftable_lib \<times> 'w garage \<times> 'w con) option" where
  "dyn_test_main std_out ad argv lib g c = do {
     c1 \<leftarrow> con_printf std_out (line ''dyn_test.elf'') [] c;
     c2 \<leftarrow> print_start std_out ad argv c1;
     c3 \<leftarrow> con_printf std_out (line ''main is located at: 0x%p'' @ [10]) [Word (addr_main ad)] c2;
     (lib1, c4) \<leftarrow> ex_dyn_test_libftable std_out ad lib c3;
     (g1, c5) \<leftarrow> ex_dyn_test_libgarage std_out g c4;
     w6 \<leftarrow> mystery_func g1 std_out (mem (fst c5)) (snd c5);
     Some (lib1, g1, (swbkpt (fst c5), w6)) }"

section \<open>Hello world\<close>

definition hello_world_main :: "bool \<Rightarrow> 'w FILE \<Rightarrow> ex_addrs \<Rightarrow> cstr list \<Rightarrow> 'w con \<Rightarrow> 'w con option" where
  "hello_world_main dynamic std_out ad argv c = do {
     c1 \<leftarrow> con_printf std_out (line ''hello world!'') [] c;
     c2 \<leftarrow> (if dynamic then con_printf std_out (line ''this is built using dynamic linking'') [] c1 else Some c1);
     c3 \<leftarrow> print_start std_out ad argv c2;
     c4 \<leftarrow> con_printf std_out (line ''main is located at: 0x%p'') [Word (addr_main ad)] c3;
     Some (swbkpt (fst c4), snd c4) }"

section \<open>Running the test\<close>

text \<open>A step of a program on the console that leaves the machine as it is.\<close>

definition calm :: "machine \<Rightarrow> ('w con \<Rightarrow> 'w con option) \<Rightarrow> bool" where
  "calm s f \<longleftrightarrow> (\<forall>w. \<exists>w'. f (s, w) = Some (s, w'))"

definition calm_val :: "machine \<Rightarrow> 'a \<Rightarrow> ('w con \<Rightarrow> ('a \<times> 'w con) option) \<Rightarrow> bool" where
  "calm_val s v f \<longleftrightarrow> (\<forall>w. \<exists>w'. f (s, w) = Some (v, s, w'))"

lemma calm_bind: "calm s f \<Longrightarrow> calm s g \<Longrightarrow> calm s (\<lambda>c. Option.bind (f c) g)"
  unfolding calm_def by (metis bind.bind_lunit)

lemma calm_val_bind: "calm s f \<Longrightarrow> calm_val s v g \<Longrightarrow> calm_val s v (\<lambda>c. Option.bind (f c) g)"
  unfolding calm_def calm_val_def by (metis bind.bind_lunit)

lemma calm_val_next: "calm_val s u f \<Longrightarrow> calm_val s v (g u) \<Longrightarrow> calm_val s v (\<lambda>c. Option.bind (f c) (\<lambda>(x, c'). g x c'))"
  unfolding calm_val_def by (metis bind.bind_lunit case_prod_conv)

lemma calm_val_return: "calm s f \<Longrightarrow> calm_val s v (\<lambda>c. Option.bind (f c) (\<lambda>c'. Some (v, c')))"
  unfolding calm_def calm_val_def by (metis bind.bind_lunit)

definition after_report :: "'g garage \<Rightarrow> 'g garage" where
  "after_report g = g\<lparr>call_count_get := call_count_get g + 3, call_count_print := call_count_print g + 3\<rparr>"

context text_stream
begin

lemma calm_printf:
  assumes "fmt_text tx ap fs = Some t" "known_text (mem s) tx" "fmt_bkpts fs = 0" "0 \<notin> set fs" "length fs < 2147483648"
  shows "calm s (con_printf stream fs ap)"
  unfolding calm_def
proof
  fix w
  show "\<exists>w'. con_printf stream fs ap (s, w) = Some (s, w')"
    using printf_lit [OF assms(4,5,2,1,3), of w] by (auto simp: con_printf_def)
qed

lemma known_none: "known_text m (\<lambda>_. None)" by (simp add: known_text_def)

lemmas fmt_simps = ascii_def line_def ch_def mod_step_def conv_text_def va_word_def va_str_def conv_known_def fwrite_flag_defs

lemma calm_words:
  assumes "fmt_text (\<lambda>_. None) ap fs = Some t" "fmt_bkpts fs = 0" "0 \<notin> set fs" "length fs < 2147483648"
  shows "calm s (con_printf stream fs ap)"
  using calm_printf [OF assms(1) known_none assms(2-4)] .

lemma calm_funcs: "calm s (ex_ftable_func_a stream x)" "calm s (ex_ftable_func_b stream x)" "calm s (ex_ftable_func_c stream x)"
  unfolding ex_ftable_func_a_def ex_ftable_func_b_def ex_ftable_func_c_def
  by (rule calm_words; simp add: fmt_simps)+

lemma calm_call_table: "calm s (call_table stream lib x)"
proof -
  have "calm s (call_ftable_func stream f x)" for f x by (cases f) (simp_all add: calm_def calm_funcs [unfolded calm_def])
  then show ?thesis unfolding call_table_def by (intro calm_bind)
qed

lemma calm_putchar: "calm s (con_putchar stream x)"
  unfolding calm_def
proof
  fix w
  show "\<exists>w'. con_putchar stream x (s, w) = Some (s, w')"
    using putchar_text [of x w] by (auto simp: con_putchar_def uld_putchar_def)
qed

lemma calm_change: "calm_val s (switch_table lib) (ex_ftable_change_funcs stream lib)"
proof -
  have "calm s (con_printf stream (line ''ex_ftable_change_funcs switching table to state %d'') [Word v])" for v
    by (rule calm_words; simp add: fmt_simps)
  then show ?thesis unfolding ex_ftable_change_funcs_def Let_def by (rule calm_val_return)
qed

lemma calm_libftable: "calm_val s (switch_table (switch_table lib)) (ex_dyn_test_libftable stream ad lib)"
proof -
  have p: "calm s (ex_dyn_test_print_ex_ftable stream ad lib)" "calm s (ex_dyn_test_print_ex_ftable_ptr stream ad lib)"
    "calm s (con_printf stream (line ''** using libftable via ftable [<%p>]...'') [Word v])"
    "calm s (con_printf stream (line ''** using libftable directly...'') [])"
    "calm s (con_printf stream (line ''** using libftable via ftable pointer...'') [])"
    "calm s (con_printf stream (line ''** using libftable via function pointers...'') [])" for lib v
    unfolding ex_dyn_test_print_ex_ftable_def ex_dyn_test_print_ex_ftable_ptr_def table_args_def
    by (rule calm_words; simp add: fmt_simps)+
  show ?thesis unfolding ex_dyn_test_libftable_def
    by (intro calm_val_bind calm_val_next [OF calm_change] p calm_call_table calm_funcs calm_val_return calm_putchar)
qed

lemma calm_print_car: "calm_val s (count_print g\<lparr>call_count_get := call_count_get g + 1\<rparr>) (ex_garage_print_car_count stream g)"
  unfolding calm_val_def
proof
  fix w
  have p: "calm s (con_printf stream (line ''%d cars'') [Word v])" for v by (rule calm_words; simp add: fmt_simps)
  obtain w1 where "ex_print_upper stream (mem s) (Lit (ascii ''CAR count: '')) w = Some (0, w1)"
    using case_out [OF str_is_Lit, of "ascii ''CAR count: ''" "mem s" True w] by (auto simp: ex_print_upper_def ascii_def)
  moreover obtain w2 where "con_printf stream (line ''%d cars'') [Word (car_count g)] (s, w1) = Some (s, w2)"
    using p unfolding calm_def by blast
  ultimately show "\<exists>w'. ex_garage_print_car_count stream g (s, w)
      = Some (count_print g\<lparr>call_count_get := call_count_get g + 1\<rparr>, s, w')"
    by (simp add: ex_garage_print_car_count_def count_print_def ex_garage_get_cars_def Let_def)
qed

lemma calm_print_truck: "calm_val s (count_print g\<lparr>call_count_get := call_count_get g + 1\<rparr>) (ex_garage_print_truck_count stream g)"
  unfolding calm_val_def
proof
  fix w
  have p: "calm s (con_printf stream (line ''%d trucks'') [Word v])" for v by (rule calm_words; simp add: fmt_simps)
  obtain w1 where "ex_print_lower stream (mem s) (Lit (ascii ''TRUCK count: '')) w = Some (0, w1)"
    using case_out [OF str_is_Lit, of "ascii ''TRUCK count: ''" "mem s" False w] by (auto simp: ex_print_lower_def ascii_def)
  moreover obtain w2 where "con_printf stream (line ''%d trucks'') [Word (truck_count g)] (s, w1) = Some (s, w2)"
    using p unfolding calm_def by blast
  ultimately show "\<exists>w'. ex_garage_print_truck_count stream g (s, w)
      = Some (count_print g\<lparr>call_count_get := call_count_get g + 1\<rparr>, s, w')"
    by (simp add: ex_garage_print_truck_count_def count_print_def ex_garage_get_trucks_def Let_def)
qed

lemma calm_print_vehicles: "calm_val s (count_print g\<lparr>call_count_get := call_count_get g + 1\<rparr>) (ex_garage_print_vehicle_count stream g)"
proof -
  have "calm s (con_printf stream (line ''total count: %d vehicles'') [Word v])" for v
    by (rule calm_words; simp add: fmt_simps)
  then show ?thesis
    unfolding ex_garage_print_vehicle_count_def ex_garage_get_vehicles_def Let_def prod.case
    by (simp add: count_print_def) (rule calm_val_return, blast)
qed

lemma calm_call_counts: "calm_val s (count_print g) (ex_garage_print_call_counts stream g)"
proof -
  have "calm s (con_printf stream (line ''call count - get: %d set: %d inc/dec: %d print: %d'') [Word a, Word b, Word c, Word d])" for a b c d
    by (rule calm_words; simp add: fmt_simps)
  then show ?thesis unfolding ex_garage_print_call_counts_def Let_def by (rule calm_val_return)
qed

lemma calm_banner:
  assumes "str_is (mem s) (garage_name g) bs" "length bs < 2147483000"
  shows "calm_val s (count_print g) (ex_garage_print_banner stream g)"
  unfolding calm_val_def
proof
  fix w
  have a: "cs_is (mem s) (garage_name g) bs" "0 \<notin> set bs" using assms(1) by (auto simp: str_is_def cs_is_def)
  let ?b = "ascii ''Welcome to '' @ bs"
  have n: "garage_name (count_print g) = garage_name g" by (simp add: count_print_def)
  have b: "map (cs_byte (mem s) (garage_name g)) [0..<length bs] = bs" using cs_bytes_is [OF a(1), of "length bs"] by simp
  have "str_is (mem s) (Lit ?b) ?b" using a(2) assms(2) by (intro str_is_Lit) (auto simp: ascii_def)
  then obtain w1 where "ex_print_box_text stream (Lit ?b) s w = Some (0, s, w1)" using box_text_out by blast
  then show "\<exists>w'. ex_garage_print_banner stream g (s, w) = Some (count_print g, s, w')"
    by (simp add: ex_garage_print_banner_def n cs_strlen_is [OF a(1)] b Let_def)
qed

lemma calm_print_libgarage: "calm_val s (after_report g) (ex_dyn_test_print_libgarage stream g)"
proof -
  have p: "calm s (con_printf stream (ascii ''expected car count: %d - '') [Word v])"
     "calm s (con_printf stream (ascii ''expected truck count: %d - '') [Word v])"
     "calm s (con_printf stream (ascii ''expected total count: %d - '') [Word v])" for v
    by (rule calm_words; simp add: fmt_simps)+
  let ?n = "\<lambda>g. count_print g\<lparr>call_count_get := call_count_get g + 1\<rparr>"
  have "after_report g = ?n (?n (?n g))" by (simp add: after_report_def count_print_def)
  then show ?thesis unfolding ex_dyn_test_print_libgarage_def
    by (simp only:) (intro calm_val_bind calm_val_next [OF calm_print_car] calm_val_next [OF calm_print_truck] p
      calm_print_vehicles)
qed

lemma calm_verify: "calm s (ex_dyn_test_verify_libgarage stream (car_count g) (truck_count g) g)"
  by (simp add: calm_def ex_dyn_test_verify_libgarage_def)

lemma calm_round:
  assumes "cars = car_count ((body ^^ n) g)" "trucks = truck_count ((body ^^ n) g)"
  shows "calm_val s (after_report ((body ^^ n) g)) (garage_round stream n body cars trucks g)"
  unfolding garage_round_def Let_def assms by (intro calm_val_bind calm_verify calm_print_libgarage)

end

text \<open>What a loop of \<open>n\<close> turns over both counts leaves.\<close>

definition after_loop :: "u32 \<Rightarrow> u32 \<Rightarrow> 'g garage \<Rightarrow> 'g garage" where
  "after_loop n d g = g\<lparr>call_count_get := call_count_get g + 2 * n, call_count_set := call_count_set g + 2 * n,
     call_count_inc_dec := call_count_inc_dec g + 2 * n, car_count := car_count g + n * d, truck_count := truck_count g + n * d\<rparr>"

lemma garage_turn:
  "(ex_garage_inc_truck \<circ> ex_garage_inc_car) g = after_loop 1 1 g"
  "(ex_garage_dec_truck \<circ> ex_garage_dec_car) g = after_loop 1 (- 1) g"
  by (simp_all add: ex_garage_inc_truck_def ex_garage_inc_car_def ex_garage_dec_truck_def ex_garage_dec_car_def
      ex_garage_get_cars_def ex_garage_set_cars_def ex_garage_get_trucks_def ex_garage_set_trucks_def Let_def after_loop_def)

lemma after_loop_add: "after_loop n d (after_loop k d g) = after_loop (n + k) d g"
  by (simp add: after_loop_def algebra_simps)

lemma garage_loop:
  assumes "\<And>g. body g = after_loop 1 d g"
  shows "(body ^^ n) g = after_loop (of_nat n) d g"
proof (induction n)
  case 0
  then show ?case by (simp add: after_loop_def)
next
  case (Suc n)
  then show ?case using assms by (simp add: after_loop_add)
qed

lemmas garage_loops = garage_loop [OF garage_turn(1)] garage_loop [OF garage_turn(2)]

definition after_test :: "'g garage \<Rightarrow> 'g garage" where
  "after_test g = g\<lparr>call_count_get := call_count_get g + 43, call_count_set := call_count_set g + 28,
     call_count_inc_dec := call_count_inc_dec g + 28, call_count_print := call_count_print g + 17,
     car_count := car_count g + 6, truck_count := truck_count g + 6\<rparr>"

context text_stream
begin

lemma calm_libgarage:
  assumes "str_is (mem s) (garage_name g) bs" "length bs < 2147483000"
  shows "calm_val s (after_test g) (ex_dyn_test_libgarage stream g)"
proof -
  define g1 where "g1 = after_report (count_print g)"
  define g2 where "g2 = after_report (((ex_garage_inc_truck \<circ> ex_garage_inc_car) ^^ 5) g1)"
  define g3 where "g3 = after_report (((ex_garage_dec_truck \<circ> ex_garage_dec_car) ^^ 2) g2)"
  define g4 where "g4 = after_report (((ex_garage_inc_truck \<circ> ex_garage_inc_car) ^^ 5) g3)"
  define g5 where "g5 = after_report (((ex_garage_dec_truck \<circ> ex_garage_dec_car) ^^ 2) g4)"
  note gs = g1_def g2_def g3_def g4_def g5_def garage_loops after_report_def count_print_def after_loop_def
  have r: "calm_val s g2 (garage_round stream 5 (ex_garage_inc_truck \<circ> ex_garage_inc_car) (car_count g + 5) (truck_count g + 5) g1)"
    "calm_val s g3 (garage_round stream 2 (ex_garage_dec_truck \<circ> ex_garage_dec_car) (car_count g + 5 - 2) (truck_count g + 5 - 2) g2)"
    "calm_val s g4 (garage_round stream 5 (ex_garage_inc_truck \<circ> ex_garage_inc_car) (car_count g + 5 - 2 + 5) (truck_count g + 5 - 2 + 5) g3)"
    "calm_val s g5 (garage_round stream 2 (ex_garage_dec_truck \<circ> ex_garage_dec_car) (car_count g + 5 - 2 + 5 - 2) (truck_count g + 5 - 2 + 5 - 2) g4)"
    unfolding g2_def g3_def g4_def g5_def by (rule calm_round; simp add: gs)+
  have "after_test g = count_print g5" by (simp add: gs after_test_def)
  then show ?thesis
    unfolding ex_dyn_test_libgarage_def Let_def
    by (simp only:) (intro calm_val_next [OF calm_banner [OF assms]] calm_val_next [OF calm_print_libgarage [of s "count_print g", folded g1_def]]
      calm_val_bind calm_putchar r [THEN calm_val_next] calm_call_counts)
qed

lemma calm_args:
  assumes "list_all2 (str_is (mem s)) argv args"
  shows "calm s (print_args stream argv)"
  using assms
proof (induction argv args)
  case Nil
  then show ?case by (simp add: calm_def)
next
  case (Cons a argv b args)
  have f: "fmt_text [a \<mapsto> b] [Str a] (ascii '' %s'') = Some (32 # b)" "fmt_bkpts (ascii '' %s'') = 0"
    by (simp_all add: fmt_simps field_text_def pad_text_def)
  have "known_text (mem s) [a \<mapsto> b]" using Cons.hyps(1) by (simp add: known_text_def)
  then have "calm s (con_printf stream (ascii '' %s'') [Str a])"
    using f by (intro calm_printf [OF f(1) _ f(2)]) (simp_all add: ascii_def)
  from calm_bind [OF this Cons.IH] show ?case by simp
qed

lemma calm_start:
  assumes "list_all2 (str_is (mem s)) argv args"
  shows "calm s (print_start stream ad argv)"
proof -
  have p: "calm s (con_printf stream (ascii ''started with args:'') [])" "calm s (con_printf stream (ascii '' <none>'') [])"
    "calm s (con_printf stream ([10] @ line ''registers pc: 0x%08lx sp: 0x%08lx fb: 0x%08lx'')
       [Word (reg_pc ad), Word (reg_sp ad), Word (reg_fb ad)])"
    by (rule calm_words; simp add: fmt_simps)+
  have q: "calm s (\<lambda>c1. if argv \<noteq> [] then print_args stream argv c1 else con_printf stream (ascii '' <none>'') [] c1)"
    using p(2) calm_args [OF assms] by (cases "argv = []") simp_all
  show ?thesis unfolding print_start_def by (intro calm_bind p q)
qed

lemma calm_cow: "\<exists>w'. ex_print_cow stream m w = Some w'"
proof -
  have "str_is m (Lit moo_str) moo_str" by (rule str_is_Lit) (simp_all add: moo_str_def line_def ascii_def)
  then obtain r w1 where "uld_fputs stream m (Lit moo_str) w = Some (r, w1)" using fputs_out by blast
  then show ?thesis using putchar_text [of 10 w1] by (auto simp: ex_print_cow_def uld_puts_def)
qed

lemma dyn_test_main_out:
  assumes "str_is (mem s) (garage_name g) bs" "length bs < 2147483000" "list_all2 (str_is (mem s)) argv args"
    and "mystery_func g = ex_print_cow"
  shows "\<exists>w'. dyn_test_main stream ad argv lib g (s, w) = Some (switch_table (switch_table lib), after_test g, swbkpt s, w')"
proof -
  have p: "calm s (con_printf stream (line ''dyn_test.elf'') [])"
    "calm s (con_printf stream (line ''main is located at: 0x%p'' @ [10]) [Word (addr_main ad)])"
    by (rule calm_words; simp add: fmt_simps)+
  have m: "mystery_func (after_test g) = ex_print_cow" using assms(4) by (simp add: after_test_def)
  obtain w1 where 1: "con_printf stream (line ''dyn_test.elf'') [] (s, w) = Some (s, w1)"
    using p(1) unfolding calm_def by blast
  obtain w2 where 2: "print_start stream ad argv (s, w1) = Some (s, w2)"
    using calm_start [OF assms(3)] unfolding calm_def by blast
  obtain w3 where 3: "con_printf stream (line ''main is located at: 0x%p'' @ [10]) [Word (addr_main ad)] (s, w2) = Some (s, w3)"
    using p(2) unfolding calm_def by blast
  obtain w4 where 4: "ex_dyn_test_libftable stream ad lib (s, w3) = Some (switch_table (switch_table lib), s, w4)"
    using calm_libftable unfolding calm_val_def by blast
  obtain w5 where 5: "ex_dyn_test_libgarage stream g (s, w4) = Some (after_test g, s, w5)"
    using calm_libgarage [OF assms(1,2)] unfolding calm_val_def by blast
  obtain w6 where 6: "ex_print_cow stream (mem s) w5 = Some w6" using calm_cow by blast
  show ?thesis using 1 2 3 4 5 6 m by (simp add: dyn_test_main_def)
qed

lemma hello_world_main_out:
  assumes "list_all2 (str_is (mem s)) argv args"
  shows "\<exists>w'. hello_world_main dynamic stream ad argv (s, w) = Some (swbkpt s, w')"
proof -
  have p: "calm s (con_printf stream (line ''hello world!'') [])"
    "calm s (con_printf stream (line ''this is built using dynamic linking'') [])"
    "calm s (con_printf stream (line ''main is located at: 0x%p'') [Word (addr_main ad)])"
    by (rule calm_words; simp add: fmt_simps)+
  obtain w1 where 1: "con_printf stream (line ''hello world!'') [] (s, w) = Some (s, w1)"
    using p(1) unfolding calm_def by blast
  obtain w2 where 2: "con_printf stream (line ''this is built using dynamic linking'') [] (s, w1) = Some (s, w2)"
    using p(2) unfolding calm_def by blast
  obtain w3 where 3: "print_start stream ad argv (s, if dynamic then w2 else w1) = Some (s, w3)"
    using calm_start [OF assms] unfolding calm_def by blast
  obtain w4 where 4: "con_printf stream (line ''main is located at: 0x%p'') [Word (addr_main ad)] (s, w3) = Some (s, w4)"
    using p(3) unfolding calm_def by blast
  show ?thesis using 1 2 3 4 by (cases dynamic) (simp_all add: hello_world_main_def)
qed

end

text \<open>C12 The dynamic linking test runs to its last breakpoint, which is the only one it meets: none of its
  checks of the garage fails. It leaves six cars and six trucks more (with the wrap-around of the counters), the counts
  of its calls (43 of the getters, 28 of the setters and of the increments and decrements, 17 of the printers), and the
  function table switched twice.\<close>

theorem dyn_test_runs:
  assumes "\<And>fd buf w. \<exists>w'. host_write h fd buf w = (0, w') \<and> out w' = out w @ buf"
    and "str_is (mem s) (garage_name g) bs" "length bs < 2147483000" "list_all2 (str_is (mem s)) argv args"
    and "mystery_func g = ex_print_cow" "lib_state lib = 0"
  shows "\<exists>w'. dyn_test_main (SWI_STDOUT h) ad argv lib g (s, w) =
      Some (\<lparr>lib_table = \<lparr>ptr_a = Func_c, ptr_b = Func_a, ptr_c = Func_b\<rparr>, lib_state = 2\<rparr>,
        g\<lparr>call_count_get := call_count_get g + 43, call_count_set := call_count_set g + 28,
          call_count_inc_dec := call_count_inc_dec g + 28, call_count_print := call_count_print g + 17,
          car_count := car_count g + 6, truck_count := truck_count g + 6\<rparr>,
        s\<lparr>bkpts := bkpts s + 1\<rparr>, w')"
proof -
  have "switch_table (switch_table lib) = \<lparr>lib_table = \<lparr>ptr_a = Func_c, ptr_b = Func_a, ptr_c = Func_b\<rparr>, lib_state = 2\<rparr>"
    using assms(6) by (simp add: switch_table_def)
  then show ?thesis
    using text_stream.dyn_test_main_out [OF std_out_stream [of h, OF assms(1)] assms(2-5), of ad lib w]
    by (simp add: after_test_def swbkpt_def)
qed

definition ex_addrs_zero :: ex_addrs where
  "ex_addrs_zero = \<lparr>reg_pc = 0, reg_sp = 0, reg_fb = 0, addr_std = [0, 0, 0], addr_io = [0, 0, 0], addr_table = 0,
     addr_func = (\<lambda>_. 0), addr_dl_alloc = [0, 0, 0], addr_main = 0\<rparr>"

theorem dyn_test_runs_witness:
  "\<exists>g' w'. dyn_test_main (SWI_STDOUT log_host) ex_addrs_zero [Lit [119]] ex_ftable_init garage_init (mach0 (\<lambda>_. 0), [])
      = Some (\<lparr>lib_table = \<lparr>ptr_a = Func_c, ptr_b = Func_a, ptr_c = Func_b\<rparr>, lib_state = 2\<rparr>, g',
          (mach0 (\<lambda>_. 0))\<lparr>bkpts := 1\<rparr>, w')
    \<and> car_count g' = 8 \<and> truck_count g' = 6 \<and> call_count_set g' = 30"
proof -
  let ?n = "ascii ''Squeaky'' @ [39] @ ascii ''s garage''"
  let ?g = "garage_init :: u8 list garage"
  have h: "\<exists>w'. host_write log_host fd buf w = (0, w') \<and> w' = w @ buf" for fd buf w by (simp add: log_host_def)
  have n: "str_is m (garage_name ?g) ?n" for m
    unfolding garage_init_def by simp (rule str_is_Lit; simp add: ascii_def)
  have a: "list_all2 (str_is m) [Lit [119]] [[119]]" for m by (simp add: str_is_Lit)
  have i: "mystery_func ?g = ex_print_cow" "lib_state ex_ftable_init = 0" "car_count ?g = 2" "truck_count ?g = 0"
    "call_count_set ?g = 2" "length ?n < 2147483000"
    by (simp_all add: garage_init_def ex_ftable_init_def ascii_def)
  show ?thesis
    using dyn_test_runs [of log_host "\<lambda>w. w" "mach0 (\<lambda>_. 0)" ?g ?n "[Lit [119]]" "[[119]]" ex_ftable_init ex_addrs_zero "[]", OF h n i(6) a i(1,2)] i(3-5)
    by (auto simp: mach0_def)
qed

end
