(* ===== verification/Spec2Isabelle.thy ===== *)
theory Spec2Isabelle
  imports Exec Base64 Print ExTest
begin

text \<open>This development models uld-fdpic, a small dynamic loader for ARM Cortex-M with the FDPIC ABI, written in C. The
loader runs from flash, finds ELF files in a linked table of flash entries, moves a file in flash, loads an executable
and the shared objects it needs, resolves the dynamic relocations and starts the program.

\<^bold>\<open>How the program works.\<close> \<open>uld_main\<close> (\<open>src/uld.c\<close>) reads the boot action from the persistent store, looks
the files up in the file system table (\<open>src/uld_fs.c\<close>), may move one of them to free space (\<open>src/uld_reloc.c\<close>) and calls
\<open>uld_dyn_exec_fse\<close> (\<open>src/uld_dyn.c\<close>). That function builds the list of dependencies (\<open>DT_NEEDED\<close> entries, depth first),
loads every file on it (\<open>src/uld_load.c\<close>: section lists sorted by type, memory sections copied to memory one
file after the other, fixups of \<open>src/uld_rofixup.c\<close>), resolves and writes the dynamic relocations, runs the
initialisation functions and enters the program (\<open>src/uld_exec.c\<close>). \<open>src/uld_sal.c\<close>, \<open>src/uld_file.c\<close> and \<open>src/elf.c\<close> answer
queries on sections, loaded files and ELF images; \<open>src/util.c\<close>, \<open>src/libc.c\<close> and \<open>src/base64.c\<close> are support code; \<open>src/swi.c\<close> is the
console and \<open>src/uld_print.c\<close> prints tables on it.

\<^bold>\<open>State.\<close> Memory is one flat map from 32-bit addresses to bytes (\<open>mem\<close> in Prelude); a C pointer is a 32-bit word,
NULL is 0, multi-byte fields are little endian (\<open>ld16\<close>, \<open>ld32\<close>, \<open>st32\<close>). Structures that live in memory (ELF headers, file
system entries, the persistent store, symbols, relocations) are records read by functions named \<open>..._at\<close>; structures the
loader keeps in local arrays (\<open>uld_section\<close>, \<open>uld_file\<close>, \<open>uld_dyn_resolution\<close>) are HOL records and their arrays are
lists. A section list of a file is stored in the file record itself, and its length is the number the C code keeps beside
the pointer. The record \<open>machine\<close> (Cpu) holds memory, the flash lock and the number of software breakpoints taken: \<open>swbkpt\<close>
stops in a debugger and execution goes on after it, so the models go on too. Results are integers as in C and
unsigned values are words of their width; signed subtraction and comparison is written with \<open>sint\<close>.

\<^bold>\<open>Errors and termination.\<close> An early return is a branch with its return value. \<open>None\<close> stands for a run that does not
return or that leaves defined behaviour: a string loop without terminator, a recursion without end, a missing section that
is dereferenced, a file index out of range. Loops that may not end are \<open>partial_function (option)\<close>; the other loops are
recursive functions with a termination proof, and no fuel is used anywhere. The theorems on partial functions either state that
the result is \<open>Some\<close> (\<open>dep_list_returns\<close>, \<open>find_free_space_disjoint\<close>, \<open>lma_map_offset\<close>, \<open>printf_text\<close>,
\<open>next_dt_needed_first\<close>, \<open>mem_fixups_refine\<close>, \<open>dyn_test_runs\<close>) or are safety
statements that say so.

\<^bold>\<open>Parameters.\<close> Uninitialised locals are parameters (\<open>stk\<close>, \<open>stk_file\<close>, \<open>env_stk_res\<close>). Linker symbols and the code the loader
jumps to are fields of \<open>uld_env\<close> (Exec). What the debugger does at a semihosting trap is the record \<open>host\<close> (Swi). The output
streams of \<open>src/uld_print.c\<close> and of the printf engine are arbitrary functions on an arbitrary world (\<open>FILE\<close> in Stdio).
The console of Exec is the field \<open>env_out\<close>.

\<^bold>\<open>Configuration.\<close> The models are those of the default build of \<open>src/Makefile\<close>: \<open>ULD_BREAK_BEFORE_CTOR\<close> and
\<open>ULD_BREAK_BEFORE_ENTRY\<close> are defined and their two stops are breakpoints of the model (\<open>uld_dyn_exec_fse\<close>,
\<open>uld_exec_file\<close>), \<open>ULD_BREAK_BEFORE_STACK_RESET\<close> is not. \<open>uld_verbose\<close> is the field \<open>env_verbose\<close>, set by \<open>uld_main\<close> as the boot action says; a
verbose start prints the tables of its files (\<open>exec_dump\<close>). These tables and the debugger commands that every start prints
are part of the model of \<open>uld_dyn_exec_fse\<close>, since finding what to print in them can meet breakpoints or fail to return; what
appears on the console is not part of the result of the start. The single messages (\<open>printf\<close>, \<open>puts\<close>, \<open>putchar\<close>) of the
loader functions are left out: their formats are fixed and have no unknown directive, and the printing lemmas of Print
(\<open>print_mems\<close> and those on the table printers and the debugger commands) show that printing changes no memory. What is lost
with them is that a message whose string argument has no terminator, or a host that does not answer, would stop the
loader.

\<^bold>\<open>Theories.\<close>
\<^item> Prelude: words, byte ranges, reads and writes, first match in a list, insertion in order. Its locales are the contracts
  components share: \<open>ordered_insert\<close> (a sorted insertion keeps order and contents) and \<open>first_match\<close> (a search returns the
  first hit). \<open>agrees_off\<close> is the frame: two memories that differ in a region at most. Alloc: runs of an allocator, with the
  contract \<open>bump_allocator\<close> under which the blocks of a run are disjoint.
\<^item> Libc, Util, Stdio, Swi: \<open>src/libc.c\<close>, \<open>src/util.c\<close>, \<open>src/swi.c\<close>. Lemmas: copy, compare and move on overlapping and
  disjoint blocks, the checksum detects a changed byte, number formatting round trips, and the printf engine writes the
  text its format denotes (\<open>fmt_text\<close>) and meets the breakpoints of its unknown directives (\<open>fmt_bkpts\<close>; locale
  \<open>text_stream\<close>, given by \<open>reliable_host\<close>).
\<^item> Cpu: flash lock, erase, write. Elf: \<open>src/elf.c\<close> and the iteration macros of \<open>include/elf.h\<close>.
\<^item> Sal: \<open>src/uld_sal.c\<close>; checksum update against verification, the exact classification of sections, lookups as instances of \<open>first_match\<close>.
\<^item> Fs: \<open>src/uld_fs.c\<close>; the linked table as an inductive chain, sorted insertion as an instance of \<open>ordered_insert\<close>, free space.
\<^item> Load, LoadFile: \<open>src/uld_load.c\<close>; section descriptors, section lists (\<open>ordered_insert\<close> twice: sorted by type always, by
  type and address when no address is zero), placement of memory
  sections as one write of the concatenated section images, the choice of the next memory base as an instance of
  \<open>bump_allocator\<close>. File: \<open>src/uld_file.c\<close> and the address map of a file.
\<^item> Rofixup: \<open>src/uld_rofixup.c\<close>; the fixup loop refines the word by word specification \<open>mem_fixup\<close> of the fixup table.
  Reloc: \<open>src/uld_reloc.c\<close>; what a move leaves in flash, in the entry and in the flash lock on every branch, and its
  frame: the flash fixups write the new image only (\<open>slots_in\<close>), so the old copy outlives every move.
\<^item> DynSym: the symbol lookups of \<open>src/uld_dyn.c\<close> with \<open>include/uld_dyn.h\<close>; on a well-formed hash table both lookups find
  the symbol of the specification \<open>dynsym_spec\<close>. DynDeps: the dependency list with its order and termination, and the
  loading of its files into disjoint blocks. DynLink: resolution (scope and result), the writes of a relocation with the
  exact bytes it may touch and allocate, the descriptors and the memory the linker allocates.
\<^item> Exec: \<open>src/uld_exec.c\<close>, \<open>src/uld.c\<close>, \<open>src/uld_init.c\<close>; the initialisation functions of all files run in order, as one
  fold over the words of their tables (\<open>run_calls\<close>), and the start of a program from its
  dependency list to its entry, with the breakpoints on the way. The boot actions that move a file compose Fs, Reloc and the
  start; an example file is moved, started from its new place and entered.
\<^item> Base64: \<open>src/base64.c\<close>; the lines handed out are the encoding \<open>base64_ref\<close> of the block. Print: \<open>src/uld_print.c\<close>.
\<^item> ExPrint, ExFtable, ExGarage, ExTest: the example libraries and programs under \<open>src/example\<close>, on any stream. The state
  of a library is a record of its variables; \<open>calm\<close> steps (ExTest) leave the machine alone, which carries a whole program
  to its last breakpoint.

\<^bold>\<open>Bounds.\<close> Sizes and counts are natural numbers where the C type cannot be exceeded by the values that reach
it; address arithmetic always wraps at 32 bits, and theorems that need a range not to wrap say so as a hypothesis. In the
printf engine the field width is an unbounded integer, which differs from C only for widths beyond the signed
range.

\<^bold>\<open>Not modelled.\<close> The assembly files (reset, vectors, the register switch at program entry) and the data templates
are not C code; calls into them are parameters. The registers and the addresses of functions and
variables that the example programs print are known after linking only and are parameters (\<open>ex_addrs\<close>). Compiler
attributes (\<open>include/compiler.h\<close>), prototypes and the constants of \<open>include/elf.h\<close> that no function uses have no model. The
host scripts and the linker scripts are outside the target program.\<close>

end
